(* ===== verification/Prelude.thy ===== *)
theory Prelude
  imports Complex_Main "HOL-Library.AList" "HOL-Library.Multiset" "HOL-Library.List_Lexorder" "HOL-Library.Char_ord"
    "HOL-Library.Product_Lexorder"
begin

text \<open>
  What every component shares: results of fallible code (\<open>error + value\<close>) and their
  sequencing, Python's insertion-ordered \<open>dict\<close> as an association list behind the interface
  \<open>py_dict\<close>, \<open>min(..., key=...)\<close>, the list-building loop of a comprehension whose body may
  raise, and the interface \<open>step_invariant\<close> that lifts a property of one operation to every
  run of operations.
\<close>

named_theorems result_simps \<open>equations of the result combinators\<close>
named_theorems model_defs \<open>definitions a case analysis of a handler unfolds\<close>

section \<open>Results\<close>

definition rbind :: "'e + 'a \<Rightarrow> ('a \<Rightarrow> 'e + 'b) \<Rightarrow> 'e + 'b" where
  "rbind m f = (case m of Inl e \<Rightarrow> Inl e | Inr x \<Rightarrow> f x)"

definition guard :: "bool \<Rightarrow> 'e \<Rightarrow> 'e + unit" where
  "guard b e = (if b then Inr () else Inl e)"

text \<open>\<open>try: m except: raise e\<close>, whatever the exception was.\<close>

definition map_error :: "('e \<Rightarrow> 'f) \<Rightarrow> 'e + 'a \<Rightarrow> 'f + 'a" where
  "map_error f m = (case m of Inl e \<Rightarrow> Inl (f e) | Inr x \<Rightarrow> Inr x)"

fun rmap :: "('a \<Rightarrow> 'e + 'b) \<Rightarrow> 'a list \<Rightarrow> 'e + 'b list" where
  "rmap f [] = Inr []"
| "rmap f (x # xs) = rbind (f x) (\<lambda>y. rbind (rmap f xs) (\<lambda>ys. Inr (y # ys)))"

lemma rbind_simps [simp, result_simps]:
  "rbind (Inl e) f = Inl e"
  "rbind (Inr x) f = f x"
  by (simp_all add: rbind_def)

lemma rbind_Inr_iff [result_simps]: "rbind m f = Inr y \<longleftrightarrow> (\<exists>x. m = Inr x \<and> f x = Inr y)"
  by (cases m) auto

lemma rbind_Inl_iff:
  "rbind m f = Inl e \<longleftrightarrow> m = Inl e \<or> (\<exists>x. m = Inr x \<and> f x = Inl e)"
  by (cases m) auto

lemma guard_simps [simp, result_simps]:
  "guard b e = Inr u \<longleftrightarrow> b"
  "guard b e = Inl e' \<longleftrightarrow> \<not> b \<and> e' = e"
  "guard True e = Inr ()"
  "guard False e = Inl e"
  by (auto simp: guard_def)

lemma map_error_simps [simp, result_simps]:
  "map_error f (Inl e) = Inl (f e)"
  "map_error f (Inr x) = Inr x"
  "map_error f m = Inr x \<longleftrightarrow> m = Inr x"
  by (auto simp: map_error_def split: sum.splits)

lemma rmap_Inr_list_all2: "rmap f xs = Inr ys \<longleftrightarrow> list_all2 (\<lambda>x y. f x = Inr y) xs ys"
  by (induction xs arbitrary: ys) (auto simp: rbind_Inr_iff list_all2_Cons1)

lemma rmap_length: "rmap f xs = Inr ys \<Longrightarrow> length ys = length xs"
  by (metis rmap_Inr_list_all2 list_all2_lengthD)

lemma rmap_memD: "rmap f xs = Inr ys \<Longrightarrow> y \<in> set ys \<Longrightarrow> \<exists>x \<in> set xs. f x = Inr y"
  by (induction xs arbitrary: ys) (auto simp: rbind_Inr_iff)

lemma rmap_all: "rmap f xs = Inr ys \<Longrightarrow> x \<in> set xs \<Longrightarrow> \<exists>y \<in> set ys. f x = Inr y"
  by (induction xs arbitrary: ys) (auto simp: rbind_Inr_iff)

lemma rmap_map: "(\<And>x. x \<in> set xs \<Longrightarrow> f (g x) = Inr (h x)) \<Longrightarrow> rmap f (map g xs) = Inr (map h xs)"
  by (induction xs) auto

section \<open>Insertion-ordered dictionaries\<close>

text \<open>
  The interface the components use of a \<open>dict\<close>: what a lookup returns after each operation, and
  that every operation keeps the keys distinct. \<open>lookup d k = None\<close> is the missing key.
\<close>

locale py_dict =
  fixes dict_ok :: "'d \<Rightarrow> bool"
    and lookup :: "'d \<Rightarrow> 'k \<Rightarrow> 'v option"
    and store :: "'k \<Rightarrow> 'v \<Rightarrow> 'd \<Rightarrow> 'd"
    and remove :: "'k \<Rightarrow> 'd \<Rightarrow> 'd"
    and size_of :: "'d \<Rightarrow> nat"
  assumes lookup_store: "lookup (store k v d) k' = (if k' = k then Some v else lookup d k')"
    and lookup_remove: "lookup (remove k d) k' = (if k' = k then None else lookup d k')"
    and ok_store: "dict_ok d \<Longrightarrow> dict_ok (store k v d)"
    and ok_remove: "dict_ok d \<Longrightarrow> dict_ok (remove k d)"
    and size_store: "dict_ok d \<Longrightarrow>
      size_of (store k v d) = (if lookup d k = None then Suc (size_of d) else size_of d)"
    and size_remove: "dict_ok d \<Longrightarrow>
      size_of (remove k d) = (if lookup d k = None then size_of d else size_of d - 1)"
begin

lemma lookup_store_same [simp]: "lookup (store k v d) k = Some v"
  by (simp add: lookup_store)

lemma lookup_store_other: "k' \<noteq> k \<Longrightarrow> lookup (store k v d) k' = lookup d k'"
  by (simp add: lookup_store)

lemma remove_store: "lookup (remove k (store k v d)) = lookup (remove k d)"
  by (rule ext) (simp add: lookup_store lookup_remove)

lemma size_store_le: "dict_ok d \<Longrightarrow> size_of (store k v d) \<le> Suc (size_of d)"
  by (simp add: size_store)

lemma size_remove_le: "dict_ok d \<Longrightarrow> size_of (remove k d) \<le> size_of d"
  by (simp add: size_remove)

lemma size_remove_present: "dict_ok d \<Longrightarrow> lookup d k = Some v \<Longrightarrow> size_of (remove k d) = size_of d - 1"
  by (simp add: size_remove)

end

type_synonym ('k, 'v) dict = "('k \<times> 'v) list"

abbreviation keys :: "('k, 'v) dict \<Rightarrow> 'k list" where
  "keys d \<equiv> map fst d"

abbreviation dict_distinct :: "('k, 'v) dict \<Rightarrow> bool" where
  "dict_distinct d \<equiv> distinct (keys d)"

text \<open>
  \<open>d[k] = v\<close> replaces in place or appends, which is \<^const>\<open>AList.update\<close>; \<open>del d[k]\<close> is
  \<^const>\<open>AList.delete\<close>; \<open>d.get(k)\<close> is \<^const>\<open>map_of\<close>.
\<close>

lemma length_alist_update:
  "length (AList.update k v d) = (if map_of d k = None then Suc (length d) else length d)"
  by (induction d) auto

lemma length_alist_delete:
  assumes "dict_distinct d"
  shows "length (AList.delete k d) = (if map_of d k = None then length d else length d - 1)"
  using assms
proof (induction d)
  case Nil
  show ?case by (simp add: AList.delete_eq)
next
  case (Cons p d)
  show ?case
  proof (cases "fst p = k")
    case True
    with Cons.prems have "k \<notin> fst ` set d" by auto
    then have "AList.delete k d = d" by simp
    with True show ?thesis by (cases p) (simp add: AList.delete_eq)
  next
    case False
    have IH: "length (AList.delete k d) = (if map_of d k = None then length d else length d - 1)"
      using Cons.prems by (intro Cons.IH) simp
    obtain a b where p: "p = (a, b)" by (cases p)
    have "map_of d k \<noteq> None \<Longrightarrow> 0 < length d" by auto
    with False p IH show ?thesis by (simp add: AList.delete_eq)
  qed
qed

interpretation alist: py_dict dict_distinct map_of AList.update AList.delete length
proof (unfold_locales, goal_cases)
  case (1 k v d k')
  show ?case by (simp add: update_conv')
next
  case (2 k d k')
  show ?case by (simp add: delete_conv')
next
  case (3 d k v)
  then show ?case by (rule distinct_update)
next
  case (4 d k)
  then show ?case by (rule distinct_delete)
next
  case (5 d k v)
  show ?case by (rule length_alist_update)
next
  case (6 d k)
  then show ?case by (rule length_alist_delete)
qed

lemma update_new: "map_of d k = None \<Longrightarrow> AList.update k v d = d @ [(k, v)]"
  by (induction d) (auto split: if_splits)

lemma delete_split:
  assumes "dict_distinct d" "map_of d k = Some v"
  obtains d1 d2 where "d = d1 @ (k, v) # d2" "AList.delete k d = d1 @ d2"
proof -
  from assms(2) have "(k, v) \<in> set d" by (rule map_of_SomeD)
  then obtain d1 d2 where d: "d = d1 @ (k, v) # d2" by (auto simp: in_set_conv_decomp)
  with assms(1) have "k \<notin> fst ` set d1" "k \<notin> fst ` set d2" by (auto simp: image_iff)
  then have "AList.delete k d1 = d1" "AList.delete k d2 = d2" by simp_all
  moreover have "AList.delete k d = AList.delete k d1 @ AList.delete k d2" by (simp add: d AList.delete_eq)
  ultimately show ?thesis using d that by metis
qed

lemma map_of_filter_fst:
  "map_of (filter (\<lambda>p. P (fst p)) d) k = (if P k then map_of d k else None)"
  by (induction d) auto

lemma map_of_filter_distinct:
  assumes "dict_distinct d"
  shows "map_of (filter Q d) k = (case map_of d k of None \<Rightarrow> None | Some v \<Rightarrow> if Q (k, v) then Some v else None)"
  using assms
proof (induction d)
  case (Cons p d)
  obtain a b where p: "p = (a, b)" by (cases p)
  show ?case
  proof (cases "k = a")
    case True
    with Cons.prems p have "map_of d k = None" by (simp add: map_of_eq_None_iff)
    moreover from this have "map_of (filter Q d) k = None"
      using Cons by simp
    ultimately show ?thesis using True p by simp
  next
    case False
    with Cons p show ?thesis by simp
  qed
qed simp

lemma distinct_filter_keys: "dict_distinct d \<Longrightarrow> dict_distinct (filter Q d)"
  by (induction d) auto

lemma distinct_sub_mset:
  assumes "mset xs \<subseteq># mset ys" "distinct (map f ys)" shows "distinct (map f xs)"
proof -
  obtain zs where "mset ys = mset (xs @ zs)"
    using assms(1) by (metis mset_append mset_subset_eq_exists_conv ex_mset)
  then have "mset (map f ys) = mset (map f (xs @ zs))" by (metis mset_map)
  with assms(2) have "distinct (map f (xs @ zs))" by (metis mset_eq_imp_distinct_iff)
  then show ?thesis by simp
qed

section \<open>Minimum by a key\<close>

text \<open>Python's \<open>min(xs, key=f)\<close>: the first element whose key is least.\<close>

fun min_by :: "('a \<Rightarrow> 'b :: linorder) \<Rightarrow> 'a list \<Rightarrow> 'a option" where
  "min_by f [] = None"
| "min_by f (x # xs) =
     (case min_by f xs of None \<Rightarrow> Some x | Some y \<Rightarrow> if f y < f x then Some y else Some x)"

lemma min_by_None_iff [simp]: "min_by f xs = None \<longleftrightarrow> xs = []"
  by (cases xs) (auto split: option.splits)

lemma min_by_mem: "min_by f xs = Some m \<Longrightarrow> m \<in> set xs"
  by (induction xs arbitrary: m) (auto split: option.splits if_splits)

lemma min_by_le: "min_by f xs = Some m \<Longrightarrow> x \<in> set xs \<Longrightarrow> f m \<le> f x"
proof (induction xs arbitrary: m x)
  case (Cons a xs)
  then show ?case
    by (cases "min_by f xs") (fastforce split: if_splits)+
qed simp

section \<open>Runs of operations\<close>

text \<open>
  A component whose operations all keep a property keeps it over every run. The client of this
  interface is whoever calls the operations in whatever order.
\<close>

locale step_invariant =
  fixes step :: "'o \<Rightarrow> 's \<Rightarrow> 's"
    and inv :: "'s \<Rightarrow> bool"
  assumes step_inv: "inv s \<Longrightarrow> inv (step a s)"
begin

lemma run_inv: "inv s \<Longrightarrow> inv (fold step as s)"
  by (induction as arbitrary: s) (auto intro: step_inv)

lemma run_inv_prefix: "inv s \<Longrightarrow> inv (fold step (take n as) s)"
  by (rule run_inv)

lemma run_inv_append: "inv (fold step as s) \<Longrightarrow> inv (fold step (as @ bs) s)"
  by (simp add: run_inv)

end

section \<open>Codecs\<close>

text \<open>
  What a reader of the wire relies on: decoding an encoded valid value gives it back, and whatever
  decodes is valid.
\<close>

locale wire_codec =
  fixes enc :: "'a \<Rightarrow> 'w"
    and dec :: "'w \<Rightarrow> 'e + 'a"
    and valid :: "'a \<Rightarrow> bool"
  assumes dec_enc: "valid x \<Longrightarrow> dec (enc x) = Inr x"
    and dec_valid: "dec w = Inr x \<Longrightarrow> valid x"
begin

lemma enc_inj: "valid x \<Longrightarrow> valid y \<Longrightarrow> enc x = enc y \<Longrightarrow> x = y"
  by (metis dec_enc sum.inject(2))

lemma dec_enc_dec: "dec w = Inr x \<Longrightarrow> dec (enc x) = Inr x"
  by (rule dec_enc) (rule dec_valid)

lemma dec_image: "(\<exists>w. dec w = Inr x) \<longleftrightarrow> valid x"
  using dec_enc dec_valid by blast

lemma stream_dec_enc: "(\<And>x. x \<in> set xs \<Longrightarrow> valid x) \<Longrightarrow> rmap dec (map enc xs) = Inr xs"
  using rmap_map [of xs dec enc "\<lambda>x. x"] dec_enc by simp

end

section \<open>Slots and queues\<close>

text \<open>
  A pool of slots as its user sees it: a load per key, which taking raises and giving back lowers.
  Whoever takes one slot for each element of a list of holders, and gives one back when a holder
  leaves, always finds the load equal to the number of its holders.
\<close>

locale slot_pool =
  fixes load :: "'s \<Rightarrow> 'k \<Rightarrow> int"
    and take_slot :: "'k \<Rightarrow> 's \<Rightarrow> 's"
    and give_slot :: "'k \<Rightarrow> 's \<Rightarrow> 's"
  assumes load_take: "load (take_slot k s) k' = load s k' + (if k' = k then 1 else 0)"
    and load_give: "load (give_slot k s) k' = (if k' = k then max 0 (load s k' - 1) else load s k')"
begin

definition held :: "'s \<Rightarrow> 'k list \<Rightarrow> bool" where
  "held s ks \<longleftrightarrow> (\<forall>k. load s k = int (count_list ks k))"

lemma held_load: "held s ks \<Longrightarrow> load s k = int (count_list ks k)"
  by (simp add: held_def)

lemma held_cong: "(\<And>k. load s' k = load s k) \<Longrightarrow> held s' ks = held s ks"
  by (simp add: held_def)

lemma held_take: "held s ks \<Longrightarrow> held (take_slot k s) (ks @ [k])"
  by (auto simp: held_def load_take)

lemma held_give: "held s (ks @ k # ls) \<Longrightarrow> held (give_slot k s) (ks @ ls)"
  by (auto simp: held_def load_give)

lemma held_pos: "held s ks \<Longrightarrow> k \<in> set ks \<Longrightarrow> 0 < load s k"
  by (auto simp: held_def count_list_0_iff intro: gr0I)

end

text \<open>
  A heap as its user sees it: popping returns an element of least key and leaves the others.
\<close>

locale priority_queue =
  fixes push :: "'a \<Rightarrow> 'q \<Rightarrow> 'q"
    and pop :: "'q \<Rightarrow> ('a \<times> 'q) option"
    and items :: "'q \<Rightarrow> 'a multiset"
    and valid :: "'q \<Rightarrow> bool"
    and key :: "'a \<Rightarrow> 'b :: linorder"
  assumes valid_push: "valid q \<Longrightarrow> valid (push x q)"
    and items_push: "items (push x q) = add_mset x (items q)"
    and pop_None: "pop q = None \<Longrightarrow> items q = {#}"
    and pop_Some: "valid q \<Longrightarrow> pop q = Some (x, q') \<Longrightarrow>
      valid q' \<and> items q = add_mset x (items q') \<and> (\<forall>y \<in># items q. key x \<le> key y)"
begin

fun drain :: "nat \<Rightarrow> 'q \<Rightarrow> 'a list" where
  "drain 0 q = []"
| "drain (Suc n) q = (case pop q of None \<Rightarrow> [] | Some (x, q') \<Rightarrow> x # drain n q')"

lemma drain_items: "valid q \<Longrightarrow> size (items q) \<le> n \<Longrightarrow> mset (drain n q) = items q"
proof (induction n arbitrary: q)
  case (Suc n)
  show ?case
  proof (cases "pop q")
    case None
    with pop_None show ?thesis by simp
  next
    case (Some p)
    obtain x q' where p: "p = (x, q')" by (cases p)
    with pop_Some Suc.prems Some have "valid q'" "items q = add_mset x (items q')" by blast+
    with Suc Some p show ?thesis by simp
  qed
qed simp

lemma drain_sorted: "valid q \<Longrightarrow> sorted (map key (drain n q))"
proof (induction n arbitrary: q)
  case (Suc n)
  show ?case
  proof (cases "pop q")
    case (Some p)
    obtain x q' where p: "p = (x, q')" by (cases p)
    with pop_Some Suc.prems Some have q': "valid q'" "items q = add_mset x (items q')"
      and le: "\<forall>y \<in># items q. key x \<le> key y" by blast+
    have "set (drain m r) \<subseteq> set_mset (items r)" if "valid r" for m r
      using that
    proof (induction m arbitrary: r)
      case (Suc m)
      show ?case
      proof (cases "pop r")
        case (Some t)
        with Suc pop_Some [OF Suc.prems, of "fst t" "snd t"] show ?thesis by (cases t) auto
      qed simp
    qed simp
    from this [OF q'(1), of n] le q' have "\<forall>y \<in> set (drain n q'). key x \<le> key y" by auto
    with Suc.IH [OF q'(1)] Some p show ?thesis by simp
  qed simp
qed simp

end

end
