(* ===== verification/PyValue.thy ===== *)
theory PyValue
  imports Prelude
begin

text \<open>
  The Python values that cross the wire: numbers as \<open>json\<close> reads them (unbounded ints, finite
  floats as exact rationals, the two infinities and NaN), decoded JSON documents, \<open>dict.get\<close> on
  them, truth values, and the \<open>isinstance\<close> tests the parsers make. A \<open>str\<close> is a HOL
  \<open>string\<close>: its characters are the code points U+0000 to U+00FF.
\<close>

section \<open>Numbers\<close>

datatype pynum = IntN int | Flt rat | Inf bool \<comment> \<open>True: +inf\<close> | NaN

text \<open>
  \<open>math.isfinite\<close> converts an int to a float first and raises \<open>OverflowError\<close> when that rounds
  past the largest double, which is from 2^1024 - 2^970 on.
\<close>

definition float_overflows :: "int \<Rightarrow> bool" where
  "float_overflows n \<longleftrightarrow> 2 ^ 1024 - 2 ^ 970 \<le> \<bar>n\<bar>"

text \<open>The exact value of a finite number.\<close>

fun finite_val :: "pynum \<Rightarrow> rat option" where
  "finite_val (IntN n) = Some (of_int n)"
| "finite_val (Flt r) = Some r"
| "finite_val (Inf b) = None"
| "finite_val NaN = None"

text \<open>\<open>x > r\<close> and \<open>r - x > s\<close> for a finite \<open>r\<close>: NaN compares false with everything.\<close>

fun num_gt :: "pynum \<Rightarrow> rat \<Rightarrow> bool" where
  "num_gt (IntN n) r = (of_int n > r)"
| "num_gt (Flt q) r = (q > r)"
| "num_gt (Inf b) r = b"
| "num_gt NaN r = False"

fun num_lt :: "pynum \<Rightarrow> rat \<Rightarrow> bool" where
  "num_lt (IntN n) r = (of_int n < r)"
| "num_lt (Flt q) r = (q < r)"
| "num_lt (Inf b) r = (\<not> b)"
| "num_lt NaN r = False"

section \<open>Decoded JSON\<close>

datatype json =
    JNull
  | JBool bool
  | JNum pynum
  | JStr string
  | JList "json list"
  | JObj "(string \<times> json) list"

abbreviation JInt :: "int \<Rightarrow> json" where "JInt n \<equiv> JNum (IntN n)"

text \<open>\<open>d.get(k)\<close>: a missing key reads as \<open>None\<close>, which is what a JSON null decodes to as well.\<close>

definition obj_get :: "(string \<times> json) list \<Rightarrow> string \<Rightarrow> json" where
  "obj_get d k = (case map_of d k of None \<Rightarrow> JNull | Some v \<Rightarrow> v)"

text \<open>\<open>d.get(k, default)\<close>: the default replaces a missing key only, not a null.\<close>

definition obj_get_or :: "(string \<times> json) list \<Rightarrow> string \<Rightarrow> json \<Rightarrow> json" where
  "obj_get_or d k v0 = (case map_of d k of None \<Rightarrow> v0 | Some v \<Rightarrow> v)"

fun truthy :: "json \<Rightarrow> bool" where
  "truthy JNull = False"
| "truthy (JBool b) = b"
| "truthy (JNum (IntN n)) = (n \<noteq> 0)"
| "truthy (JNum (Flt r)) = (r \<noteq> 0)"
| "truthy (JNum (Inf b)) = True"
| "truthy (JNum NaN) = True"
| "truthy (JStr s) = (s \<noteq> [])"
| "truthy (JList xs) = (xs \<noteq> [])"
| "truthy (JObj d) = (d \<noteq> [])"

text \<open>
  \<open>isinstance\<close>: Python's \<open>bool\<close> is a subclass of \<open>int\<close>, so every number test of the source
  excludes it by hand; the projections below are the tests with that exclusion.
\<close>

fun as_str :: "json \<Rightarrow> string option" where
  "as_str (JStr s) = Some s"
| "as_str _ = None"

fun as_int :: "json \<Rightarrow> int option" where
  "as_int (JNum (IntN n)) = Some n"
| "as_int _ = None"

fun as_num :: "json \<Rightarrow> pynum option" where
  "as_num (JNum x) = Some x"
| "as_num _ = None"

fun as_bool :: "json \<Rightarrow> bool option" where
  "as_bool (JBool b) = Some b"
| "as_bool _ = None"

fun as_list :: "json \<Rightarrow> json list option" where
  "as_list (JList xs) = Some xs"
| "as_list _ = None"

fun as_obj :: "json \<Rightarrow> (string \<times> json) list option" where
  "as_obj (JObj d) = Some d"
| "as_obj _ = None"

lemma as_str_iff [simp]: "as_str v = Some s \<longleftrightarrow> v = JStr s"
  by (cases v) auto

lemma as_int_iff [simp]: "as_int v = Some n \<longleftrightarrow> v = JInt n"
  by (cases v rule: as_int.cases) auto

lemma as_num_iff [simp]: "as_num v = Some x \<longleftrightarrow> v = JNum x"
  by (cases v) auto

lemma as_bool_iff [simp]: "as_bool v = Some b \<longleftrightarrow> v = JBool b"
  by (cases v) auto

lemma as_list_iff [simp]: "as_list v = Some xs \<longleftrightarrow> v = JList xs"
  by (cases v) auto

lemma as_obj_iff [simp]: "as_obj v = Some d \<longleftrightarrow> v = JObj d"
  by (cases v) auto

lemma obj_get_Cons [simp]: "obj_get ((k', v) # d) k = (if k = k' then v else obj_get d k)"
  by (simp add: obj_get_def)

lemma obj_get_Nil [simp]: "obj_get [] k = JNull"
  by (simp add: obj_get_def)

lemma obj_get_or_Cons [simp]:
  "obj_get_or ((k', v) # d) k v0 = (if k = k' then v else obj_get_or d k v0)"
  by (simp add: obj_get_or_def)

lemma obj_get_or_Nil [simp]: "obj_get_or [] k v0 = v0"
  by (simp add: obj_get_or_def)

text \<open>
  What \<open>list(v)\<close> and a \<open>for\<close> loop see of a value: the elements of a list, the characters of a
  string, the keys of an object; anything else is not iterable and raises \<open>TypeError\<close>.
\<close>

fun iterate :: "json \<Rightarrow> json list option" where
  "iterate (JList xs) = Some xs"
| "iterate (JStr s) = Some (map (\<lambda>c. JStr [c]) s)"
| "iterate (JObj d) = Some (map (\<lambda>p. JStr (fst p)) d)"
| "iterate _ = None"

end
