(* ===== verification/Replay.thy ===== *)
theory Replay
  imports PyValue
begin

text \<open>
  \<open>replay.py\<close>: the freshness window and the cache of seen values both planes share. The clock is an
  argument of every operation. The interface \<open>seen_set\<close> is what the signed-request check and the
  peer rely on: an accepted value is refused until its entry expires, through a bounded number of
  further additions. It is interpreted on the cache, and \<open>admit\<close> (freshness, then the cache) is
  shown to let no message through twice.
\<close>

datatype replay_error = NotFinite | InFuture | Stale | Replayed
  | FloatOverflow \<comment> \<open>\<open>math.isfinite\<close> of a huge int: OverflowError\<close>
  | MinOfEmpty \<comment> \<open>\<open>min\<close> of an empty cache: ValueError\<close>

definition DEFAULT_MAX_AGE :: rat where "DEFAULT_MAX_AGE = 120"
definition CLOCK_SKEW_GRACE :: rat where "CLOCK_SKEW_GRACE = 30"
definition DEFAULT_MAX_ENTRIES :: nat where "DEFAULT_MAX_ENTRIES = 100000"

definition isfinite :: "pynum \<Rightarrow> replay_error + bool" where
  "isfinite x = (case x of
       IntN n \<Rightarrow> if float_overflows n then Inl FloatOverflow else Inr True
     | Flt r \<Rightarrow> Inr True
     | Inf b \<Rightarrow> Inr False
     | NaN \<Rightarrow> Inr False)"

definition check_fresh :: "pynum \<Rightarrow> rat \<Rightarrow> rat \<Rightarrow> replay_error + unit" where
  "check_fresh ts now max_age =
     rbind (isfinite ts) (\<lambda>fin.
       if \<not> fin then Inl NotFinite
       else if num_gt ts (now + CLOCK_SKEW_GRACE) then Inl InFuture
       else if num_lt ts (now - max_age) then Inl Stale
       else Inr ())"

record nonce_cache =
  ttl :: rat
  max_entries :: nat
  seen :: "(string, rat) dict"

definition new_cache :: nonce_cache where
  "new_cache = \<lparr>ttl = DEFAULT_MAX_AGE * 2, max_entries = DEFAULT_MAX_ENTRIES, seen = []\<rparr>"

definition prune :: "rat \<Rightarrow> nonce_cache \<Rightarrow> nonce_cache" where
  "prune now c =
     (let expired = map fst (filter (\<lambda>p. snd p \<le> now) (seen c))
      in c\<lparr>seen := fold AList.delete expired (seen c)\<rparr>)"

text \<open>
  The pruning stays when the value turns out to be a replay, so the operation returns its outcome
  beside the new cache.
\<close>

definition check_and_add :: "rat \<Rightarrow> string \<Rightarrow> nonce_cache \<Rightarrow> (replay_error + unit) \<times> nonce_cache" where
  "check_and_add now v c =
     (let c = (if seen c \<noteq> [] then prune now c else c) in
      if map_of (seen c) v \<noteq> None then (Inl Replayed, c)
      else if max_entries c \<le> length (seen c) then
        (case min_by snd (seen c) of
           None \<Rightarrow> (Inl MinOfEmpty, c)
         | Some oldest \<Rightarrow>
             (Inr (), c\<lparr>seen := AList.update v (now + ttl c) (AList.delete (fst oldest) (seen c))\<rparr>))
      else (Inr (), c\<lparr>seen := AList.update v (now + ttl c) (seen c)\<rparr>))"

text \<open>The two checks in the order both recipients make them: freshness, then the seen-set.\<close>

definition admit :: "rat \<Rightarrow> pynum \<Rightarrow> string \<Rightarrow> nonce_cache \<Rightarrow> (replay_error + unit) \<times> nonce_cache" where
  "admit now ts v c =
     (case check_fresh ts now DEFAULT_MAX_AGE of
        Inl e \<Rightarrow> (Inl e, c)
      | Inr u \<Rightarrow> check_and_add now v c)"

section \<open>Freshness\<close>

lemma check_fresh_iff:
  "check_fresh ts now max_age = Inr () \<longleftrightarrow>
     (\<exists>t. finite_val ts = Some t \<and> (\<forall>n. ts = IntN n \<longrightarrow> \<not> float_overflows n)
        \<and> t \<le> now + CLOCK_SKEW_GRACE \<and> now - t \<le> max_age)"
  by (cases ts) (auto simp: check_fresh_def isfinite_def not_less)

lemma check_fresh_window:
  "check_fresh ts now max_age = Inr () \<Longrightarrow> finite_val ts = Some t \<Longrightarrow> now - max_age \<le> t \<and> t \<le> now + CLOCK_SKEW_GRACE"
  by (auto simp: check_fresh_iff)

lemma check_fresh_NaN: "check_fresh NaN now max_age = Inl NotFinite"
  by (simp add: check_fresh_def isfinite_def)

section \<open>The interface of a seen-set\<close>

locale seen_set =
  fixes ok :: "rat \<Rightarrow> 'c \<Rightarrow> bool"
    and add :: "rat \<Rightarrow> 'v \<Rightarrow> 'c \<Rightarrow> ('e + unit) \<times> 'c"
    and keeps :: "'c \<Rightarrow> 'v \<Rightarrow> rat \<Rightarrow> nat \<Rightarrow> bool"
    and life :: "'c \<Rightarrow> rat"
    and room :: "'c \<Rightarrow> nat"
  assumes ok_add: "ok t c \<Longrightarrow> t \<le> s \<Longrightarrow> ok s (snd (add s v c))"
    and ok_later: "ok t c \<Longrightarrow> t \<le> s \<Longrightarrow> ok s c"
    and keeps_refuses: "ok t c \<Longrightarrow> t \<le> s \<Longrightarrow> keeps c v e n \<Longrightarrow> s < e \<Longrightarrow> \<exists>err. fst (add s v c) = Inl err"
    and accepted_kept: "ok t c \<Longrightarrow> t \<le> s \<Longrightarrow> fst (add s v c) = Inr () \<Longrightarrow> keeps (snd (add s v c)) v (s + life c) (room c)"
    and add_keeps: "ok t c \<Longrightarrow> t \<le> s \<Longrightarrow> s < e \<Longrightarrow> keeps c v e (Suc n) \<Longrightarrow> keeps (snd (add s w c)) v e n"
begin

definition run :: "(rat \<times> 'v) list \<Rightarrow> 'c \<Rightarrow> 'c" where
  "run ops c = fold (\<lambda>p c. snd (add (fst p) (snd p) c)) ops c"

lemma run_simps [simp]: "run [] c = c" "run (p # ops) c = run ops (snd (add (fst p) (snd p) c))"
  by (simp_all add: run_def)

lemma run_keeps:
  "ok t c \<Longrightarrow> sorted (t # map fst ops) \<Longrightarrow> (\<forall>p \<in> set ops. fst p \<le> s) \<Longrightarrow> t \<le> s \<Longrightarrow> s < e \<Longrightarrow>
     keeps c v e n \<Longrightarrow> length ops \<le> n \<Longrightarrow> ok s (run ops c) \<and> keeps (run ops c) v e (n - length ops)"
proof (induction ops arbitrary: t c n)
  case Nil
  then show ?case by (auto intro: ok_later)
next
  case (Cons p ops)
  from Cons.prems(7) obtain m where n: "n = Suc m" by (cases n) auto
  let ?c = "snd (add (fst p) (snd p) c)"
  have "ok s (run ops ?c) \<and> keeps (run ops ?c) v e (m - length ops)"
  proof (rule Cons.IH [of "fst p"])
    show "ok (fst p) ?c" using Cons.prems by (intro ok_add) auto
    show "keeps ?c v e m" using Cons.prems n by (intro add_keeps [of t]) auto
  qed (use Cons.prems n in auto)
  then show ?case by (simp add: n)
qed

text \<open>An accepted value is refused as long as its entry lives, whatever was added in between.\<close>

lemma refused_again:
  assumes "ok t c" "t \<le> s" "fst (add s v c) = Inr ()"
    and "sorted (s # map fst ops)" "\<forall>p \<in> set ops. fst p \<le> s'" "s \<le> s'" "s' < s + life c" "length ops \<le> room c"
  shows "\<exists>err. fst (add s' v (run ops (snd (add s v c)))) = Inl err"
proof -
  let ?c = "snd (add s v c)"
  have "ok s ?c" "keeps ?c v (s + life c) (room c)"
    using assms(1-3) by (auto intro: ok_add accepted_kept)
  with run_keeps [of s ?c ops s' "s + life c" v "room c"] assms(4-)
  have "ok s' (run ops ?c)" "keeps (run ops ?c) v (s + life c) (room c - length ops)" by auto
  then show ?thesis using assms(7) keeps_refuses [of s' _ s'] by blast
qed

end

section \<open>The cache on a forward clock\<close>

text \<open>
  While the clock does not go back, entries sit in the order they expire, so the oldest is the
  first and expired entries are a prefix.
\<close>

definition cache_ok :: "rat \<Rightarrow> nonce_cache \<Rightarrow> bool" where
  "cache_ok t c \<longleftrightarrow> dict_distinct (seen c) \<and> sorted (map snd (seen c)) \<and> (\<forall>p \<in> set (seen c). snd p \<le> t + ttl c)
     \<and> length (seen c) \<le> max_entries c \<and> 0 < max_entries c"

lemma fold_delete_filter:
  "fold AList.delete ks d = filter (\<lambda>p. fst p \<notin> set ks) d"
proof (induction ks arbitrary: d)
  case (Cons k ks)
  have "AList.delete k d = filter (\<lambda>p. fst p \<noteq> k) d" by (induction d) (auto simp: AList.delete_eq)
  with Cons show ?case by (auto intro: filter_cong)
qed simp

lemma seen_prune: "dict_distinct (seen c) \<Longrightarrow> seen (prune now c) = filter (\<lambda>p. now < snd p) (seen c)"
proof -
  assume d: "dict_distinct (seen c)"
  have "fst p \<notin> set (map fst (filter (\<lambda>p. snd p \<le> now) (seen c))) \<longleftrightarrow> now < snd p"
    if "p \<in> set (seen c)" for p
  proof -
    have "snd q = snd p" if "q \<in> set (seen c)" "fst q = fst p" for q
      using that \<open>p \<in> set (seen c)\<close> d by (auto simp: distinct_map dest: inj_onD)
    with that show ?thesis by (force simp: not_le)
  qed
  then have "filter (\<lambda>p. fst p \<notin> set (map fst (filter (\<lambda>p. snd p \<le> now) (seen c)))) (seen c)
      = filter (\<lambda>p. now < snd p) (seen c)"
    by (intro filter_cong refl)
  then show ?thesis by (simp add: prune_def fold_delete_filter)
qed

text \<open>What a value was before it is accepted, and what it is afterwards.\<close>

lemma check_and_add_new:
  assumes "dict_distinct (seen c)" "check_and_add now v c = (Inr u, c')"
  shows "(\<forall>expiry. map_of (seen c) v = Some expiry \<longrightarrow> expiry \<le> now) \<and> map_of (seen c') v = Some (now + ttl c)"
proof -
  define p where "p = (if seen c \<noteq> [] then prune now c else c)"
  have p: "ttl p = ttl c" "seen p = filter (\<lambda>q. now < snd q) (seen c)"
    using seen_prune [OF assms(1), of now] by (auto simp: p_def prune_def)
  from assms(2) have new: "map_of (seen p) v = None" "map_of (seen c') v = Some (now + ttl p)"
    by (auto simp: check_and_add_def Let_def alist.lookup_store p_def [symmetric] split: if_splits option.splits)
  have "expiry \<le> now" if "map_of (seen c) v = Some expiry" for expiry
  proof (rule ccontr)
    assume "\<not> expiry \<le> now"
    then have "(v, expiry) \<in> set (seen p)" using map_of_SomeD [OF that] by (simp add: p(2))
    with new(1) show False by (force simp: map_of_eq_None_iff)
  qed
  with new(2) p(1) show ?thesis by simp
qed

lemma prune_frame [simp]: "ttl (prune now c) = ttl c" "max_entries (prune now c) = max_entries c"
  by (simp_all add: prune_def)

lemma delete_hd: "dict_distinct (p # d) \<Longrightarrow> AList.delete (fst p) (p # d) = d"
  by (cases p) (simp add: AList.delete_eq, metis AList.delete_eq delete_id image_eqI)

lemma min_by_sorted: "sorted (map f (x # xs)) \<Longrightarrow> min_by f (x # xs) = Some x"
proof -
  assume "sorted (map f (x # xs))"
  then have "\<not> f y < f x" if "min_by f xs = Some y" for y
    using min_by_mem [OF that] by (auto simp: not_less)
  then show ?thesis by (auto split: option.splits)
qed

text \<open>What the operation does to such a cache, branch by branch.\<close>

definition live :: "rat \<Rightarrow> nonce_cache \<Rightarrow> (string, rat) dict" where
  "live now c = filter (\<lambda>p. now < snd p) (seen c)"

lemma check_and_add_cases:
  assumes "cache_ok t c"
  shows "check_and_add now v c =
    (if v \<in> fst ` set (live now c) then (Inl Replayed, c\<lparr>seen := live now c\<rparr>)
     else (Inr (), c\<lparr>seen := (if length (live now c) = max_entries c then tl (live now c) else live now c)
        @ [(v, now + ttl c)]\<rparr>))"
proof -
  let ?c = "if seen c \<noteq> [] then prune now c else c"
  have c: "?c = c\<lparr>seen := live now c\<rparr>"
    using assms seen_prune [of c now] by (auto simp: cache_ok_def live_def prune_def)
  have le: "length (live now c) \<le> max_entries c"
    using assms le_trans [OF length_filter_le] unfolding live_def cache_ok_def by blast
  have d: "dict_distinct (live now c)" and s: "sorted (map snd (live now c))"
    using assms by (auto simp: cache_ok_def live_def distinct_filter_keys sorted_filter)
  show ?thesis
  proof (cases "v \<in> fst ` set (live now c)")
    case True
    then show ?thesis
      unfolding check_and_add_def c Let_def by (auto simp: map_of_eq_None_iff)
  next
    case False
    then have new: "map_of (live now c) v = None" by (simp add: map_of_eq_None_iff)
    show ?thesis
    proof (cases "length (live now c) = max_entries c")
      case True
      then obtain p ps where ps: "live now c = p # ps"
        using assms by (cases "live now c") (auto simp: cache_ok_def)
      have min: "min_by snd (live now c) = Some p" using s ps by (metis min_by_sorted)
      have del: "AList.delete (fst p) (live now c) = ps" using d ps by (metis delete_hd)
      have "map_of ps v = None" using new ps by (cases p) (simp split: if_splits)
      then have "AList.update v (now + ttl c) ps = ps @ [(v, now + ttl c)]" by (rule update_new)
      with True False new min del ps show ?thesis
        unfolding check_and_add_def c Let_def by simp
    next
      case neq: False
      with le have "\<not> max_entries c \<le> length (live now c)" by simp
      with False new neq show ?thesis
        unfolding check_and_add_def c Let_def by (simp add: update_new)
    qed
  qed
qed

definition keeps_entry :: "nonce_cache \<Rightarrow> string \<Rightarrow> rat \<Rightarrow> nat \<Rightarrow> bool" where
  "keeps_entry c v e n \<longleftrightarrow> (\<exists>a b. seen c = a @ (v, e) # b \<and> length b + n < max_entries c)"

definition room_of :: "nonce_cache \<Rightarrow> nat" where
  "room_of c = max_entries c - 1"

lemma live_ok: "cache_ok t c \<Longrightarrow> cache_ok t (c\<lparr>seen := live now c\<rparr>)"
proof -
  assume c: "cache_ok t c"
  then have "length (live now c) \<le> max_entries c"
    using le_trans [OF length_filter_le] unfolding live_def cache_ok_def by blast
  with c show ?thesis
    by (auto simp: cache_ok_def live_def distinct_filter_keys sorted_filter)
qed

lemma cache_ok_later: "cache_ok t c \<Longrightarrow> t \<le> s \<Longrightarrow> cache_ok s c"
  by (force simp: cache_ok_def)

lemma cache_ok_tl:
  assumes "cache_ok t c" "t \<le> now" "v \<notin> fst ` set (seen c)"
  shows "cache_ok now (c\<lparr>seen := (if length (seen c) = max_entries c then tl (seen c) else seen c) @ [(v, now + ttl c)]\<rparr>)"
proof -
  let ?d = "if length (seen c) = max_entries c then tl (seen c) else seen c"
  have sub: "set ?d \<subseteq> set (seen c)" by (auto dest: list.set_sel(2) split: if_splits) (metis list.sel(2) list.set_sel(2))
  have "dict_distinct ?d" "sorted (map snd ?d)"
    using assms(1) by (auto simp: cache_ok_def map_tl distinct_tl sorted_tl)
  moreover have "\<forall>p \<in> set ?d. snd p \<le> now + ttl c"
    using assms(1,2) sub by (force simp: cache_ok_def)
  moreover have "length ?d < max_entries c"
    using assms(1) by (auto simp: cache_ok_def)
  moreover have "v \<notin> fst ` set ?d" using assms(3) sub by blast
  ultimately show ?thesis using assms(1)
    by (auto simp: cache_ok_def sorted_append simp del: if_split)
qed

lemma cache_ok_add:
  assumes "cache_ok t c" "t \<le> now"
  shows "cache_ok now (snd (check_and_add now v c))"
proof -
  let ?l = "c\<lparr>seen := live now c\<rparr>"
  have l: "cache_ok t ?l" using assms(1) by (rule live_ok)
  show ?thesis
    using cache_ok_tl [OF l assms(2), of v] cache_ok_later [OF l assms(2)]
    by (auto simp: check_and_add_cases [OF assms(1)])
qed

lemma check_and_add_frame [simp]:
  "ttl (snd (check_and_add now v c)) = ttl c" "max_entries (snd (check_and_add now v c)) = max_entries c"
  by (auto simp: check_and_add_def Let_def split: option.splits)

lemma keeps_entryI: "seen c = a @ (v, e) # b \<Longrightarrow> length b + n < max_entries c \<Longrightarrow> keeps_entry c v e n"
  by (auto simp: keeps_entry_def)

lemma live_keeps:
  assumes "keeps_entry c v e n" "now < e"
  shows "keeps_entry (c\<lparr>seen := live now c\<rparr>) v e n"
proof -
  obtain a b where ab: "seen c = a @ (v, e) # b" "length b + n < max_entries c"
    using assms(1) by (auto simp: keeps_entry_def)
  let ?f = "filter (\<lambda>p. now < snd p)"
  have "live now c = ?f a @ (v, e) # ?f b" using ab(1) assms(2) by (simp add: live_def)
  moreover have "length (?f b) + n < max_entries c"
    using ab(2) length_filter_le [of "\<lambda>p. now < snd p" b] by linarith
  ultimately show ?thesis by (intro keeps_entryI) auto
qed

lemma keeps_entry_mono: "keeps_entry c v e n \<Longrightarrow> m \<le> n \<Longrightarrow> keeps_entry c v e m"
  by (force simp: keeps_entry_def)

lemma push_keeps:
  assumes "keeps_entry c v e (Suc n)"
  shows "keeps_entry (c\<lparr>seen := (if length (seen c) = max_entries c then tl (seen c) else seen c) @ [p]\<rparr>) v e n"
proof -
  obtain a b where ab: "seen c = a @ (v, e) # b" "length b + Suc n < max_entries c"
    using assms by (auto simp: keeps_entry_def)
  have "\<exists>a'. (if length (seen c) = max_entries c then tl (seen c) else seen c) = a' @ (v, e) # b"
    using ab by (cases a) auto
  then obtain a' where "(if length (seen c) = max_entries c then tl (seen c) else seen c) = a' @ (v, e) # b" ..
  then show ?thesis using ab(2) by (intro keeps_entryI [of _ a' _ _ "b @ [p]"]) simp_all
qed

interpretation cache: seen_set cache_ok check_and_add keeps_entry ttl room_of
proof (unfold_locales, goal_cases)
  case (1 t c s v)
  then show ?case by (rule cache_ok_add)
next
  case (2 t c s)
  then show ?case by (rule cache_ok_later)
next
  case (3 t c s v e n)
  then have "keeps_entry (c\<lparr>seen := live s c\<rparr>) v e n" by (intro live_keeps)
  then have "v \<in> fst ` set (live s c)" by (force simp: keeps_entry_def)
  with 3 show ?case by (simp add: check_and_add_cases)
next
  case (4 t c s v)
  then have "0 < max_entries c" by (simp add: cache_ok_def)
  with 4 show ?case
    by (intro keeps_entryI [where b = "[]" and a = "if length (live s c) = max_entries c then tl (live s c) else live s c"])
       (auto simp: check_and_add_cases room_of_def split: if_splits)
next
  case (5 t c s e v n w)
  then have k: "keeps_entry (c\<lparr>seen := live s c\<rparr>) v e (Suc n)" by (intro live_keeps)
  then show ?case
    using push_keeps [OF k, of "(w, s + ttl c)"] keeps_entry_mono [OF k, of n] 5
    by (auto simp: check_and_add_cases)
qed

lemma new_cache_ok: "cache_ok t new_cache"
  by (simp add: cache_ok_def new_cache_def DEFAULT_MAX_ENTRIES_def)

section \<open>No message is admitted twice\<close>

definition admit_all :: "(rat \<times> pynum \<times> string) list \<Rightarrow> nonce_cache \<Rightarrow> nonce_cache" where
  "admit_all ms c = fold (\<lambda>(now, ts, v) c. snd (admit now ts v c)) ms c"

text \<open>The part of a run that reaches the cache.\<close>

definition reaches :: "(rat \<times> pynum \<times> string) list \<Rightarrow> (rat \<times> string) list" where
  "reaches ms = map (\<lambda>(now, ts, v). (now, v)) (filter (\<lambda>(now, ts, v). check_fresh ts now DEFAULT_MAX_AGE = Inr ()) ms)"

lemma admit_all_run: "admit_all ms c = cache.run (reaches ms) c"
proof (induction ms arbitrary: c)
  case (Cons m ms)
  obtain now ts v where m: "m = (now, ts, v)" by (cases m)
  have "snd (admit now ts v c) = (if check_fresh ts now DEFAULT_MAX_AGE = Inr () then snd (check_and_add now v c) else c)"
    by (cases "check_fresh ts now DEFAULT_MAX_AGE") (auto simp: admit_def)
  with Cons m show ?case by (simp add: admit_all_def reaches_def)
qed (simp add: admit_all_def reaches_def)

lemma reaches_sorted: "sorted (map fst ms) \<Longrightarrow> sorted (map fst (reaches ms))"
  by (induction ms) (auto simp: reaches_def)

lemma check_and_add_refuses: "0 < max_entries c \<Longrightarrow> fst (check_and_add now v c) = Inl e \<Longrightarrow> e = Replayed"
  by (auto simp: check_and_add_def Let_def split: option.splits if_splits)

lemma run_max_entries [simp]: "max_entries (cache.run ops c) = max_entries c"
  by (induction ops arbitrary: c) simp_all

lemma fresh_then_stale:
  "check_fresh ts s DEFAULT_MAX_AGE = Inr () \<Longrightarrow> s \<le> s' \<Longrightarrow> check_fresh ts s' DEFAULT_MAX_AGE = Inl e \<Longrightarrow> e = Stale"
  by (cases ts) (auto simp: check_fresh_def isfinite_def not_less split: if_splits)

text \<open>
  No message is admitted twice: after a signed request or a sealed envelope was admitted, it is refused
  for good, as stale or as a replay, whatever else was admitted in between, as long as fewer messages than the
  cache holds came since and the cache keeps an entry longer than a message stays fresh.
\<close>
theorem admit_once:
  assumes c: "cache_ok t c" "t \<le> s" and long: "DEFAULT_MAX_AGE + CLOCK_SKEW_GRACE < ttl c"
    and first: "fst (admit s ts v c) = Inr ()"
    and run: "sorted (s # map fst ms)" "\<forall>m \<in> set ms. fst m \<le> s'" "s \<le> s'" "length ms < max_entries c"
  shows "\<exists>err \<in> {Stale, Replayed}. fst (admit s' ts v (admit_all ms (snd (admit s ts v c)))) = Inl err"
proof -
  from first have fresh: "check_fresh ts s DEFAULT_MAX_AGE = Inr ()" and acc: "fst (check_and_add s v c) = Inr ()"
    by (auto simp: admit_def split: sum.splits)
  show ?thesis
  proof (cases "check_fresh ts s' DEFAULT_MAX_AGE")
    case (Inl e)
    with fresh_then_stale [OF fresh run(3)] show ?thesis by (simp add: admit_def)
  next
    case (Inr u)
    from fresh obtain x where x: "finite_val ts = Some x" "x \<le> s + CLOCK_SKEW_GRACE" by (auto simp: check_fresh_iff)
    with Inr have "s' - x \<le> DEFAULT_MAX_AGE" by (auto simp: check_fresh_iff)
    then have near: "s' < s + ttl c" using x(2) long by linarith
    let ?c = "cache.run (reaches ms) (snd (check_and_add s v c))"
    have "\<exists>err. fst (check_and_add s' v ?c) = Inl err"
      using c acc
    proof (rule cache.refused_again)
      show "length (reaches ms) \<le> room_of c"
        unfolding reaches_def room_of_def length_map by (rule le_trans [OF length_filter_le]) (use run(4) in simp)
      show "sorted (s # map fst (reaches ms))" "\<forall>p \<in> set (reaches ms). fst p \<le> s'"
        using run reaches_sorted [of ms] by (auto simp: reaches_def)
    qed (use run near in auto)
    moreover have "0 < max_entries ?c" using c by (simp add: cache_ok_def)
    ultimately have "fst (check_and_add s' v ?c) = Inl Replayed" using check_and_add_refuses by blast
    with Inr fresh show ?thesis by (simp add: admit_def admit_all_run)
  qed
qed

definition small_cache :: nonce_cache where
  "small_cache = \<lparr>ttl = 240, max_entries = 2, seen = []\<rparr>"

theorem admit_once_witness:
  "\<exists>err \<in> {Stale, Replayed}. fst (admit 1100 (IntN 1000) ''a'' (admit_all [(1050, IntN 1050, ''b'')] (snd (admit 1000 (IntN 1000) ''a'' small_cache)))) = Inl err"
proof (rule admit_once [of 1000])
  show "cache_ok 1000 small_cache" by (simp add: cache_ok_def small_cache_def)
  show "DEFAULT_MAX_AGE + CLOCK_SKEW_GRACE < ttl small_cache"
    by (simp add: small_cache_def DEFAULT_MAX_AGE_def CLOCK_SKEW_GRACE_def)
  show "fst (admit 1000 (IntN 1000) ''a'' small_cache) = Inr ()" by code_simp
qed (simp_all add: small_cache_def)

end
