(* ===== verification/Canonical.thy ===== *)
theory Canonical
  imports PyValue "HOL-Library.Word"
begin

text \<open>
  \<open>proto/canonical.py\<close>: the bytes that get signed, and strict base64. \<open>dumps\<close> is \<open>json.dumps\<close>
  with the options \<open>canonical\<close> passes (sorted keys, compact separators, \<open>ensure_ascii=False\<close>);
  \<open>float.__repr__\<close> is the parameter \<open>frepr\<close>. \<open>a2b\<close> is CPython's strict base64 decoder as the
  state machine it is. The lemmas show that base64 decodes what it encoded and that the
  canonical bytes determine the document up to the order of its keys.
\<close>

type_synonym bytes = "8 word list"

section \<open>Text of a JSON document\<close>

definition digit :: "nat \<Rightarrow> char" where
  "digit n = char_of (48 + n)"

fun show_nat :: "nat \<Rightarrow> string" where
  "show_nat n = (if n < 10 then [digit n] else show_nat (n div 10) @ [digit (n mod 10)])"

declare show_nat.simps [simp del]

definition show_int :: "int \<Rightarrow> string" where
  "show_int n = (if n < 0 then CHR ''-'' # show_nat (nat (- n)) else show_nat (nat n))"

definition hex_digit :: "nat \<Rightarrow> char" where
  "hex_digit n = (if n < 10 then digit n else char_of (87 + n))"

definition esc_char :: "char \<Rightarrow> string" where
  "esc_char c =
     (if c = CHR 0x22 then [CHR 0x5C, CHR 0x22]
      else if c = CHR 0x5C then [CHR 0x5C, CHR 0x5C]
      else if c = CHR 0x0A then [CHR 0x5C, CHR ''n'']
      else if c = CHR 0x0D then [CHR 0x5C, CHR ''r'']
      else if c = CHR 0x09 then [CHR 0x5C, CHR ''t'']
      else if c = CHR 0x0C then [CHR 0x5C, CHR ''f'']
      else if c = CHR 0x08 then [CHR 0x5C, CHR ''b'']
      else if of_char c < (32 :: nat) then
        [CHR 0x5C, CHR ''u'', CHR ''0'', CHR ''0'', hex_digit (of_char c div 16), hex_digit (of_char c mod 16)]
      else [c])"

definition quote :: "string \<Rightarrow> string" where
  "quote s = CHR 0x22 # concat (map esc_char s) @ [CHR 0x22]"

fun commas :: "string list \<Rightarrow> string" where
  "commas [] = []"
| "commas [x] = x"
| "commas (x # y # ys) = x @ CHR '','' # commas (y # ys)"

fun dumps :: "(rat \<Rightarrow> string) \<Rightarrow> json \<Rightarrow> string" where
  "dumps frepr JNull = ''null''"
| "dumps frepr (JBool b) = (if b then ''true'' else ''false'')"
| "dumps frepr (JNum (IntN n)) = show_int n"
| "dumps frepr (JNum (Flt r)) = frepr r"
| "dumps frepr (JNum (Inf b)) = (if b then ''Infinity'' else ''-Infinity'')"
| "dumps frepr (JNum NaN) = ''NaN''"
| "dumps frepr (JStr s) = quote s"
| "dumps frepr (JList xs) = CHR ''['' # commas (map (dumps frepr) xs) @ '']''"
| "dumps frepr (JObj d) =
     CHR ''{'' # commas (map (\<lambda>p. quote (fst p) @ CHR '':'' # snd p)
       (sort_key fst (map (\<lambda>p. (fst p, dumps frepr (snd p))) d))) @ ''}''"

text \<open>\<open>allow_nan=False\<close> refuses a document that holds an infinity or a NaN anywhere.\<close>

fun json_finite :: "json \<Rightarrow> bool" where
  "json_finite (JNum (Inf b)) = False"
| "json_finite (JNum NaN) = False"
| "json_finite (JList xs) = (\<forall>x \<in> set xs. json_finite x)"
| "json_finite (JObj d) = (\<forall>p \<in> set d. json_finite (snd p))"
| "json_finite _ = True"

text \<open>UTF-8 of the code points a \<open>char\<close> stands for.\<close>

definition utf8_char :: "char \<Rightarrow> bytes" where
  "utf8_char c = (let n = of_char c :: nat in
     if n < 128 then [of_nat n] else [of_nat (192 + n div 64), of_nat (128 + n mod 64)])"

definition utf8 :: "string \<Rightarrow> bytes" where
  "utf8 s = concat (map utf8_char s)"

datatype value_error = NonFiniteJson | NonAscii | LeadingPadding | ExcessData | NotBase64
  | DiscontinuousPadding | OneDataChar | IncorrectPadding
  | BadFloat
  | JsonDecode \<comment> \<open>\<open>json.JSONDecodeError\<close>\<close>
  | IntDigits \<comment> \<open>an int of more than 4300 digits\<close>
  | EmptyMin \<comment> \<open>\<open>min\<close> of nothing\<close>

definition canonical :: "(rat \<Rightarrow> string) \<Rightarrow> json \<Rightarrow> value_error + bytes" where
  "canonical frepr obj = (if json_finite obj then Inr (utf8 (dumps frepr obj)) else Inl NonFiniteJson)"

section \<open>Base64\<close>

definition b64_char :: "nat \<Rightarrow> char" where
  "b64_char n = (if n < 26 then char_of (65 + n) else if n < 52 then char_of (71 + n)
     else if n < 62 then char_of (n - 4) else if n = 62 then CHR ''+'' else CHR ''/'')"

definition b64_val :: "char \<Rightarrow> nat option" where
  "b64_val c = (let n = of_char c :: nat in
     if 65 \<le> n \<and> n \<le> 90 then Some (n - 65) else if 97 \<le> n \<and> n \<le> 122 then Some (n - 71)
     else if 48 \<le> n \<and> n \<le> 57 then Some (n + 4) else if n = 43 then Some 62
     else if n = 47 then Some 63 else None)"

fun b64 :: "bytes \<Rightarrow> string" where
  "b64 [] = []"
| "b64 [a] = [b64_char (unat a div 4), b64_char (unat a mod 4 * 16), CHR ''='', CHR ''='']"
| "b64 [a, b] = [b64_char (unat a div 4), b64_char (unat a mod 4 * 16 + unat b div 16),
     b64_char (unat b mod 16 * 4), CHR ''='']"
| "b64 (a # b # c # rest) = b64_char (unat a div 4) # b64_char (unat a mod 4 * 16 + unat b div 16) #
     b64_char (unat b mod 16 * 4 + unat c div 64) # b64_char (unat c mod 64) # b64 rest"

text \<open>
  \<open>binascii.a2b_base64\<close> with \<open>strict_mode\<close>: position in the quad, bits left over from the last
  character, pad characters seen in this quad, whether padding has started.
\<close>

fun a2b :: "nat \<Rightarrow> nat \<Rightarrow> nat \<Rightarrow> bool \<Rightarrow> string \<Rightarrow> value_error + bytes" where
  "a2b q left pads padded [] =
     (if q = 0 then Inr [] else if q = 1 then Inl OneDataChar else Inl IncorrectPadding)"
| "a2b q left pads padded (c # cs) =
     (if c = CHR ''='' then
        (if 2 \<le> q then
           (if 4 \<le> q + Suc pads then (if cs \<noteq> [] then Inl ExcessData else Inr [])
            else a2b q left (Suc pads) True cs)
         else a2b q left pads True cs)
      else case b64_val c of
        None \<Rightarrow> Inl NotBase64
      | Some v \<Rightarrow>
          (if padded then Inl DiscontinuousPadding
           else if q = 0 then a2b 1 v 0 False cs
           else if q = 1 then rbind (a2b 2 (v mod 16) 0 False cs) (\<lambda>bs. Inr (of_nat (left * 4 + v div 16) # bs))
           else if q = 2 then rbind (a2b 3 (v mod 4) 0 False cs) (\<lambda>bs. Inr (of_nat (left * 16 + v div 4) # bs))
           else rbind (a2b 0 0 0 False cs) (\<lambda>bs. Inr (of_nat (left * 64 + v) # bs))))"

definition unb64 :: "string \<Rightarrow> value_error + bytes" where
  "unb64 text =
     (if \<exists>c \<in> set text. 128 \<le> (of_char c :: nat) then Inl NonAscii
      else if text \<noteq> [] \<and> hd text = CHR ''='' then Inl LeadingPadding
      else a2b 0 0 0 False text)"

section \<open>Base64 round trip\<close>

lemma of_char_char_of_small: "n < 256 \<Longrightarrow> of_char (char_of n :: char) = (n :: nat)"
  by (simp add: of_char_of)

lemma b64_char_ascii: "n < 64 \<Longrightarrow> of_char (b64_char n) < (128 :: nat)"
  by (auto simp: b64_char_def of_char_char_of_small)

lemma b64_val_char: "n < 64 \<Longrightarrow> b64_val (b64_char n) = Some n"
  by (auto simp: b64_char_def b64_val_def Let_def of_char_char_of_small)

lemma b64_char_not_pad: "n < 64 \<Longrightarrow> b64_char n \<noteq> CHR ''=''"
  using b64_val_char [of n] by (auto simp: b64_val_def)

lemma unat_byte_less: "unat (a :: 8 word) < 256"
  using unsigned_less [of a] by simp

lemma byte_parts:
  "unat (a :: 8 word) div 4 < 64" "unat a div 16 < 16" "unat a div 64 < 4"
  using unat_byte_less [of a] by (simp_all add: div_less_iff_less_mult)

lemma join_div: "y < k \<Longrightarrow> (x * k + y) div k = (x :: nat)" and join_mod: "y < k \<Longrightarrow> (x * k + y) mod k = y"
  by simp_all

lemma join_bound: "x < m \<Longrightarrow> y < k \<Longrightarrow> x * k + y < m * (k :: nat)"
proof -
  assume "x < m" "y < k"
  then have "x * k + y < Suc x * k" by simp
  also have "\<dots> \<le> m * k" using \<open>x < m\<close> by (intro mult_le_mono1) simp
  finally show ?thesis .
qed

lemma sextet_bounds:
  "unat (a :: 8 word) div 4 < 64"
  "unat a mod 4 * 16 + unat (b :: 8 word) div 16 < 64"
  "unat a mod 4 * 16 < 64"
  "unat b mod 16 * 4 + unat (c :: 8 word) div 64 < 64"
  "unat b mod 16 * 4 < 64"
  "unat c mod 64 < 64"
  using join_bound [of "unat a mod 4" 4 "unat b div 16" 16] join_bound [of "unat b mod 16" 16 "unat c div 64" 4]
    join_bound [of "unat a mod 4" 4 0 16] join_bound [of "unat b mod 16" 16 0 4] byte_parts [of a] byte_parts [of b]
    byte_parts [of c]
  by simp_all

lemmas b64_step [simp] = b64_val_char b64_char_not_pad sextet_bounds

lemma a2b_b64: "a2b 0 0 0 False (b64 bs) = Inr bs"
proof (induction bs rule: b64.induct)
  case (4 a b c rest)
  then show ?case
    by (simp add: byte_parts del: of_nat_add of_nat_mult)
qed (simp_all add: byte_parts del: of_nat_add of_nat_mult)

lemma b64_ascii: "c \<in> set (b64 bs) \<Longrightarrow> of_char c < (128 :: nat)"
  by (induction bs rule: b64.induct) (auto simp: b64_char_ascii)

lemma b64_hd: "b64 bs \<noteq> [] \<Longrightarrow> hd (b64 bs) \<noteq> CHR ''=''"
  by (cases bs rule: b64.cases) auto

lemma unb64_b64: "unb64 (b64 bs) = Inr bs"
proof -
  have "\<not> (\<exists>c \<in> set (b64 bs). 128 \<le> (of_char c :: nat))"
    using b64_ascii [of _ bs] by (auto simp: not_le [symmetric])
  then show ?thesis using b64_hd [of bs] by (auto simp: unb64_def a2b_b64)
qed

section \<open>The canonical text determines the document\<close>

text \<open>
  \<open>json.dumps\<close> writes keys in order, so two documents that differ only in the order of their keys
  have the same bytes; \<open>norm_keys\<close> sorts the keys at every level.
\<close>

fun norm_keys :: "json \<Rightarrow> json" where
  "norm_keys (JList xs) = JList (map norm_keys xs)"
| "norm_keys (JObj d) = JObj (sort_key fst (map (\<lambda>p. (fst p, norm_keys (snd p))) d))"
| "norm_keys v = v"

definition is_digit :: "char \<Rightarrow> bool" where
  "is_digit c \<longleftrightarrow> 48 \<le> (of_char c :: nat) \<and> (of_char c :: nat) \<le> 57"

text \<open>What is used of \<open>float.__repr__\<close>: distinct floats print differently, and never as an int.\<close>

definition float_repr_ok :: "(rat \<Rightarrow> string) \<Rightarrow> bool" where
  "float_repr_ok frepr \<longleftrightarrow> inj frepr \<and> (\<forall>r. frepr r \<noteq> []
     \<and> (\<forall>c \<in> set (frepr r). is_digit c \<or> c = CHR ''+'' \<or> c = CHR ''-'' \<or> c = CHR ''.'' \<or> c = CHR ''e'')
     \<and> (is_digit (hd (frepr r)) \<or> hd (frepr r) = CHR ''-'')
     \<and> (CHR ''.'' \<in> set (frepr r) \<or> CHR ''e'' \<in> set (frepr r)))"

definition delim :: "char \<Rightarrow> bool" where
  "delim c \<longleftrightarrow> c \<in> set '',]}''"

definition ends :: "string \<Rightarrow> bool" where
  "ends r \<longleftrightarrow> r = [] \<or> delim (hd r)"

lemma ends_simps [simp]: "ends []" "ends (c # cs) \<longleftrightarrow> delim c"
  by (simp_all add: ends_def)

lemma delim_simps [simp]: "delim CHR '',''" "delim CHR '']''" "delim CHR ''}''"
  by (simp_all add: delim_def)

lemma undelimited_split:
  assumes "s @ r = s' @ r'" "\<forall>c \<in> set s. \<not> delim c" "\<forall>c \<in> set s'. \<not> delim c" "ends r" "ends r'"
  shows "s = s' \<and> r = r'"
proof -
  have "takeWhile (\<lambda>c. \<not> delim c) (u @ v) = u" if "\<forall>c \<in> set u. \<not> delim c" "ends v" for u v
    using that by (cases v) (simp_all add: takeWhile_append2)
  from this [of s r] this [of s' r'] assms have "s = s'" by simp
  with assms(1) show ?thesis by simp
qed

subsection \<open>Integers\<close>

definition read_nat :: "string \<Rightarrow> nat" where
  "read_nat s = foldl (\<lambda>n c. n * 10 + (of_char c - 48)) 0 s"

lemma is_digit_digit: "n < 10 \<Longrightarrow> is_digit (digit n)"
  by (simp add: is_digit_def digit_def of_char_char_of_small)

lemma show_nat_digits: "c \<in> set (show_nat n) \<Longrightarrow> is_digit c"
proof (induction n rule: show_nat.induct)
  case (1 n)
  then show ?case
    by (cases "n < 10") (auto simp: show_nat.simps [of n] is_digit_digit)
qed

lemma show_nat_nonempty: "show_nat n \<noteq> []"
  by (subst show_nat.simps) simp

lemma read_show_nat: "read_nat (show_nat n) = n"
proof (induction n rule: show_nat.induct)
  case (1 n)
  then show ?case
    by (cases "n < 10") (simp_all add: show_nat.simps [of n] read_nat_def digit_def of_char_char_of_small)
qed

lemma show_nat_hd: "is_digit (hd (show_nat n))"
  using show_nat_digits [of "hd (show_nat n)" n] show_nat_nonempty [of n] by simp

lemma minus_not_digit [simp]: "\<not> is_digit CHR ''-''"
  by (simp add: is_digit_def)

lemma show_int_inj: "show_int m = show_int n \<Longrightarrow> m = n"
proof -
  assume eq: "show_int m = show_int n"
  have neg: "hd (show_int k) = CHR ''-'' \<longleftrightarrow> k < 0" for k
    using show_nat_hd [of "nat k"] by (auto simp: show_int_def)
  with eq have sign: "m < 0 \<longleftrightarrow> n < 0" by metis
  show ?thesis
  proof (cases "m < 0")
    case True
    with sign eq have "show_nat (nat (- m)) = show_nat (nat (- n))" by (simp add: show_int_def)
    then have "nat (- m) = nat (- n)" by (metis read_show_nat)
    with True sign show ?thesis by simp
  next
    case False
    with sign eq have "show_nat (nat m) = show_nat (nat n)" by (simp add: show_int_def)
    then have "nat m = nat n" by (metis read_show_nat)
    with False sign show ?thesis by simp
  qed
qed

lemma show_int_chars: "c \<in> set (show_int n) \<Longrightarrow> is_digit c \<or> c = CHR ''-''"
  by (auto simp: show_int_def split: if_splits dest: show_nat_digits)

lemma show_int_nonempty: "show_int n \<noteq> []"
  by (simp add: show_int_def show_nat_nonempty)

subsection \<open>Strings\<close>

definition hex_val :: "char \<Rightarrow> nat" where
  "hex_val c = (let n = of_char c in if n < 58 then n - 48 else n - 87)"

lemma hex_val_digit: "n < 16 \<Longrightarrow> hex_val (hex_digit n) = n"
  by (simp add: hex_val_def hex_digit_def digit_def of_char_char_of_small Let_def)

fun unesc :: "string \<Rightarrow> (char \<times> string) option" where
  "unesc [] = None"
| "unesc (c # cs) =
     (if c = CHR 0x22 then None
      else if c \<noteq> CHR 0x5C then Some (c, cs)
      else case cs of [] \<Rightarrow> None | d # ds \<Rightarrow>
        if d = CHR ''n'' then Some (CHR 0x0A, ds) else if d = CHR ''r'' then Some (CHR 0x0D, ds)
        else if d = CHR ''t'' then Some (CHR 0x09, ds) else if d = CHR ''f'' then Some (CHR 0x0C, ds)
        else if d = CHR ''b'' then Some (CHR 0x08, ds)
        else if d = CHR ''u'' then
          (case ds of z # z' # h # l # rest \<Rightarrow> Some (char_of (16 * hex_val h + hex_val l), rest) | _ \<Rightarrow> None)
        else Some (d, ds))"

lemma unesc_esc: "unesc (esc_char c @ rest) = Some (c, rest)"
proof -
  have "char_of (16 * hex_val (hex_digit (of_char c div 16)) + hex_val (hex_digit (of_char c mod 16))) = c"
    if "(of_char c :: nat) < 32"
  proof -
    have "(of_char c :: nat) div 16 < 16" using that by (simp add: div_less_iff_less_mult)
    then show ?thesis by (simp add: hex_val_digit)
  qed
  then show ?thesis by (simp add: esc_char_def)
qed

lemma quote_body_inj:
  "concat (map esc_char s) @ CHR 0x22 # r = concat (map esc_char s') @ CHR 0x22 # r' \<Longrightarrow> s = s' \<and> r = r'"
proof (induction s arbitrary: s')
  case Nil
  show ?case
  proof (cases s')
    case (Cons c cs)
    with Nil have "unesc (esc_char c @ concat (map esc_char cs) @ CHR 0x22 # r') = unesc (CHR 0x22 # r)" by simp
    then show ?thesis by (simp only: unesc_esc) simp
  qed (use Nil in simp)
next
  case (Cons c cs)
  have u: "unesc (concat (map esc_char s') @ CHR 0x22 # r') = Some (c, concat (map esc_char cs) @ CHR 0x22 # r)"
    using Cons.prems unesc_esc [of c "concat (map esc_char cs) @ CHR 0x22 # r"] by simp
  show ?case
  proof (cases s')
    case Nil
    with u show ?thesis by simp
  next
    case (Cons c' cs')
    with u unesc_esc [of c' "concat (map esc_char cs') @ CHR 0x22 # r'"]
    have "c' = c" and "concat (map esc_char cs) @ CHR 0x22 # r = concat (map esc_char cs') @ CHR 0x22 # r'"
      by simp_all
    with Cons.IH [of cs'] Cons show ?thesis by simp
  qed
qed

lemma quote_inj: "quote s @ r = quote s' @ r' \<Longrightarrow> s = s' \<and> r = r'"
  using quote_body_inj [of s r s' r'] by (simp add: quote_def)

subsection \<open>Sequences\<close>

lemma commas_Cons: "commas (x # xs) = x @ concat (map (\<lambda>y. CHR '','' # y) xs)"
  by (induction xs arbitrary: x) auto

lemma ends_tail: "delim c \<Longrightarrow> ends (concat (map (\<lambda>x. CHR '','' # enc x) xs) @ c # r)"
  by (cases xs) auto

text \<open>Two encodings that agree up to what follows them encode the same thing, and the rests agree.\<close>

definition reads_back :: "('a \<Rightarrow> string) \<Rightarrow> ('a \<Rightarrow> 'b) \<Rightarrow> 'a \<Rightarrow> 'a \<Rightarrow> bool" where
  "reads_back enc f x y \<longleftrightarrow>
     (\<forall>r r'. enc x @ r = enc y @ r' \<longrightarrow> ends r \<longrightarrow> ends r' \<longrightarrow> f x = f y \<and> r = r')"

lemma reads_backD: "reads_back enc f x y \<Longrightarrow> enc x @ r = enc y @ r' \<Longrightarrow> ends r \<Longrightarrow> ends r' \<Longrightarrow> f x = f y \<and> r = r'"
  by (simp add: reads_back_def)

lemma comma_tails_inj:
  assumes "\<And>x y. x \<in> set xs \<Longrightarrow> y \<in> set ys \<Longrightarrow> reads_back enc f x y"
    and "delim c" "c \<noteq> CHR '',''"
    and "concat (map (\<lambda>x. CHR '','' # enc x) xs) @ c # r = concat (map (\<lambda>x. CHR '','' # enc x) ys) @ c # r'"
  shows "map f xs = map f ys \<and> r = r'"
  using assms
proof (induction xs arbitrary: ys)
  case Nil
  then show ?case by (cases ys) auto
next
  case (Cons x xs)
  show ?case
  proof (cases ys)
    case Nil
    with Cons.prems show ?thesis by simp
  next
    case (Cons y ys')
    let ?t = "\<lambda>zs. concat (map (\<lambda>x. CHR '','' # enc x) zs)"
    have e: "ends (?t zs @ c # u)" for zs u using Cons.prems(2) by (rule ends_tail)
    have eq: "enc x @ (?t xs @ c # r) = enc y @ (?t ys' @ c # r')"
      using Cons.prems(4) Cons by simp
    have "f x = f y \<and> ?t xs @ c # r = ?t ys' @ c # r'"
      by (rule reads_backD [OF Cons.prems(1) eq e e]) (simp_all add: Cons)
    moreover from this have "map f xs = map f ys' \<and> r = r'"
      using Cons.prems Cons by (intro Cons.IH) simp_all
    ultimately show ?thesis using Cons by simp
  qed
qed

lemma commas_inj:
  assumes elem: "\<And>x y. x \<in> set xs \<Longrightarrow> y \<in> set ys \<Longrightarrow> reads_back enc f x y"
    and start: "\<And>x. x \<in> set xs \<union> set ys \<Longrightarrow> enc x \<noteq> [] \<and> \<not> delim (hd (enc x))"
    and c: "delim c" "c \<noteq> CHR '',''"
    and eq: "commas (map enc xs) @ c # r = commas (map enc ys) @ c # r'"
  shows "map f xs = map f ys \<and> r = r'"
proof -
  have empty: "zs = []" if "c # u = commas (map enc zs) @ c # v" "set zs \<subseteq> set xs \<union> set ys" for zs u v
  proof (rule ccontr)
    assume "zs \<noteq> []"
    then obtain z zs' where z: "zs = z # zs'" by (cases zs) auto
    with that start [of z] have "hd (commas (map enc zs) @ c # v) = hd (enc z)"
      by (cases "enc z") (auto simp: commas_Cons)
    moreover from that(1) have "hd (commas (map enc zs) @ c # v) = c" by (metis list.sel(1))
    ultimately show False using start [of z] z that(2) c by simp
  qed
  show ?thesis
  proof (cases "xs = [] \<or> ys = []")
    case True
    with eq empty [of r ys r'] empty [of r' xs r] have "xs = []" "ys = []" by auto
    with eq show ?thesis by simp
  next
    case False
    then obtain x xs' y ys' where xs: "xs = x # xs'" and ys: "ys = y # ys'"
      by (meson neq_Nil_conv)
    let ?t = "\<lambda>zs. concat (map (\<lambda>x. CHR '','' # enc x) zs)"
    have e: "ends (?t zs @ c # u)" for zs u using c(1) by (rule ends_tail)
    have eq': "enc x @ (?t xs' @ c # r) = enc y @ (?t ys' @ c # r')"
      using eq by (simp add: xs ys commas_Cons comp_def)
    have h: "f x = f y \<and> ?t xs' @ c # r = ?t ys' @ c # r'"
      by (rule reads_backD [OF elem eq' e e]) (simp_all add: xs ys)
    have "map f xs' = map f ys' \<and> r = r'"
      by (rule comma_tails_inj [OF _ c h [THEN conjunct2]]) (simp add: elem xs ys)
    with h xs ys show ?thesis by simp
  qed
qed

lemma sort_key_map_snd:
  "sort_key fst (map (\<lambda>p. (fst p, h (snd p))) d) = map (\<lambda>p. (fst p, h (snd p))) (sort_key fst d)"
proof (induction d)
  case (Cons p d)
  have "insort_key fst (fst q, h (snd q)) (map (\<lambda>p. (fst p, h (snd p))) e)
      = map (\<lambda>p. (fst p, h (snd p))) (insort_key fst q e)" for q e
    by (induction e) auto
  with Cons show ?case by simp
qed simp

subsection \<open>Injectivity\<close>

fun is_atom :: "json \<Rightarrow> bool" where
  "is_atom (JStr s) = False"
| "is_atom (JList xs) = False"
| "is_atom (JObj d) = False"
| "is_atom v = True"

definition opener :: "char \<Rightarrow> bool" where
  "opener c \<longleftrightarrow> c = CHR 0x22 \<or> c = CHR ''['' \<or> c = CHR ''{''"

lemma digit_facts: "is_digit c \<Longrightarrow> \<not> delim c \<and> \<not> opener c \<and> c \<notin> {CHR ''n'', CHR ''t'', CHR ''f'', CHR ''e'', CHR ''.''}"
  by (auto simp: is_digit_def delim_def opener_def)

lemma sign_facts: "\<not> delim CHR ''-''" "\<not> opener CHR ''-''" "\<not> delim CHR ''+''" "\<not> delim CHR ''.''" "\<not> delim CHR ''e''"
  by (simp_all add: delim_def opener_def)

lemma show_int_hd: "is_digit (hd (show_int n)) \<or> hd (show_int n) = CHR ''-''"
  using show_int_chars [of "hd (show_int n)" n] show_int_nonempty by simp

lemma float_repr_facts:
  assumes "float_repr_ok frepr"
  shows "frepr r \<noteq> []" and "c \<in> set (frepr r) \<Longrightarrow> \<not> delim c"
    and "is_digit (hd (frepr r)) \<or> hd (frepr r) = CHR ''-''"
    and "frepr r = frepr r' \<Longrightarrow> r = r'"
    and "show_int n \<noteq> frepr r"
proof -
  show "frepr r \<noteq> []" "is_digit (hd (frepr r)) \<or> hd (frepr r) = CHR ''-''" "frepr r = frepr r' \<Longrightarrow> r = r'"
    using assms by (auto simp: float_repr_ok_def inj_def)
  show "\<not> delim c" if "c \<in> set (frepr r)"
    using assms that digit_facts sign_facts unfolding float_repr_ok_def by blast
  have "CHR ''.'' \<in> set (frepr r) \<or> CHR ''e'' \<in> set (frepr r)" using assms by (simp add: float_repr_ok_def)
  moreover have "CHR ''.'' \<notin> set (show_int n)" "CHR ''e'' \<notin> set (show_int n)"
    using show_int_chars [of "CHR ''.''" n] show_int_chars [of "CHR ''e''" n] digit_facts by auto
  ultimately show "show_int n \<noteq> frepr r" by metis
qed

lemma atom_cases:
  assumes "is_atom v" "json_finite v"
  obtains "v = JNull" | b where "v = JBool b" | n where "v = JInt n" | r where "v = JNum (Flt r)"
  using assms by (cases v rule: json_finite.cases) auto

lemma atom_chars:
  assumes "float_repr_ok frepr" "is_atom v" "json_finite v"
  shows "(\<forall>c \<in> set (dumps frepr v). \<not> delim c) \<and> dumps frepr v \<noteq> [] \<and> \<not> opener (hd (dumps frepr v))"
  using assms(2,3)
proof (cases v rule: atom_cases)
  case (3 n)
  have "\<forall>c \<in> set (show_int n). \<not> delim c"
    using show_int_chars [of _ n] digit_facts sign_facts by blast
  with 3 show ?thesis using show_int_nonempty show_int_hd [of n] digit_facts sign_facts by auto
next
  case (4 r)
  with float_repr_facts [OF assms(1)] digit_facts sign_facts show ?thesis by (auto, metis)
qed (auto simp: delim_def opener_def split: if_splits)

lemma number_not_word:
  assumes "float_repr_ok frepr" "c \<in> {CHR ''n'', CHR ''t'', CHR ''f''}"
  shows "show_int n \<noteq> c # u" and "frepr r \<noteq> c # u"
proof -
  have "\<not> is_digit c \<and> c \<noteq> CHR ''-''" using assms(2) by (auto simp: is_digit_def)
  then show "show_int n \<noteq> c # u" "frepr r \<noteq> c # u"
    using show_int_hd [of n] float_repr_facts(3) [OF assms(1), of r] by (metis list.sel(1))+
qed

lemma atom_inj:
  assumes ok: "float_repr_ok frepr" and v: "is_atom v" "json_finite v" and w: "is_atom w" "json_finite w"
    and eq: "dumps frepr v = dumps frepr w"
  shows "v = w"
proof -
  have words: "show_int n \<noteq> CHR ''n'' # u" "show_int n \<noteq> CHR ''t'' # u" "show_int n \<noteq> CHR ''f'' # u"
    "frepr r \<noteq> CHR ''n'' # u" "frepr r \<noteq> CHR ''t'' # u" "frepr r \<noteq> CHR ''f'' # u" for n r u
    using number_not_word [OF ok] by simp_all
  note differ = words words [symmetric] float_repr_facts(5) [OF ok] float_repr_facts(5) [OF ok, symmetric]
  show ?thesis
    using v
  proof (cases v rule: atom_cases)
    case 1
    with eq w differ show ?thesis by (cases w rule: json_finite.cases) (simp_all split: if_splits)
  next
    case (2 b)
    with eq w differ show ?thesis by (cases w rule: json_finite.cases) (simp_all split: if_splits)
  next
    case (3 n)
    with eq w differ show ?thesis
      by (cases w rule: json_finite.cases) (simp_all add: show_int_inj split: if_splits)
  next
    case (4 r)
    with eq w differ show ?thesis
      by (cases w rule: json_finite.cases) (simp_all add: float_repr_facts(4) [OF ok] split: if_splits)
  qed
qed

lemma hd_dumps:
  assumes "float_repr_ok frepr" "json_finite v"
  shows "dumps frepr v \<noteq> [] \<and> \<not> delim (hd (dumps frepr v))"
proof (cases "is_atom v")
  case True
  with atom_chars [OF assms(1) True assms(2)] show ?thesis by simp
next
  case False
  then show ?thesis by (cases v rule: is_atom.cases) (auto simp: quote_def delim_def)
qed

lemma atom_reads_back:
  assumes ok: "float_repr_ok frepr" and x: "is_atom x" "json_finite x" and y: "json_finite y"
  shows "reads_back (dumps frepr) norm_keys x y"
proof (cases "is_atom y")
  case True
  have norm_keys: "norm_keys v = v" if "is_atom v" for v using that by (cases v rule: is_atom.cases) auto
  have "norm_keys x = norm_keys y \<and> r = r'" if "dumps frepr x @ r = dumps frepr y @ r'" "ends r" "ends r'" for r r'
    using undelimited_split [OF that(1) _ _ that(2,3)] atom_chars [OF ok x] atom_chars [OF ok True y]
      atom_inj [OF ok x True y] norm_keys x(1) True by simp
  then show ?thesis by (simp add: reads_back_def)
next
  case False
  then have "dumps frepr y \<noteq> [] \<and> opener (hd (dumps frepr y))"
    by (cases y rule: is_atom.cases) (auto simp: quote_def opener_def)
  moreover from atom_chars [OF ok x] have "dumps frepr x \<noteq> [] \<and> \<not> opener (hd (dumps frepr x))" by simp
  ultimately have "dumps frepr x @ r \<noteq> dumps frepr y @ r'" for r r'
    by (metis hd_append)
  then show ?thesis by (simp add: reads_back_def)
qed

lemma dumps_reads_back:
  assumes ok: "float_repr_ok frepr"
  shows "json_finite x \<Longrightarrow> json_finite y \<Longrightarrow> reads_back (dumps frepr) norm_keys x y"
proof (induction x arbitrary: y)
  case (JStr s)
  show ?case
  proof (cases "is_atom y")
    case True
    with atom_chars [OF ok True JStr.prems(2)] show ?thesis
      by (cases "dumps frepr y") (auto simp: reads_back_def quote_def opener_def)
  next
    case False
    then show ?thesis
      by (cases y rule: is_atom.cases) (auto simp: reads_back_def quote_def dest: quote_body_inj)
  qed
next
  case (JList xs)
  show ?case
  proof (cases "is_atom y")
    case True
    with atom_chars [OF ok True JList.prems(2)] show ?thesis
      by (cases "dumps frepr y") (auto simp: reads_back_def opener_def)
  next
    case False
    show ?thesis
    proof (cases y rule: is_atom.cases)
      case (2 ys)
      have "map norm_keys xs = map norm_keys ys \<and> r = r'"
        if "commas (map (dumps frepr) xs) @ CHR '']'' # r = commas (map (dumps frepr) ys) @ CHR '']'' # r'" for r r'
        using JList 2 that hd_dumps [OF ok]
        by (intro commas_inj [of xs ys "dumps frepr" norm_keys "CHR '']''"]) auto
      with 2 show ?thesis by (simp add: reads_back_def)
    qed (use False in \<open>auto simp: reads_back_def quote_def\<close>)
  qed
next
  case (JObj d)
  show ?case
  proof (cases "is_atom y")
    case True
    with atom_chars [OF ok True JObj.prems(2)] show ?thesis
      by (cases "dumps frepr y") (auto simp: reads_back_def opener_def)
  next
    case False
    show ?thesis
    proof (cases y rule: is_atom.cases)
      case (3 e)
      let ?enc = "\<lambda>p. quote (fst p) @ CHR '':'' # dumps frepr (snd p)"
      let ?f = "\<lambda>p. (fst p, norm_keys (snd p))"
      have rb: "reads_back ?enc ?f p q" if "p \<in> set d" "q \<in> set e" for p q
      proof -
        have "reads_back (dumps frepr) norm_keys (snd p) (snd q)"
          using JObj 3 that by (cases p) auto
        then show ?thesis
          by (auto simp: reads_back_def dest!: quote_inj)
      qed
      have "map ?f (sort_key fst d) = map ?f (sort_key fst e) \<and> r = r'"
        if "commas (map ?enc (sort_key fst d)) @ CHR ''}'' # r = commas (map ?enc (sort_key fst e)) @ CHR ''}'' # r'"
        for r r'
        using rb that by (intro commas_inj [of _ _ ?enc ?f "CHR ''}''"]) (auto simp: quote_def delim_def)
      with 3 show ?thesis
        by (simp add: reads_back_def sort_key_map_snd comp_def)
    qed (use False in \<open>auto simp: reads_back_def quote_def\<close>)
  qed
qed (use atom_reads_back [OF ok] in simp_all)

text \<open>UTF-8 of distinct texts is distinct.\<close>

lemma unat_of_nat_byte: "n < 256 \<Longrightarrow> unat (of_nat n :: 8 word) = n"
  by (simp add: unat_of_nat)

definition utf8_dec :: "bytes \<Rightarrow> nat \<times> bytes" where
  "utf8_dec bs = (case bs of [] \<Rightarrow> (0, []) | b # bs \<Rightarrow> if unat b < 128 then (unat b, bs)
      else (case bs of [] \<Rightarrow> (0, []) | b' # bs \<Rightarrow> ((unat b - 192) * 64 + (unat b' - 128), bs)))"

lemma utf8_dec_char: "utf8_dec (utf8_char c @ r) = (of_char c, r)"
proof (cases "of_char c < (128 :: nat)")
  case True
  then show ?thesis by (simp add: utf8_dec_def utf8_char_def Let_def unat_of_nat_byte)
next
  case False
  define n :: nat where "n = of_char c"
  have "n < 256" by (simp add: n_def)
  then have "n div 64 < 4" "n mod 64 < 64" by (simp_all add: div_less_iff_less_mult)
  then have "unat (of_nat (192 + n div 64) :: 8 word) = 192 + n div 64"
    and "unat (of_nat (128 + n mod 64) :: 8 word) = 128 + n mod 64"
    by (simp_all only: unat_of_nat_byte)
  with False show ?thesis
    by (simp add: utf8_dec_def utf8_char_def Let_def n_def del: of_nat_add)
qed

lemma utf8_char_inj: "utf8_char c @ r = utf8_char c' @ r' \<Longrightarrow> c = c' \<and> r = r'"
proof -
  assume "utf8_char c @ r = utf8_char c' @ r'"
  then have "utf8_dec (utf8_char c @ r) = utf8_dec (utf8_char c' @ r')" by (rule arg_cong)
  then show ?thesis by (simp only: utf8_dec_char) simp
qed

lemma utf8_inj: "utf8 s = utf8 s' \<Longrightarrow> s = s'"
proof (induction s arbitrary: s')
  case Nil
  then show ?case by (cases s') (auto simp: utf8_def utf8_char_def Let_def split: if_splits)
next
  case (Cons c cs)
  show ?case
  proof (cases s')
    case Nil
    with Cons.prems show ?thesis by (auto simp: utf8_def utf8_char_def Let_def split: if_splits)
  next
    case (Cons c' cs')
    with Cons.prems have "utf8_char c @ utf8 cs = utf8_char c' @ utf8 cs'" by (simp add: utf8_def)
    then have "c = c' \<and> utf8 cs = utf8 cs'" by (rule utf8_char_inj)
    with Cons.IH Cons show ?thesis by simp
  qed
qed

lemma canonical_inj:
  assumes "float_repr_ok frepr" "canonical frepr x = Inr bs" "canonical frepr y = Inr bs"
  shows "norm_keys x = norm_keys y"
proof -
  from assms(2,3) have fin: "json_finite x" "json_finite y" and "utf8 (dumps frepr x) = utf8 (dumps frepr y)"
    by (auto simp: canonical_def split: if_splits)
  then have "dumps frepr x @ [] = dumps frepr y @ []" by (auto dest: utf8_inj)
  then show ?thesis using reads_backD [OF dumps_reads_back [OF assms(1) fin], of "[]" "[]"] by simp
qed

text \<open>Conversely the order of the keys is not signed.\<close>

lemma canonical_key_order:
  assumes d: "dict_distinct d" and e: "dict_distinct e" and "set d = set e"
  shows "canonical frepr (JObj d) = canonical frepr (JObj e)"
proof -
  have "inj_on fst (set (sort_key fst d) \<union> set (sort_key fst e))"
    using d assms(3) by (simp add: distinct_map)
  moreover have "distinct (map fst (sort_key fst d))" "distinct (map fst (sort_key fst e))"
    using d e by (auto simp: distinct_map distinct_sort)
  ultimately have "sort_key fst d = sort_key fst e"
    using assms(3) by (intro map_sorted_distinct_set_unique) auto
  with assms(3) show ?thesis by (simp add: canonical_def sort_key_map_snd)
qed

lemma norm_lookup:
  assumes "norm_keys (JObj d) = norm_keys (JObj e)" "dict_distinct d" "dict_distinct e"
  shows "map_option norm_keys (map_of d k) = map_option norm_keys (map_of e k)"
proof -
  let ?n = "map (\<lambda>p. (fst p, norm_keys (snd p)))"
  have look: "map_of (?n c) k = map_option norm_keys (map_of c k)" for c
    by (induction c) auto
  have "sort_key fst (?n d) = sort_key fst (?n e)" using assms(1) by simp
  then have "set (sort_key fst (?n d)) = set (sort_key fst (?n e))" by (rule arg_cong)
  then have "set (?n d) = set (?n e)" by (simp only: set_sort)
  moreover have "distinct (map fst (?n d))" "distinct (map fst (?n e))"
    using assms(2,3) by (simp_all add: comp_def)
  ultimately have "map_of (?n d) = map_of (?n e)"
    by (simp only: map_of_inject_set)
  then have "map_of (?n d) k = map_of (?n e) k" by simp
  then show ?thesis by (simp only: look)
qed

interpretation b64_codec: wire_codec b64 unb64 "\<lambda>_. True"
  by unfold_locales (simp_all add: unb64_b64)

end
