(* ===== verification/Envelope.thy ===== *)
theory Envelope
  imports Canonical
begin

text \<open>
  \<open>proto/version.py\<close> and \<open>proto/envelope.py\<close>: the version gate and the wire types. Each type
  has its record, \<open>to_dict\<close>, \<open>from_dict\<close> with every check in the code's order, and an
  interpretation of \<open>wire_codec\<close>. \<open>signed_bytes_inj\<close> says what an envelope's signature covers.
\<close>

datatype proto_error =
    VersionNotInt
  | UnsupportedVersion int
  | NotAnObject
  | FieldNotString string
  | SigNotString
  | TsNotNumber
  | BadSeq
  | FinalNotBool
  | BadCount string
  | UnknownKind
  | Unsigned
  | BadSignature

definition PROTO_VERSION :: int where "PROTO_VERSION = 1"
definition SUPPORTED_VERSIONS :: "int set" where "SUPPORTED_VERSIONS = {1}"

definition check_version :: "json \<Rightarrow> proto_error + int" where
  "check_version v =
     (case as_int v of
        None \<Rightarrow> Inl VersionNotInt
      | Some n \<Rightarrow> if n \<notin> SUPPORTED_VERSIONS then Inl (UnsupportedVersion n) else Inr n)"

definition KIND_CHUNK :: string where "KIND_CHUNK = ''chunk''"
definition KIND_RECEIPT :: string where "KIND_RECEIPT = ''receipt''"

definition require_str :: "(string \<times> json) list \<Rightarrow> string \<Rightarrow> proto_error + string" where
  "require_str d key =
     (case as_str (obj_get d key) of
        None \<Rightarrow> Inl (FieldNotString key)
      | Some s \<Rightarrow> if s = [] then Inl (FieldNotString key) else Inr s)"

definition as_object :: "json \<Rightarrow> proto_error + (string \<times> json) list" where
  "as_object d = (case as_obj d of None \<Rightarrow> Inl NotAnObject | Some ob \<Rightarrow> Inr ob)"

section \<open>Envelope\<close>

record envelope =
  request_id :: string
  sealed_key :: string
  iv :: string
  ciphertext :: string
  sender :: string
  ts :: pynum
  sig :: "string option"
  proto_v :: int

definition envelope_fields :: "envelope \<Rightarrow> (string \<times> json) list" where
  "envelope_fields e =
     [(''v'', JInt (proto_v e)), (''request_id'', JStr (request_id e)), (''sealed_key'', JStr (sealed_key e)),
      (''iv'', JStr (iv e)), (''ciphertext'', JStr (ciphertext e)), (''sender'', JStr (sender e)),
      (''ts'', JNum (ts e))]"

definition signed_bytes :: "(rat \<Rightarrow> string) \<Rightarrow> envelope \<Rightarrow> value_error + bytes" where
  "signed_bytes frepr e = canonical frepr (JObj (envelope_fields e))"

definition envelope_to_dict :: "envelope \<Rightarrow> json" where
  "envelope_to_dict e =
     JObj (envelope_fields e @ (case sig e of None \<Rightarrow> [] | Some s \<Rightarrow> [(''sig'', JStr s)]))"

definition optional_sig :: "json \<Rightarrow> proto_error + string option" where
  "optional_sig v =
     (if v = JNull then Inr None
      else case as_str v of None \<Rightarrow> Inl SigNotString | Some s \<Rightarrow> Inr (Some s))"

definition envelope_from_dict :: "json \<Rightarrow> proto_error + envelope" where
  "envelope_from_dict j =
     rbind (as_object j) (\<lambda>d.
     rbind (check_version (obj_get d ''v'')) (\<lambda>v.
     rbind (optional_sig (obj_get d ''sig'')) (\<lambda>sg.
     rbind (case as_num (obj_get d ''ts'') of None \<Rightarrow> Inl TsNotNumber | Some t \<Rightarrow> Inr t) (\<lambda>t.
     rbind (require_str d ''request_id'') (\<lambda>rid.
     rbind (require_str d ''sealed_key'') (\<lambda>sk.
     rbind (require_str d ''iv'') (\<lambda>i.
     rbind (require_str d ''ciphertext'') (\<lambda>ct.
     rbind (require_str d ''sender'') (\<lambda>sn.
     Inr \<lparr>request_id = rid, sealed_key = sk, iv = i, ciphertext = ct, sender = sn, ts = t, sig = sg,
          proto_v = v\<rparr>)))))))))"

section \<open>Chunk\<close>

record chunk =
  c_request_id :: string
  c_seq :: int
  c_ciphertext :: string
  c_final :: bool
  c_v :: int

definition chunk_to_dict :: "chunk \<Rightarrow> json" where
  "chunk_to_dict c =
     JObj [(''kind'', JStr KIND_CHUNK), (''v'', JInt (c_v c)), (''request_id'', JStr (c_request_id c)),
       (''seq'', JInt (c_seq c)), (''ciphertext'', JStr (c_ciphertext c)), (''final'', JBool (c_final c))]"

definition chunk_from_dict :: "json \<Rightarrow> proto_error + chunk" where
  "chunk_from_dict j =
     rbind (as_object j) (\<lambda>d.
     rbind (check_version (obj_get d ''v'')) (\<lambda>v.
     rbind (case as_int (obj_get d ''seq'') of None \<Rightarrow> Inl BadSeq | Some n \<Rightarrow> if n < 0 then Inl BadSeq else Inr n) (\<lambda>sq.
     rbind (case as_bool (obj_get_or d ''final'' (JBool False)) of None \<Rightarrow> Inl FinalNotBool | Some b \<Rightarrow> Inr b) (\<lambda>fin.
     rbind (require_str d ''request_id'') (\<lambda>rid.
     rbind (require_str d ''ciphertext'') (\<lambda>ct.
     Inr \<lparr>c_request_id = rid, c_seq = sq, c_ciphertext = ct, c_final = fin, c_v = v\<rparr>))))))"

section \<open>Receipt\<close>

text \<open>The metadata fields are read permissively, so whatever JSON the peer sent is what they hold.\<close>

record receipt =
  r_request_id :: string
  prompt_tokens :: int
  completion_tokens :: int
  r_engine :: json
  r_engine_version :: json
  r_hw_class :: json
  finish_reason :: string
  r_v :: int

definition receipt_to_dict :: "receipt \<Rightarrow> json" where
  "receipt_to_dict r =
     JObj [(''kind'', JStr KIND_RECEIPT), (''v'', JInt (r_v r)), (''request_id'', JStr (r_request_id r)),
       (''prompt_tokens'', JInt (prompt_tokens r)), (''completion_tokens'', JInt (completion_tokens r)),
       (''engine'', r_engine r), (''engine_version'', r_engine_version r), (''hw_class'', r_hw_class r),
       (''finish_reason'', JStr (finish_reason r))]"

definition read_count :: "(string \<times> json) list \<Rightarrow> string \<Rightarrow> proto_error + int" where
  "read_count d key =
     (case as_int (obj_get_or d key (JInt 0)) of
        None \<Rightarrow> Inl (BadCount key)
      | Some n \<Rightarrow> if n < 0 then Inl (BadCount key) else Inr n)"

definition receipt_from_dict :: "json \<Rightarrow> proto_error + receipt" where
  "receipt_from_dict j =
     rbind (as_object j) (\<lambda>d.
     rbind (check_version (obj_get d ''v'')) (\<lambda>v.
     rbind (read_count d ''prompt_tokens'') (\<lambda>pt.
     rbind (read_count d ''completion_tokens'') (\<lambda>ct.
     rbind (require_str d ''request_id'') (\<lambda>rid.
     Inr \<lparr>r_request_id = rid, prompt_tokens = pt, completion_tokens = ct,
          r_engine = obj_get_or d ''engine'' (JStr []),
          r_engine_version = obj_get_or d ''engine_version'' (JStr []),
          r_hw_class = obj_get_or d ''hw_class'' (JStr []),
          finish_reason = (case as_str (obj_get d ''finish_reason'') of None \<Rightarrow> [] | Some s \<Rightarrow> s),
          r_v = v\<rparr>)))))"

datatype frame = ChunkFrame chunk | ReceiptFrame receipt

definition parse_frame :: "(string \<times> json) list \<Rightarrow> proto_error + frame" where
  "parse_frame d =
     (if obj_get d ''kind'' = JStr KIND_CHUNK then rbind (chunk_from_dict (JObj d)) (\<lambda>c. Inr (ChunkFrame c))
      else if obj_get d ''kind'' = JStr KIND_RECEIPT then rbind (receipt_from_dict (JObj d)) (\<lambda>r. Inr (ReceiptFrame r))
      else Inl UnknownKind)"

section \<open>Streams of frames\<close>

text \<open>
  A line of an NDJSON stream is represented by what \<open>json.loads\<close> makes of it; \<open>Overlong\<close> is one with a number of
  more than 4300 digits, which is refused with a \<open>ValueError\<close> that is no \<open>JSONDecodeError\<close>. An HTTP client sees no
  connection, an error status (400 and above) with its body, or a response whose lines may be cut short by
  a transport error.
\<close>

datatype wire_line = Blank | Json json | Garbage string | Overlong

datatype peer_answer =
    Unreachable string
  | HttpStatus int string
  | PeerStream "wire_line list" "string option"

section \<open>Codecs\<close>

definition envelope_ok :: "envelope \<Rightarrow> bool" where
  "envelope_ok e \<longleftrightarrow> proto_v e = 1 \<and> request_id e \<noteq> [] \<and> sealed_key e \<noteq> [] \<and> iv e \<noteq> [] \<and> ciphertext e \<noteq> []
     \<and> sender e \<noteq> []"

definition chunk_ok :: "chunk \<Rightarrow> bool" where
  "chunk_ok c \<longleftrightarrow> c_v c = 1 \<and> 0 \<le> c_seq c \<and> c_request_id c \<noteq> [] \<and> c_ciphertext c \<noteq> []"

definition receipt_ok :: "receipt \<Rightarrow> bool" where
  "receipt_ok r \<longleftrightarrow> r_v r = 1 \<and> 0 \<le> prompt_tokens r \<and> 0 \<le> completion_tokens r \<and> r_request_id r \<noteq> []"

lemma check_version_Inr [simp]: "check_version v = Inr n \<longleftrightarrow> v = JInt 1 \<and> n = 1"
  by (auto simp: check_version_def SUPPORTED_VERSIONS_def split: option.splits)

lemma require_str_Inr [simp]: "require_str d k = Inr s \<longleftrightarrow> obj_get d k = JStr s \<and> s \<noteq> []"
  by (auto simp: require_str_def split: option.splits)

lemma read_count_Inr [simp]: "read_count d k = Inr n \<longleftrightarrow> obj_get_or d k (JInt 0) = JInt n \<and> 0 \<le> n"
  by (auto simp: read_count_def split: option.splits)

lemma as_object_Inr [simp]: "as_object j = Inr d \<longleftrightarrow> j = JObj d"
  by (auto simp: as_object_def split: option.splits)

lemmas from_dict_defs = envelope_from_dict_def chunk_from_dict_def receipt_from_dict_def

lemma envelope_from_dict_Inr: "envelope_from_dict j = Inr e \<Longrightarrow> envelope_ok e"
  by (auto simp: envelope_from_dict_def envelope_ok_def rbind_Inr_iff)

lemma chunk_from_dict_Inr: "chunk_from_dict j = Inr c \<Longrightarrow> chunk_ok c"
  by (auto simp: chunk_from_dict_def chunk_ok_def rbind_Inr_iff split: option.splits if_splits)

lemma receipt_from_dict_Inr: "receipt_from_dict j = Inr r \<Longrightarrow> receipt_ok r"
  by (auto simp: receipt_from_dict_def receipt_ok_def rbind_Inr_iff)

lemma envelope_from_to: "envelope_ok e \<Longrightarrow> envelope_from_dict (envelope_to_dict e) = Inr e"
  by (cases e; cases "sig e")
     (auto simp: envelope_from_dict_def envelope_to_dict_def envelope_fields_def envelope_ok_def rbind_Inr_iff
       optional_sig_def)

lemma chunk_from_to: "chunk_ok c \<Longrightarrow> chunk_from_dict (chunk_to_dict c) = Inr c"
  by (cases c) (auto simp: chunk_from_dict_def chunk_to_dict_def chunk_ok_def rbind_Inr_iff)

lemma receipt_from_to: "receipt_ok r \<Longrightarrow> receipt_from_dict (receipt_to_dict r) = Inr r"
  by (cases r) (auto simp: receipt_from_dict_def receipt_to_dict_def receipt_ok_def rbind_Inr_iff)

interpretation env_codec: wire_codec envelope_to_dict envelope_from_dict envelope_ok
  by unfold_locales (auto simp: envelope_from_to envelope_from_dict_Inr)

interpretation chunk_codec: wire_codec chunk_to_dict chunk_from_dict chunk_ok
  by unfold_locales (auto simp: chunk_from_to chunk_from_dict_Inr)

interpretation receipt_codec: wire_codec receipt_to_dict receipt_from_dict receipt_ok
  by unfold_locales (auto simp: receipt_from_to receipt_from_dict_Inr)

section \<open>What the signature covers\<close>

lemma envelope_fields_lookup:
  "obj_get (envelope_fields e) ''v'' = JInt (proto_v e)"
  "obj_get (envelope_fields e) ''request_id'' = JStr (request_id e)"
  "obj_get (envelope_fields e) ''sealed_key'' = JStr (sealed_key e)"
  "obj_get (envelope_fields e) ''iv'' = JStr (iv e)"
  "obj_get (envelope_fields e) ''ciphertext'' = JStr (ciphertext e)"
  "obj_get (envelope_fields e) ''sender'' = JStr (sender e)"
  "obj_get (envelope_fields e) ''ts'' = JNum (ts e)"
  by (simp_all add: envelope_fields_def)

lemma signed_bytes_ignores_sig: "signed_bytes frepr (e\<lparr>sig := s\<rparr>) = signed_bytes frepr e"
  by (simp add: signed_bytes_def envelope_fields_def)

lemma signed_bytes_inj:
  assumes ok: "float_repr_ok frepr" and "signed_bytes frepr e = Inr bs" "signed_bytes frepr e' = Inr bs"
  shows "e\<lparr>sig := s\<rparr> = e'\<lparr>sig := s\<rparr>"
proof -
  have "norm_keys (JObj (envelope_fields e)) = norm_keys (JObj (envelope_fields e'))"
    using assms by (intro canonical_inj) (simp_all add: signed_bytes_def)
  then have look: "map_option norm_keys (map_of (envelope_fields e) k) = map_option norm_keys (map_of (envelope_fields e') k)" for k
    by (rule norm_lookup) (simp_all add: envelope_fields_def)
  show ?thesis
    using look [of "''v''"] look [of "''request_id''"] look [of "''sealed_key''"] look [of "''iv''"]
      look [of "''ciphertext''"] look [of "''sender''"] look [of "''ts''"]
    by (cases e; cases e') (simp add: envelope_fields_def)
qed

section \<open>Properties\<close>

text \<open>
  the frames of a response stream survive the wire: what \<open>to_dict\<close> writes of a well-formed chunk or
  receipt, \<open>parse_frame\<close> reads back field for field, and whatever \<open>parse_frame\<close> accepts is well-formed
  (version 1, a request id, a sequence number and token counts that are not negative).
\<close>
theorem frames_survive_the_wire:
  assumes "chunk_ok c" "receipt_ok r"
  shows "(\<exists>d. chunk_to_dict c = JObj d \<and> parse_frame d = Inr (ChunkFrame c))
    \<and> (\<exists>d. receipt_to_dict r = JObj d \<and> parse_frame d = Inr (ReceiptFrame r))
    \<and> (\<forall>d f. parse_frame d = Inr f \<longrightarrow> (case f of ChunkFrame c \<Rightarrow> chunk_ok c | ReceiptFrame r \<Rightarrow> receipt_ok r))"
proof (intro conjI allI impI)
  show "\<exists>d. chunk_to_dict c = JObj d \<and> parse_frame d = Inr (ChunkFrame c)"
    using chunk_from_to [OF assms(1)] by (simp add: chunk_to_dict_def parse_frame_def)
  show "\<exists>d. receipt_to_dict r = JObj d \<and> parse_frame d = Inr (ReceiptFrame r)"
    using receipt_from_to [OF assms(2)]
    by (simp add: receipt_to_dict_def parse_frame_def KIND_CHUNK_def KIND_RECEIPT_def)
  show "case f of ChunkFrame c \<Rightarrow> chunk_ok c | ReceiptFrame r \<Rightarrow> receipt_ok r" if "parse_frame d = Inr f" for d f
    using that chunk_from_dict_Inr receipt_from_dict_Inr by (auto simp: parse_frame_def rbind_Inr_iff split: if_splits)
qed

definition demo_chunk :: chunk where
  "demo_chunk = \<lparr>c_request_id = ''r'', c_seq = 0, c_ciphertext = ''YQ=='', c_final = True, c_v = 1\<rparr>"

definition demo_receipt :: receipt where
  "demo_receipt = \<lparr>r_request_id = ''r'', prompt_tokens = 3, completion_tokens = 5, r_engine = JStr ''mock'',
     r_engine_version = JStr [], r_hw_class = JNull, finish_reason = ''stop'', r_v = 1\<rparr>"

theorem frames_survive_the_wire_witness: "\<exists>d. receipt_to_dict demo_receipt = JObj d \<and> parse_frame d = Inr (ReceiptFrame demo_receipt)"
  using frames_survive_the_wire [of demo_chunk demo_receipt]
  by (simp add: chunk_ok_def receipt_ok_def demo_chunk_def demo_receipt_def)

end
