(* ===== verification/Crypto.thy ===== *)
theory Crypto
  imports Envelope
begin

text \<open>
  \<open>crypto.py\<close>: sealing, unsealing and identity signatures over primitives that are not in the
  repository. The record \<open>crypto\<close> holds them as parameters (PyNaCl's Ed25519 and sealed boxes,
  AES-GCM, HKDF); \<open>crypto_laws\<close> states what is documented of them and used here. What the
  repository adds is modelled: the key derivation guard, the counter nonce, which bytes are
  signed, and which failure becomes which exception.
\<close>

record crypto =
  ed_sign :: "bytes \<Rightarrow> bytes \<Rightarrow> bytes" \<comment> \<open>seed, message\<close>
  ed_pub :: "bytes \<Rightarrow> bytes"
  ed_verify :: "bytes \<Rightarrow> bytes \<Rightarrow> bytes \<Rightarrow> bool" \<comment> \<open>public key, message, signature; bad lengths are False\<close>
  box_pub :: "bytes \<Rightarrow> bytes"
  box_seal :: "bytes \<Rightarrow> bytes \<Rightarrow> bytes \<Rightarrow> bytes" \<comment> \<open>recipient, ephemeral randomness, message\<close>
  box_open :: "bytes \<Rightarrow> bytes \<Rightarrow> bytes option" \<comment> \<open>private key, box\<close>
  aead_enc :: "bytes \<Rightarrow> bytes \<Rightarrow> bytes \<Rightarrow> bytes" \<comment> \<open>key, nonce, plaintext\<close>
  aead_dec :: "bytes \<Rightarrow> bytes \<Rightarrow> bytes \<Rightarrow> bytes option"
  hkdf :: "bytes \<Rightarrow> bytes \<Rightarrow> bytes" \<comment> \<open>secret, info\<close>
  float_repr :: "rat \<Rightarrow> string"

text \<open>
  A signature made with a seed verifies under its public key; a box opens with the key it was
  sealed to; decryption undoes encryption, and what decrypts is the encryption of what it
  decrypts to (the tag is recomputed); a ciphertext carries a tag, so it is never empty.
\<close>

definition crypto_laws :: "crypto \<Rightarrow> bool" where
  "crypto_laws K \<longleftrightarrow>
     (\<forall>sk m. ed_verify K (ed_pub K sk) m (ed_sign K sk m))
   \<and> (\<forall>sk r m. box_open K sk (box_seal K (box_pub K sk) r m) = Some m)
   \<and> (\<forall>k n m. aead_dec K k n (aead_enc K k n m) = Some m)
   \<and> (\<forall>k n c m. aead_dec K k n c = Some m \<longrightarrow> c = aead_enc K k n m)
   \<and> (\<forall>k n m. aead_enc K k n m \<noteq> [])"

datatype seal_error =
    MasterLength
  | SeqOutOfRange
  | KeyNotOpenable
  | RequestAuthFailed
  | ChunkAuthFailed int
  | BadPublicKey \<comment> \<open>PyNaCl's \<open>PublicKey\<close>: not 32 bytes\<close>

definition MASTER_LEN :: nat where "MASTER_LEN = 32"
definition NONCE_LEN :: nat where "NONCE_LEN = 12"
definition INFO_REQUEST :: bytes where "INFO_REQUEST = utf8 ''commonweal/v1/request''"
definition INFO_RESPONSE :: bytes where "INFO_RESPONSE = utf8 ''commonweal/v1/response''"

definition derive :: "crypto \<Rightarrow> bytes \<Rightarrow> bytes \<Rightarrow> seal_error + bytes" where
  "derive K master info = (if length master \<noteq> MASTER_LEN then Inl MasterLength else Inr (hkdf K master info))"

text \<open>\<open>int.to_bytes(n, "big")\<close> of a number that fits.\<close>

fun to_bytes_big :: "nat \<Rightarrow> nat \<Rightarrow> bytes" where
  "to_bytes_big 0 v = []"
| "to_bytes_big (Suc n) v = to_bytes_big n (v div 256) @ [of_nat (v mod 256)]"

definition chunk_nonce :: "int \<Rightarrow> seal_error + bytes" where
  "chunk_nonce sq =
     (if sq < 0 \<or> 2 ^ (8 * NONCE_LEN) \<le> sq then Inl SeqOutOfRange else Inr (to_bytes_big NONCE_LEN (nat sq)))"

text \<open>The random master secret, the iv and the box's ephemeral randomness are arguments.\<close>

definition seal_request :: "crypto \<Rightarrow> bytes \<Rightarrow> bytes \<Rightarrow> string \<Rightarrow> string \<Rightarrow> pynum \<Rightarrow> bytes \<Rightarrow> bytes \<Rightarrow> bytes
    \<Rightarrow> seal_error + envelope \<times> bytes" where
  "seal_request K payload recipient_enc_pub rid sndr t master ivec eph =
     rbind (derive K master INFO_REQUEST) (\<lambda>key.
     if length recipient_enc_pub \<noteq> 32 then Inl BadPublicKey
     else Inr (\<lparr>request_id = rid,
        sealed_key = b64 (box_seal K recipient_enc_pub eph master),
        iv = b64 ivec,
        ciphertext = b64 (aead_enc K key ivec payload),
        sender = sndr, ts = t, sig = None, proto_v = PROTO_VERSION\<rparr>, master))"

definition unseal_request :: "crypto \<Rightarrow> envelope \<Rightarrow> bytes \<Rightarrow> seal_error + bytes \<times> bytes" where
  "unseal_request K e priv =
     rbind (case unb64 (sealed_key e) of
         Inl err \<Rightarrow> Inl KeyNotOpenable
       | Inr box \<Rightarrow> (case box_open K priv box of None \<Rightarrow> Inl KeyNotOpenable | Some m \<Rightarrow> Inr m)) (\<lambda>master.
     case derive K master INFO_REQUEST of
       Inl err \<Rightarrow> Inl RequestAuthFailed
     | Inr key \<Rightarrow>
         (case unb64 (iv e) of
            Inl err \<Rightarrow> Inl RequestAuthFailed
          | Inr ivec \<Rightarrow>
              (case unb64 (ciphertext e) of
                 Inl err \<Rightarrow> Inl RequestAuthFailed
               | Inr ct \<Rightarrow>
                   (case aead_dec K key ivec ct of
                      None \<Rightarrow> Inl RequestAuthFailed
                    | Some payload \<Rightarrow> Inr (payload, master)))))"

definition seal_chunk :: "crypto \<Rightarrow> bytes \<Rightarrow> bytes \<Rightarrow> int \<Rightarrow> seal_error + string" where
  "seal_chunk K data master sq =
     rbind (derive K master INFO_RESPONSE) (\<lambda>key.
     rbind (chunk_nonce sq) (\<lambda>nonce.
     Inr (b64 (aead_enc K key nonce data))))"

definition unseal_chunk :: "crypto \<Rightarrow> string \<Rightarrow> bytes \<Rightarrow> int \<Rightarrow> seal_error + bytes" where
  "unseal_chunk K ct master sq =
     rbind (derive K master INFO_RESPONSE) (\<lambda>key.
     case chunk_nonce sq of
       Inl err \<Rightarrow> Inl (ChunkAuthFailed sq)
     | Inr nonce \<Rightarrow>
         (case unb64 ct of
            Inl err \<Rightarrow> Inl (ChunkAuthFailed sq)
          | Inr raw \<Rightarrow>
              (case aead_dec K key nonce raw of
                 None \<Rightarrow> Inl (ChunkAuthFailed sq)
               | Some data \<Rightarrow> Inr data)))"

definition sign_envelope :: "crypto \<Rightarrow> envelope \<Rightarrow> bytes \<Rightarrow> value_error + envelope" where
  "sign_envelope K e seed =
     rbind (signed_bytes (float_repr K) e) (\<lambda>bs. Inr (e\<lparr>sig := Some (b64 (ed_sign K seed bs))\<rparr>))"

definition verify_envelope :: "crypto \<Rightarrow> envelope \<Rightarrow> bytes \<Rightarrow> proto_error + unit" where
  "verify_envelope K e key =
     (case sig e of
        None \<Rightarrow> Inl Unsigned
      | Some s \<Rightarrow>
          (case signed_bytes (float_repr K) e of
             Inl err \<Rightarrow> Inl BadSignature
           | Inr bs \<Rightarrow>
               (case unb64 s of
                  Inl err \<Rightarrow> Inl BadSignature
                | Inr raw \<Rightarrow> if ed_verify K key bs raw then Inr () else Inl BadSignature)))"

definition sign_bytes :: "crypto \<Rightarrow> bytes \<Rightarrow> bytes \<Rightarrow> string" where
  "sign_bytes K payload seed = b64 (ed_sign K seed payload)"

definition verify_bytes :: "crypto \<Rightarrow> bytes \<Rightarrow> string \<Rightarrow> bytes \<Rightarrow> proto_error + unit" where
  "verify_bytes K payload s key =
     (case unb64 s of
        Inl err \<Rightarrow> Inl BadSignature
      | Inr raw \<Rightarrow> if ed_verify K key payload raw then Inr () else Inl BadSignature)"

section \<open>Counter nonces\<close>

lemma to_bytes_big_length [simp]: "length (to_bytes_big n v) = n"
  by (induction n arbitrary: v) auto

lemma to_bytes_big_inj: "v < 256 ^ n \<Longrightarrow> w < 256 ^ n \<Longrightarrow> to_bytes_big n v = to_bytes_big n w \<Longrightarrow> v = w"
proof (induction n arbitrary: v w)
  case (Suc n)
  have small: "v div 256 < 256 ^ n" "w div 256 < 256 ^ n"
    using Suc.prems(1,2) by (simp_all add: div_less_iff_less_mult mult.commute)
  from Suc.prems(3) have "to_bytes_big n (v div 256) = to_bytes_big n (w div 256)"
    and "(of_nat (v mod 256) :: 8 word) = of_nat (w mod 256)" by simp_all
  moreover from this(2) have "unat (of_nat (v mod 256) :: 8 word) = unat (of_nat (w mod 256) :: 8 word)" by simp
  then have "v mod 256 = w mod 256" by (simp add: unat_of_nat_byte)
  ultimately have "v div 256 = w div 256" "v mod 256 = w mod 256" using Suc.IH small by auto
  then show ?case by (metis div_mult_mod_eq)
qed simp

lemma chunk_nonce_Inr: "chunk_nonce sq = Inr n \<Longrightarrow> 0 \<le> sq \<and> sq < 2 ^ 96 \<and> length n = 12"
  by (auto simp: chunk_nonce_def NONCE_LEN_def split: if_splits)

lemma chunk_nonce_total: "0 \<le> sq \<Longrightarrow> sq < 2 ^ 96 \<Longrightarrow> \<exists>n. chunk_nonce sq = Inr n"
  by (auto simp: chunk_nonce_def NONCE_LEN_def)

lemma chunk_nonce_inj:
  assumes "chunk_nonce s = Inr n" "chunk_nonce s' = Inr n"
  shows "s = s'"
proof -
  have b: "0 \<le> s" "s < 2 ^ 96" "0 \<le> s'" "s' < 2 ^ 96" using assms chunk_nonce_Inr by blast+
  have "(256 :: nat) ^ 12 = 2 ^ 96" by simp
  with b have "nat s < 256 ^ 12" "nat s' < 256 ^ 12" by (simp_all add: nat_less_iff)
  moreover have "to_bytes_big 12 (nat s) = to_bytes_big 12 (nat s')"
    using assms by (auto simp: chunk_nonce_def NONCE_LEN_def split: if_splits)
  ultimately have "nat s = nat s'" by (rule to_bytes_big_inj)
  with b show ?thesis by simp
qed

section \<open>Round trips\<close>

lemma crypto_lawsD:
  assumes "crypto_laws K"
  shows "ed_verify K (ed_pub K sk) m (ed_sign K sk m)"
    and "box_open K sk (box_seal K (box_pub K sk) r m) = Some m"
    and "aead_dec K k n (aead_enc K k n m) = Some m"
    and "aead_dec K k n c = Some m \<Longrightarrow> c = aead_enc K k n m"
    and "aead_enc K k n m \<noteq> []"
  using assms by (auto simp: crypto_laws_def)

lemma b64_Nil_iff [simp]: "b64 bs = [] \<longleftrightarrow> bs = []"
  by (cases bs rule: b64.cases) auto

lemma unseal_seal_request:
  assumes "crypto_laws K" "seal_request K payload (box_pub K priv) rid sndr t master ivec eph = Inr (e, m)"
  shows "unseal_request K e priv = Inr (payload, master) \<and> m = master"
  using assms crypto_lawsD [OF assms(1)]
  by (auto simp: seal_request_def unseal_request_def rbind_Inr_iff unb64_b64 split: if_splits)

lemma seal_chunk_Inr:
  "seal_chunk K data master sq = Inr ct \<longleftrightarrow>
     length master = 32 \<and> (\<exists>n. chunk_nonce sq = Inr n \<and> ct = b64 (aead_enc K (hkdf K master INFO_RESPONSE) n data))"
  by (auto simp: seal_chunk_def derive_def MASTER_LEN_def rbind_Inr_iff)

lemma unseal_chunk_Inr:
  "unseal_chunk K ct master sq = Inr data \<longleftrightarrow>
     length master = 32 \<and> (\<exists>n raw. chunk_nonce sq = Inr n \<and> unb64 ct = Inr raw
       \<and> aead_dec K (hkdf K master INFO_RESPONSE) n raw = Some data)"
  by (auto simp: unseal_chunk_def derive_def MASTER_LEN_def rbind_Inr_iff split: sum.splits option.splits)

lemma unseal_seal_chunk:
  "crypto_laws K \<Longrightarrow> seal_chunk K data master sq = Inr ct \<Longrightarrow> unseal_chunk K ct master sq = Inr data"
  by (auto simp: seal_chunk_Inr unseal_chunk_Inr unb64_b64 dest: crypto_lawsD(3))

lemma seal_chunk_nonempty: "crypto_laws K \<Longrightarrow> seal_chunk K data master sq = Inr ct \<Longrightarrow> ct \<noteq> []"
  by (auto simp: seal_chunk_Inr dest: crypto_lawsD(5))

lemma verify_sign_bytes:
  "crypto_laws K \<Longrightarrow> verify_bytes K payload (sign_bytes K payload seed) (ed_pub K seed) = Inr ()"
  by (simp add: verify_bytes_def sign_bytes_def unb64_b64 crypto_lawsD(1))

lemma verify_sign_envelope:
  assumes "crypto_laws K" "sign_envelope K e seed = Inr e'"
  shows "verify_envelope K e' (ed_pub K seed) = Inr ()"
proof -
  from assms(2) obtain bs where bs: "signed_bytes (float_repr K) e = Inr bs"
    and e': "e' = e\<lparr>sig := Some (b64 (ed_sign K seed bs))\<rparr>"
    by (auto simp: sign_envelope_def rbind_Inr_iff)
  then show ?thesis
    using assms(1) by (simp add: verify_envelope_def signed_bytes_ignores_sig unb64_b64 crypto_lawsD(1))
qed

lemma verify_envelope_Inr:
  "verify_envelope K e key = Inr () \<longleftrightarrow>
     (\<exists>s bs raw. sig e = Some s \<and> signed_bytes (float_repr K) e = Inr bs \<and> unb64 s = Inr raw \<and> ed_verify K key bs raw)"
  by (auto simp: verify_envelope_def split: option.splits sum.splits)

section \<open>A concrete instance\<close>

text \<open>
  Primitives that satisfy the laws, for evaluating closed instances: encryption prepends the key
  and the nonce, a signature is the key followed by the message.
\<close>

definition strip_prefix :: "bytes \<Rightarrow> bytes \<Rightarrow> bytes option" where
  "strip_prefix p c = (if p \<noteq> [] \<and> take (length p) c = p then Some (drop (length p) c) else None)"

definition demo_float_repr :: "rat \<Rightarrow> string" where
  "demo_float_repr r = show_int (fst (quotient_of r)) @ CHR ''.'' # show_int (snd (quotient_of r))"

definition demo_crypto :: crypto where
  "demo_crypto = \<lparr>ed_sign = (\<lambda>sk m. sk @ m), ed_pub = (\<lambda>sk. sk), ed_verify = (\<lambda>pk m s. s = pk @ m),
     box_pub = (\<lambda>sk. sk), box_seal = (\<lambda>pk r m. 1 # pk @ m), box_open = (\<lambda>sk. strip_prefix (1 # sk)),
     aead_enc = (\<lambda>k n m. 1 # n @ k @ m), aead_dec = (\<lambda>k n. strip_prefix (1 # n @ k)),
     hkdf = (\<lambda>s i. s @ i), float_repr = demo_float_repr\<rparr>"

lemma strip_prefix_Some: "strip_prefix p c = Some m \<longleftrightarrow> p \<noteq> [] \<and> c = p @ m"
  by (auto simp: strip_prefix_def) (metis append_take_drop_id)

lemma demo_crypto_laws: "crypto_laws demo_crypto"
  by (auto simp: crypto_laws_def demo_crypto_def strip_prefix_Some)

lemma demo_float_repr_ok: "float_repr_ok demo_float_repr"
proof -
  have dot: "CHR ''.'' \<notin> set (show_int n)" for n using show_int_chars [of "CHR ''.''" n] by (auto simp: is_digit_def)
  have split: "takeWhile (\<lambda>c. c \<noteq> CHR ''.'') (show_int a @ CHR ''.'' # u) = show_int a" for a u
    using dot by (subst takeWhile_append2) auto
  have "inj demo_float_repr"
  proof (rule injI)
    fix r s assume eq: "demo_float_repr r = demo_float_repr s"
    then have "show_int (fst (quotient_of r)) = show_int (fst (quotient_of s))"
      unfolding demo_float_repr_def by (metis split)
    moreover from this eq have "show_int (snd (quotient_of r)) = show_int (snd (quotient_of s))"
      by (simp add: demo_float_repr_def)
    ultimately have "quotient_of r = quotient_of s"
      by (auto dest!: show_int_inj intro: prod_eqI)
    then show "r = s" by (simp add: quotient_of_inject)
  qed
  moreover have "is_digit c \<or> c = CHR ''+'' \<or> c = CHR ''-'' \<or> c = CHR ''.'' \<or> c = CHR ''e''"
    if "c \<in> set (demo_float_repr r)" for c r
    using that show_int_chars by (auto simp: demo_float_repr_def)
  moreover have "is_digit (hd (demo_float_repr r)) \<or> hd (demo_float_repr r) = CHR ''-''" for r
    using show_int_hd [of "fst (quotient_of r)"] show_int_nonempty by (simp add: demo_float_repr_def hd_append)
  ultimately show ?thesis by (simp add: float_repr_ok_def demo_float_repr_def)
qed

section \<open>Properties\<close>

text \<open>
  C35: nothing of a signed envelope can be changed: with a signature scheme whose signatures verify for the
  message they were made for only, an envelope that carries another envelope's signature verifies if and
  only if every signed field (version, request id, sealed key, iv, ciphertext, sender, time) is the same.
\<close>
theorem signature_covers_envelope:
  assumes "crypto_laws K" "float_repr_ok (float_repr K)"
    and binding: "\<And>m m'. ed_verify K (ed_pub K seed) m' (ed_sign K seed m) \<Longrightarrow> m' = m"
    and "sign_envelope K e seed = Inr e1" "sig e2 = sig e1"
  shows "verify_envelope K e2 (ed_pub K seed) = Inr () \<longleftrightarrow> e2 = e1"
proof
  assume "verify_envelope K e2 (ed_pub K seed) = Inr ()"
  then obtain s bs raw where v: "sig e2 = Some s" "signed_bytes (float_repr K) e2 = Inr bs" "unb64 s = Inr raw"
      "ed_verify K (ed_pub K seed) bs raw"
    by (auto simp: verify_envelope_Inr)
  obtain bs' where s: "signed_bytes (float_repr K) e = Inr bs'" "e1 = e\<lparr>sig := Some (b64 (ed_sign K seed bs'))\<rparr>"
    using assms(4) by (auto simp: sign_envelope_def rbind_Inr_iff)
  have "raw = ed_sign K seed bs'" using v(1,3) s(2) assms(5) by (auto simp: unb64_b64)
  then have "bs = bs'" using v(4) by (intro binding) simp
  then have "e2\<lparr>sig := sig e2\<rparr> = e\<lparr>sig := sig e2\<rparr>"
    using assms(2) v(2) s(1) by (intro signed_bytes_inj) auto
  moreover have "sig e2 = Some (b64 (ed_sign K seed bs'))" using assms(5) s(2) by simp
  ultimately have "e2\<lparr>sig := sig e2\<rparr> = e1" using s(2) by simp
  then show "e2 = e1" by simp
next
  assume "e2 = e1"
  then show "verify_envelope K e2 (ed_pub K seed) = Inr ()" using verify_sign_envelope [OF assms(1,4)] by simp
qed

text \<open>
  C36: a sealed response cannot be reordered or replayed at another position: with an AEAD whose ciphertext
  determines its nonce, what was sealed as chunk \<open>n\<close> opens as chunk \<open>n\<close>, to what was sealed, and as no other.
\<close>
theorem chunk_opens_in_its_place:
  assumes "crypto_laws K"
    and committing: "\<And>k n n' m m'. length n = length n' \<Longrightarrow> aead_enc K k n m = aead_enc K k n' m' \<Longrightarrow> n = n' \<and> m = m'"
    and "seal_chunk K data master sq = Inr ct"
  shows "unseal_chunk K ct master sq' = Inr data' \<longleftrightarrow> sq' = sq \<and> data' = data"
proof
  let ?k = "hkdf K master INFO_RESPONSE"
  assume "unseal_chunk K ct master sq' = Inr data'"
  then obtain n n' where n: "chunk_nonce sq' = Inr n'" "chunk_nonce sq = Inr n" "aead_enc K ?k n data = aead_enc K ?k n' data'"
    using assms(3) crypto_lawsD(4) [OF assms(1)] by (fastforce simp: unseal_chunk_Inr seal_chunk_Inr unb64_b64)
  moreover from n have "length n = length n'" using chunk_nonce_Inr by metis
  ultimately have "n' = n" "data' = data" using committing [of n n' ?k data data'] by auto
  with n show "sq' = sq \<and> data' = data" using chunk_nonce_inj by blast
next
  assume "sq' = sq \<and> data' = data"
  then show "unseal_chunk K ct master sq' = Inr data'" using unseal_seal_chunk [OF assms(1,3)] by simp
qed

definition demo_request_envelope :: envelope where
  "demo_request_envelope = \<lparr>request_id = ''r'', sealed_key = ''k'', iv = ''i'', ciphertext = ''c'', sender = ''m'',
     ts = IntN 5, sig = None, proto_v = 1\<rparr>"

theorem signature_covers_envelope_witness:
  "\<exists>e1. sign_envelope demo_crypto demo_request_envelope [7] = Inr e1
     \<and> verify_envelope demo_crypto (e1\<lparr>sender := ''x''\<rparr>) (ed_pub demo_crypto [7]) \<noteq> Inr ()"
proof -
  obtain e1 where e1: "sign_envelope demo_crypto demo_request_envelope [7] = Inr e1"
    by (simp add: sign_envelope_def signed_bytes_def canonical_def envelope_fields_def demo_request_envelope_def)
  then have "sender e1 = ''m''" by (auto simp: sign_envelope_def rbind_Inr_iff demo_request_envelope_def)
  moreover have "sender (e1\<lparr>sender := ''x''\<rparr>) = ''x''" by simp
  ultimately have "e1\<lparr>sender := ''x''\<rparr> \<noteq> e1" by force
  moreover have "verify_envelope demo_crypto (e1\<lparr>sender := ''x''\<rparr>) (ed_pub demo_crypto [7]) = Inr () \<longleftrightarrow> e1\<lparr>sender := ''x''\<rparr> = e1"
  proof (rule signature_covers_envelope [OF demo_crypto_laws _ _ e1])
    show "float_repr_ok (float_repr demo_crypto)" by (simp add: demo_crypto_def demo_float_repr_ok)
    show "m' = m" if "ed_verify demo_crypto (ed_pub demo_crypto [7]) m' (ed_sign demo_crypto [7] m)" for m m'
      using that by (simp add: demo_crypto_def)
  qed simp
  ultimately have "verify_envelope demo_crypto (e1\<lparr>sender := ''x''\<rparr>) (ed_pub demo_crypto [7]) \<noteq> Inr ()" by simp
  with e1 show ?thesis by blast
qed

theorem chunk_opens_in_its_place_witness:
  "\<exists>ct. seal_chunk demo_crypto [1] (replicate 32 0) 0 = Inr ct \<and> unseal_chunk demo_crypto ct (replicate 32 0) 1 \<noteq> Inr [1]"
proof -
  obtain ct where ct: "seal_chunk demo_crypto [1] (replicate 32 0) 0 = Inr ct"
    using chunk_nonce_total [of 0] by (auto simp: seal_chunk_Inr)
  with chunk_opens_in_its_place [OF demo_crypto_laws _ ct, of 1 "[1]"] show ?thesis
    by (simp add: demo_crypto_def)
qed

end
