(* ===== verification/Roster.thy ===== *)
theory Roster
  imports Crypto
begin

text \<open>
  \<open>roster.py\<close>: the signed roster. Parsing a decoded JSON document with every check in the code's
  order, the lookups, the bytes the admin signatures cover, and \<open>load\<close>, which verifies. A failure is
  a \<open>RosterError\<close> with its reason, or a \<open>Crash\<close>: an exception of another class that leaves the
  parser. A number that is an infinity or a NaN is refused where it is converted, with the
  \<open>ValueError\<close> the canonical encoder raises for it when the roster's bytes are made.
\<close>

datatype roster_reason =
    FieldType string string \<comment> \<open>where, field\<close>
  | ContributorNotObject
  | NonPositiveShare string
  | BadMaxConcurrent
  | ContributorsNotList
  | DuplicateContributor
  | CapacityNotNumber
  | CapacityMismatch
  | UnknownMember string
  | UnknownPeer string
  | RosterNotObject
  | BadProtocol proto_error
  | BadRosterVersion
  | DuplicateMember
  | DuplicatePeer
  | OwnerUnknown string
  | CreditsUnknown string
  | AdminNotMember
  | NoAdmins
  | Rollback
  | NoTrustedKeys
  | RosterUnsigned
  | SignerNotAdmin string
  | NoTrustedSignature
  | NotContributor string string

datatype crash = AttributeError | TypeError | OverflowError | OperationalError | ValueError value_error

datatype roster_error = RosterError roster_reason | Crash crash

section \<open>Members, contributions, peers\<close>

datatype pytype = TStr | TInt

text \<open>\<open>_req\<close>: the field must be there with the type; a bool does not pass for an int.\<close>

definition req :: "(string \<times> json) list \<Rightarrow> string \<Rightarrow> pytype \<Rightarrow> string \<Rightarrow> roster_error + json" where
  "req d key typ place =
     (let v = obj_get d key in
      case typ of
        TStr \<Rightarrow> if as_str v = None then Inl (RosterError (FieldType place key)) else Inr v
      | TInt \<Rightarrow> if as_int v = None then Inl (RosterError (FieldType place key)) else Inr v)"

definition req_str :: "(string \<times> json) list \<Rightarrow> string \<Rightarrow> string \<Rightarrow> roster_error + string" where
  "req_str d key place =
     rbind (req d key TStr place) (\<lambda>v. case as_str v of None \<Rightarrow> Inl (Crash TypeError) | Some s \<Rightarrow> Inr s)"

text \<open>\<open>d.get\<close> on something that is not a dict raises \<open>AttributeError\<close>.\<close>

definition need_dict :: "json \<Rightarrow> roster_error + (string \<times> json) list" where
  "need_dict j = (case as_obj j of None \<Rightarrow> Inl (Crash AttributeError) | Some d \<Rightarrow> Inr d)"

definition to_float :: "pynum \<Rightarrow> roster_error + rat" where
  "to_float x =
     (case x of
        IntN n \<Rightarrow> if float_overflows n then Inl (Crash OverflowError) else Inr (of_int n)
      | Flt r \<Rightarrow> Inr r
      | Inf b \<Rightarrow> Inl (Crash (ValueError NonFiniteJson))
      | NaN \<Rightarrow> Inl (Crash (ValueError NonFiniteJson)))"

record member =
  m_id :: string
  m_sign_pub :: string
  m_enc_pub :: string
  m_role :: json
  m_joined :: json

definition member_from_dict :: "json \<Rightarrow> roster_error + member" where
  "member_from_dict j =
     rbind (need_dict j) (\<lambda>d.
     rbind (req_str d ''id'' ''member'') (\<lambda>mid.
     rbind (req_str d ''sign_pub'' (''member '' @ mid)) (\<lambda>sp.
     rbind (req_str d ''enc_pub'' (''member '' @ mid)) (\<lambda>ep.
     Inr \<lparr>m_id = mid, m_sign_pub = sp, m_enc_pub = ep, m_role = obj_get_or d ''role'' (JStr ''member''),
          m_joined = obj_get_or d ''joined'' (JStr [])\<rparr>))))"

record contribution =
  con_member :: string
  con_gb :: rat

definition contribution_from_dict :: "json \<Rightarrow> string \<Rightarrow> roster_error + contribution" where
  "contribution_from_dict j place =
     (case as_obj j of
        None \<Rightarrow> Inl (RosterError ContributorNotObject)
      | Some d \<Rightarrow>
          rbind (req_str d ''member'' place) (\<lambda>mem.
          case as_num (obj_get d ''gb'') of
            None \<Rightarrow> Inl (RosterError (NonPositiveShare mem))
          | Some x \<Rightarrow>
              if x = IntN 0 \<or> x = Flt 0 \<or> num_lt x 0 then Inl (RosterError (NonPositiveShare mem))
              else rbind (to_float x) (\<lambda>gb. Inr \<lparr>con_member = mem, con_gb = gb\<rparr>)))"

record peer =
  p_id :: string
  p_owner :: string
  p_enc_pub :: string
  p_endpoint :: string
  p_model :: string
  p_engine :: json
  p_engine_version :: json
  p_hw_class :: json
  p_capacity_gb :: rat
  p_max_concurrent :: int
  p_availability :: json
  p_shards :: "json list"
  p_attestation :: json
  p_contributors :: "contribution list"

definition total_gb :: "contribution list \<Rightarrow> rat" where
  "total_gb cs = sum_list (map con_gb cs)"

definition credit_split :: "peer \<Rightarrow> rat \<Rightarrow> (string \<times> rat) list" where
  "credit_split p resident_gb =
     (if p_contributors p = [] then [(p_owner p, resident_gb)]
      else (let total = total_gb (p_contributors p) in
        if total \<le> 0 then []
        else map (\<lambda>c. (con_member c, resident_gb * con_gb c / total)) (p_contributors p)))"

definition capacity_of :: "json \<Rightarrow> contribution list \<Rightarrow> roster_error + rat" where
  "capacity_of declared cs =
     (if declared \<noteq> JNull \<and> as_num declared = None then Inl (RosterError CapacityNotNumber)
      else if cs \<noteq> [] \<and> (declared = JNum (Inf True) \<or> declared = JNum (Inf False)) then Inl (RosterError CapacityMismatch)
      else rbind (case as_num declared of None \<Rightarrow> Inr 0 | Some x \<Rightarrow> to_float x) (\<lambda>cap.
        if cs \<noteq> [] \<and> (declared = JNull \<or> cap = 0) then Inr (total_gb cs)
        else if cs \<noteq> [] \<and> 1 / 100 < \<bar>cap - total_gb cs\<bar> then Inl (RosterError CapacityMismatch)
        else Inr cap))"

definition list_of :: "json \<Rightarrow> roster_error + json list" where
  "list_of v = (case iterate v of None \<Rightarrow> Inl (Crash TypeError) | Some xs \<Rightarrow> Inr xs)"

text \<open>An int that is not a bool and at least 1; \<open>d.get("contributors") or []\<close> as a list.\<close>

definition positive_int :: "json \<Rightarrow> roster_reason \<Rightarrow> roster_error + int" where
  "positive_int v e =
     (case as_int v of
        None \<Rightarrow> Inl (RosterError e)
      | Some n \<Rightarrow> if n < 1 then Inl (RosterError e) else Inr n)"

definition raw_contributors :: "json \<Rightarrow> roster_error + json list" where
  "raw_contributors raw =
     (if \<not> truthy raw then Inr []
      else (case as_list raw of None \<Rightarrow> Inl (RosterError ContributorsNotList) | Some xs \<Rightarrow> Inr xs))"

definition peer_from_dict :: "json \<Rightarrow> roster_error + peer" where
  "peer_from_dict j =
     rbind (need_dict j) (\<lambda>d.
     rbind (req_str d ''id'' ''peer'') (\<lambda>pid.
     let loc = ''peer '' @ pid in
     rbind (positive_int (obj_get_or d ''max_concurrent'' (JInt 1)) BadMaxConcurrent) (\<lambda>max_conc.
     rbind (raw_contributors (obj_get d ''contributors'')) (\<lambda>raw.
     rbind (rmap (\<lambda>c. contribution_from_dict c loc) raw) (\<lambda>cs.
     rbind (guard (distinct (map con_member cs)) (RosterError DuplicateContributor)) (\<lambda>_.
     rbind (capacity_of (obj_get d ''capacity_gb'') cs) (\<lambda>cap.
     rbind (req_str d ''owner'' loc) (\<lambda>own.
     rbind (req_str d ''enc_pub'' loc) (\<lambda>ep.
     rbind (req_str d ''endpoint'' loc) (\<lambda>endp.
     rbind (req_str d ''model'' loc) (\<lambda>mdl.
     rbind (list_of (obj_get_or d ''shards'' (JList []))) (\<lambda>sh.
     Inr \<lparr>p_id = pid, p_owner = own, p_enc_pub = ep, p_endpoint = endp, p_model = mdl,
       p_engine = obj_get_or d ''engine'' (JStr ''unknown''),
       p_engine_version = obj_get_or d ''engine_version'' (JStr ''unknown''),
       p_hw_class = obj_get_or d ''hw_class'' (JStr ''unknown''),
       p_capacity_gb = cap, p_max_concurrent = max_conc,
       p_availability = obj_get d ''availability'', p_shards = sh,
       p_attestation = obj_get d ''attestation'', p_contributors = cs\<rparr>))))))))))))"

section \<open>The roster\<close>

record roster =
  federation_id :: string
  roster_version :: int
  updated :: json
  admins :: "string list"
  members :: "(string, member) dict"
  peers :: "(string, peer) dict"
  signatures :: "json list"
  roster_v :: int

definition roster_member :: "roster \<Rightarrow> string \<Rightarrow> roster_error + member" where
  "roster_member r mid =
     (case map_of (members r) mid of None \<Rightarrow> Inl (RosterError (UnknownMember mid)) | Some m \<Rightarrow> Inr m)"

definition roster_peer :: "roster \<Rightarrow> string \<Rightarrow> roster_error + peer" where
  "roster_peer r pid =
     (case map_of (peers r) pid of None \<Rightarrow> Inl (RosterError (UnknownPeer pid)) | Some p \<Rightarrow> Inr p)"

definition peers_for_model :: "roster \<Rightarrow> string \<Rightarrow> peer list" where
  "peers_for_model r mdl = filter (\<lambda>p. p_model p = mdl) (map snd (peers r))"

definition member_fields :: "member \<Rightarrow> (string \<times> json) list" where
  "member_fields m =
     [(''id'', JStr (m_id m)), (''sign_pub'', JStr (m_sign_pub m)), (''enc_pub'', JStr (m_enc_pub m)),
      (''role'', m_role m), (''joined'', m_joined m)]"

definition member_json :: "member \<Rightarrow> json" where
  "member_json m = JObj (member_fields m)"

definition contribution_json :: "contribution \<Rightarrow> json" where
  "contribution_json c = JObj [(''member'', JStr (con_member c)), (''gb'', JNum (Flt (con_gb c)))]"

text \<open>\<open>contributors\<close> is left out when it is empty.\<close>

definition peer_fields :: "peer \<Rightarrow> (string \<times> json) list" where
  "peer_fields p =
     [(''id'', JStr (p_id p)), (''owner'', JStr (p_owner p)), (''enc_pub'', JStr (p_enc_pub p)),
      (''endpoint'', JStr (p_endpoint p)), (''model'', JStr (p_model p)), (''engine'', p_engine p),
      (''engine_version'', p_engine_version p), (''hw_class'', p_hw_class p),
      (''capacity_gb'', JNum (Flt (p_capacity_gb p))), (''max_concurrent'', JInt (p_max_concurrent p)),
      (''availability'', p_availability p), (''shards'', JList (p_shards p)),
      (''attestation'', p_attestation p)]
      @ (if p_contributors p = [] then []
         else [(''contributors'', JList (map contribution_json (p_contributors p)))])"

definition peer_json :: "peer \<Rightarrow> json" where
  "peer_json p = JObj (peer_fields p)"

definition roster_body :: "roster \<Rightarrow> (string \<times> json) list" where
  "roster_body r =
     [(''v'', JInt (roster_v r)), (''federation_id'', JStr (federation_id r)),
      (''roster_version'', JInt (roster_version r)), (''updated'', updated r),
      (''admins'', JList (map JStr (sort (admins r)))),
      (''members'', JList (map member_json (sort_key m_id (map snd (members r))))),
      (''peers'', JList (map peer_json (sort_key p_id (map snd (peers r)))))]"

definition roster_signed_bytes :: "(rat \<Rightarrow> string) \<Rightarrow> roster \<Rightarrow> value_error + bytes" where
  "roster_signed_bytes frepr r = canonical frepr (JObj (roster_body r))"

definition roster_to_dict :: "roster \<Rightarrow> json" where
  "roster_to_dict r = JObj (roster_body r @ [(''signatures'', JList (signatures r))])"

section \<open>Parsing\<close>

definition check_peer :: "string list \<Rightarrow> peer \<Rightarrow> roster_error + unit" where
  "check_peer ids p =
     rbind (guard (p_owner p \<in> set ids) (RosterError (OwnerUnknown (p_owner p)))) (\<lambda>_.
     rbind (rmap (\<lambda>c. guard (con_member c \<in> set ids) (RosterError (CreditsUnknown (con_member c))))
              (p_contributors p)) (\<lambda>_. Inr ()))"

text \<open>\<open>a not in by_member\<close> hashes \<open>a\<close>: a list or an object is unhashable.\<close>

definition check_admin :: "string list \<Rightarrow> json \<Rightarrow> roster_error + string" where
  "check_admin ids a =
     (case a of
        JStr s \<Rightarrow> if s \<in> set ids then Inr s else Inl (RosterError AdminNotMember)
      | JList xs \<Rightarrow> Inl (Crash TypeError)
      | JObj d \<Rightarrow> Inl (Crash TypeError)
      | _ \<Rightarrow> Inl (RosterError AdminNotMember))"

definition roster_parse :: "json \<Rightarrow> roster_error + roster" where
  "roster_parse doc =
     rbind (case as_obj doc of None \<Rightarrow> Inl (RosterError RosterNotObject) | Some d \<Rightarrow> Inr d) (\<lambda>d.
     rbind (map_error (\<lambda>e. RosterError (BadProtocol e)) (check_version (obj_get d ''v''))) (\<lambda>v.
     rbind (positive_int (obj_get d ''roster_version'') BadRosterVersion) (\<lambda>rv.
     rbind (list_of (obj_get_or d ''members'' (JList []))) (\<lambda>raw_members.
     rbind (rmap member_from_dict raw_members) (\<lambda>ms.
     rbind (list_of (obj_get_or d ''peers'' (JList []))) (\<lambda>raw_peers.
     rbind (rmap peer_from_dict raw_peers) (\<lambda>ps.
     rbind (guard (distinct (map m_id ms)) (RosterError DuplicateMember)) (\<lambda>_.
     rbind (guard (distinct (map p_id ps)) (RosterError DuplicatePeer)) (\<lambda>_.
     rbind (rmap (check_peer (map m_id ms)) ps) (\<lambda>_.
     rbind (list_of (obj_get_or d ''admins'' (JList []))) (\<lambda>raw_admins.
     rbind (rmap (check_admin (map m_id ms)) raw_admins) (\<lambda>ads.
     rbind (guard (ads \<noteq> []) (RosterError NoAdmins)) (\<lambda>_.
     rbind (req_str d ''federation_id'' ''roster'') (\<lambda>fid.
     rbind (list_of (obj_get_or d ''signatures'' (JList []))) (\<lambda>sigs.
     Inr \<lparr>federation_id = fid, roster_version = rv, updated = obj_get_or d ''updated'' (JStr []),
       admins = ads, members = map (\<lambda>m. (m_id m, m)) ms, peers = map (\<lambda>p. (p_id p, p)) ps,
       signatures = sigs, roster_v = v\<rparr>)))))))))))))))"

section \<open>Loading\<close>

datatype verdict = Skip | Verified | Escapes crash

text \<open>
  One \<open>verify_bytes(payload, sig, unb64(pubkey))\<close> of the loop: \<open>ProtocolError\<close> and \<open>ValueError\<close>
  go on to the next pair; a signature that is not a string has no \<open>encode\<close>.
\<close>

definition try_signature :: "crypto \<Rightarrow> bytes \<Rightarrow> string \<Rightarrow> json \<Rightarrow> verdict" where
  "try_signature K payload pubkey_b64 sg =
     (case unb64 pubkey_b64 of
        Inl e \<Rightarrow> Skip
      | Inr key \<Rightarrow>
          if length key \<noteq> 32 then Skip
          else (case as_str sg of
              None \<Rightarrow> Escapes AttributeError
            | Some s \<Rightarrow> (case verify_bytes K payload s key of Inl e \<Rightarrow> Skip | Inr u \<Rightarrow> Verified)))"

fun verify_loop :: "crypto \<Rightarrow> bytes \<Rightarrow> roster \<Rightarrow> (string \<times> string \<times> json) list \<Rightarrow> roster_error + roster" where
  "verify_loop K payload r [] = Inl (RosterError NoTrustedSignature)"
| "verify_loop K payload r ((admin_id, pubkey, sg) # rest) =
     (case try_signature K payload pubkey sg of
        Skip \<Rightarrow> verify_loop K payload r rest
      | Escapes c \<Rightarrow> Inl (Crash c)
      | Verified \<Rightarrow>
          if admin_id \<notin> set (admins r) then Inl (RosterError (SignerNotAdmin admin_id)) else Inr r)"

definition signature_pairs :: "(string, string) dict \<Rightarrow> roster \<Rightarrow> (string \<times> string \<times> json) list" where
  "signature_pairs trusted r =
     concat (map (\<lambda>(admin_id, pubkey). map (\<lambda>sg. (admin_id, pubkey, sg)) (signatures r)) trusted)"

definition roster_load :: "crypto \<Rightarrow> json \<Rightarrow> (string, string) dict \<Rightarrow> int option \<Rightarrow> roster_error + roster" where
  "roster_load K doc trusted previous_version =
     rbind (roster_parse doc) (\<lambda>r.
     rbind (guard (case previous_version of None \<Rightarrow> True | Some n \<Rightarrow> n < roster_version r) (RosterError Rollback)) (\<lambda>_.
     rbind (guard (trusted \<noteq> []) (RosterError NoTrustedKeys)) (\<lambda>_.
     rbind (guard (signatures r \<noteq> []) (RosterError RosterUnsigned)) (\<lambda>_.
     rbind (map_error (\<lambda>e. Crash (ValueError e)) (roster_signed_bytes (float_repr K) r)) (\<lambda>payload.
     verify_loop K payload r (signature_pairs trusted r))))))"

section \<open>What parses\<close>

definition contribution_ok :: "contribution \<Rightarrow> bool" where
  "contribution_ok c \<longleftrightarrow> 0 < con_gb c"

text \<open>The capacity of a shard group agrees with its shares, to a hundredth, and is not zero.\<close>

definition peer_ok :: "peer \<Rightarrow> bool" where
  "peer_ok p \<longleftrightarrow> 1 \<le> p_max_concurrent p \<and> list_all contribution_ok (p_contributors p)
     \<and> distinct (map con_member (p_contributors p))
     \<and> (p_contributors p \<noteq> [] \<longrightarrow> p_capacity_gb p \<noteq> 0 \<and> \<bar>p_capacity_gb p - total_gb (p_contributors p)\<bar> \<le> 1 / 100)"

definition members_known :: "string set \<Rightarrow> peer \<Rightarrow> bool" where
  "members_known ids p \<longleftrightarrow> p_owner p \<in> ids \<and> con_member ` set (p_contributors p) \<subseteq> ids"

definition roster_ok :: "roster \<Rightarrow> bool" where
  "roster_ok r \<longleftrightarrow> roster_v r = 1 \<and> 1 \<le> roster_version r \<and> admins r \<noteq> [] \<and> set (admins r) \<subseteq> set (keys (members r))
     \<and> dict_distinct (members r) \<and> (\<forall>(k, m) \<in> set (members r). m_id m = k)
     \<and> dict_distinct (peers r)
     \<and> (\<forall>(k, p) \<in> set (peers r). p_id p = k \<and> peer_ok p \<and> members_known (set (keys (members r))) p)"

lemma req_str_Inr [simp, result_simps]: "req_str d k w = Inr s \<longleftrightarrow> obj_get d k = JStr s"
  by (cases "obj_get d k") (simp_all add: req_str_def req_def)

lemma need_dict_Inr [simp, result_simps]: "need_dict j = Inr d \<longleftrightarrow> j = JObj d"
  by (auto simp: need_dict_def split: option.splits)

lemma positive_int_Inr [simp, result_simps]: "positive_int v e = Inr n \<longleftrightarrow> v = JInt n \<and> 1 \<le> n"
  by (auto simp: positive_int_def split: option.splits)

lemma to_float_Inr: "to_float x = Inr q \<longleftrightarrow> finite_val x = Some q \<and> (\<forall>n. x = IntN n \<longrightarrow> \<not> float_overflows n)"
  by (cases x) (auto simp: to_float_def)

lemma contribution_from_dict_ok:
  assumes "contribution_from_dict j w = Inr c" shows "contribution_ok c"
proof -
  from assms obtain d x where *: "as_num (obj_get d ''gb'') = Some x" "\<not> (x = IntN 0 \<or> x = Flt 0 \<or> num_lt x 0)"
    and gb: "to_float x = Inr (con_gb c)"
    by (auto simp: contribution_from_dict_def rbind_Inr_iff split: option.splits if_splits)
  then show ?thesis by (cases x) (auto simp: to_float_Inr contribution_ok_def)
qed

lemma total_gb_pos: "cs \<noteq> [] \<Longrightarrow> list_all contribution_ok cs \<Longrightarrow> 0 < total_gb cs"
proof (induction cs)
  case (Cons c cs)
  then show ?case by (cases cs) (simp_all add: total_gb_def contribution_ok_def add_pos_pos)
qed simp

lemma capacity_of_ok:
  assumes "capacity_of v cs = Inr cap" "list_all contribution_ok cs" "cs \<noteq> []"
  shows "cap \<noteq> 0 \<and> \<bar>cap - total_gb cs\<bar> \<le> 1 / 100"
  using assms total_gb_pos [OF assms(3,2)]
  by (auto simp: capacity_of_def rbind_Inr_iff split: if_splits)

lemma peer_from_dict_ok:
  assumes "peer_from_dict j = Inr p" shows "peer_ok p"
proof -
  from assms obtain d raw loc where cs: "rmap (\<lambda>c. contribution_from_dict c loc) raw = Inr (p_contributors p)"
    and dist: "distinct (map con_member (p_contributors p))"
    and cap: "capacity_of (obj_get d ''capacity_gb'') (p_contributors p) = Inr (p_capacity_gb p)"
    and mc: "1 \<le> p_max_concurrent p"
    by (auto simp: peer_from_dict_def Let_def rbind_Inr_iff)
  from cs have "list_all contribution_ok (p_contributors p)"
    by (auto simp: list_all_iff dest!: rmap_memD contribution_from_dict_ok)
  with dist cap mc capacity_of_ok show ?thesis by (auto simp: peer_ok_def)
qed

lemma check_peer_Inr [simp]: "check_peer ids p = Inr u \<longleftrightarrow> members_known (set ids) p"
proof -
  have "(\<exists>us. rmap (\<lambda>c. guard (con_member c \<in> set ids) (f c)) cs = Inr us) \<longleftrightarrow> con_member ` set cs \<subseteq> set ids" for f cs
    by (induction cs) (auto simp: rbind_Inr_iff)
  from this [of "\<lambda>c. RosterError (CreditsUnknown (con_member c))" "p_contributors p"]
  show ?thesis by (simp add: check_peer_def members_known_def rbind_Inr_iff)
qed

lemma check_admin_Inr [simp]: "check_admin ids a = Inr s \<longleftrightarrow> a = JStr s \<and> s \<in> set ids"
  by (cases a) (auto simp: check_admin_def)

lemma list_of_Inr: "list_of v = Inr xs \<longleftrightarrow> iterate v = Some xs"
  by (auto simp: list_of_def split: option.splits)

lemma roster_parse_ok:
  assumes "roster_parse doc = Inr r" shows "roster_ok r"
proof -
  from assms obtain d rm ms rp ps us ra where
    ms: "rmap member_from_dict rm = Inr ms" and ps: "rmap peer_from_dict rp = Inr ps"
    and dm: "distinct (map m_id ms)" and dp: "distinct (map p_id ps)"
    and us: "rmap (check_peer (map m_id ms)) ps = Inr us"
    and ad: "rmap (check_admin (map m_id ms)) ra = Inr (admins r)" "admins r \<noteq> []"
    and r: "roster_v r = 1" "1 \<le> roster_version r" "members r = map (\<lambda>m. (m_id m, m)) ms"
      "peers r = map (\<lambda>p. (p_id p, p)) ps"
    by (auto simp: roster_parse_def rbind_Inr_iff split: option.splits if_splits)
  have "peer_ok p" if "p \<in> set ps" for p using ps that by (blast dest: rmap_memD peer_from_dict_ok)
  moreover have "members_known (set (map m_id ms)) p" if "p \<in> set ps" for p
    using rmap_all [OF us that] by simp
  moreover have "set (admins r) \<subseteq> set (map m_id ms)" using ad(1) by (auto dest: rmap_memD)
  ultimately show ?thesis using r dm dp ad(2) by (auto simp: roster_ok_def comp_def image_image)
qed

section \<open>Loading is sound\<close>

lemma verify_loop_Inr:
  "verify_loop K payload r ps = Inr r' \<Longrightarrow>
     r' = r \<and> (\<exists>(a, pk, sg) \<in> set ps. a \<in> set (admins r) \<and> try_signature K payload pk sg = Verified)"
  by (induction K payload r ps rule: verify_loop.induct) (auto split: verdict.splits if_splits)

lemma try_signature_Verified:
  "try_signature K payload pk sg = Verified \<longleftrightarrow>
     (\<exists>key s. unb64 pk = Inr key \<and> length key = 32 \<and> sg = JStr s \<and> verify_bytes K payload s key = Inr ())"
  by (auto simp: try_signature_def split: sum.splits option.splits if_splits)

lemma signature_pairs_mem:
  "(a, pk, sg) \<in> set (signature_pairs trusted r) \<longleftrightarrow> (a, pk) \<in> set trusted \<and> sg \<in> set (signatures r)"
  by (auto simp: signature_pairs_def)

lemma roster_load_ok:
  assumes "roster_load K doc trusted prev = Inr r"
  shows "roster_ok r \<and> (\<forall>n. prev = Some n \<longrightarrow> n < roster_version r)"
proof -
  from assms have "roster_parse doc = Inr r" "case prev of None \<Rightarrow> True | Some n \<Rightarrow> n < roster_version r"
    by (auto simp: roster_load_def rbind_Inr_iff dest!: verify_loop_Inr)
  then show ?thesis using roster_parse_ok by (auto split: option.splits)
qed

text \<open>
  C5: a roster that loads is well formed, strictly newer than the one held, and signed over exactly its
  canonical bytes by a key pinned outside the document, whose member the roster lists as an admin; the
  keys inside the document play no part.
\<close>
theorem roster_load_sound:
  assumes "roster_load K doc trusted prev = Inr r"
  shows "roster_parse doc = Inr r \<and> roster_ok r \<and> (\<forall>n. prev = Some n \<longrightarrow> n < roster_version r)
    \<and> (\<exists>a pk key s payload. (a, pk) \<in> set trusted \<and> a \<in> set (admins r) \<and> unb64 pk = Inr key
        \<and> JStr s \<in> set (signatures r) \<and> roster_signed_bytes (float_repr K) r = Inr payload
        \<and> verify_bytes K payload s key = Inr ())"
proof -
  from assms obtain payload where p: "roster_parse doc = Inr r" "roster_signed_bytes (float_repr K) r = Inr payload"
    and prev: "case prev of None \<Rightarrow> True | Some n \<Rightarrow> n < roster_version r"
    and loop: "verify_loop K payload r (signature_pairs trusted r) = Inr r"
    by (auto simp: roster_load_def rbind_Inr_iff dest: verify_loop_Inr)
  from verify_loop_Inr [OF loop] obtain a pk sg where
    "(a, pk) \<in> set trusted" "sg \<in> set (signatures r)" "a \<in> set (admins r)" "try_signature K payload pk sg = Verified"
    by (auto simp: signature_pairs_mem)
  moreover from this(4) obtain key s where "unb64 pk = Inr key" "sg = JStr s" "verify_bytes K payload s key = Inr ()"
    by (auto simp: try_signature_Verified)
  ultimately show ?thesis using p prev roster_parse_ok [OF p(1)] by (auto split: option.splits)
qed

lemma verify_loop_none:
  "(\<And>a pk sg. (a, pk, sg) \<in> set ps \<Longrightarrow> try_signature K payload pk sg = Skip) \<Longrightarrow>
     verify_loop K payload r ps = Inl (RosterError NoTrustedSignature)"
proof (induction ps)
  case (Cons q ps)
  obtain a pk sg where q: "q = (a, pk, sg)" by (cases q)
  with Cons.prems [of a pk sg] have "try_signature K payload pk sg = Skip" by simp
  moreover have "verify_loop K payload r ps = Inl (RosterError NoTrustedSignature)"
  proof (rule Cons.IH)
    fix b pkb sgb assume "(b, pkb, sgb) \<in> set ps"
    then show "try_signature K payload pkb sgb = Skip" using Cons.prems [of b pkb sgb] by simp
  qed
  ultimately show ?case by (simp add: q)
qed simp

lemma verify_loop_some:
  assumes "\<And>a pk sg. (a, pk, sg) \<in> set ps \<Longrightarrow> a \<in> set (admins r) \<and> (\<exists>s. sg = JStr s)"
    and "(a, pk, sg) \<in> set ps" "try_signature K payload pk sg = Verified"
  shows "verify_loop K payload r ps = Inr r"
  using assms
proof (induction ps)
  case (Cons q ps)
  obtain b pkb sgb where q: "q = (b, pkb, sgb)" by (cases q)
  from Cons.prems(1) [of b pkb sgb] q obtain s where s: "b \<in> set (admins r)" "sgb = JStr s" by auto
  show ?case
  proof (cases "try_signature K payload pkb sgb")
    case Skip
    with Cons q show ?thesis by auto
  next
    case Verified
    with q s show ?thesis by simp
  next
    case (Escapes c)
    with s show ?thesis by (auto simp: try_signature_def split: sum.splits if_splits)
  qed
qed simp

section \<open>Round trip\<close>

text \<open>Serialising sorts the admins and the two dictionaries by id; nothing else changes.\<close>

definition roster_norm :: "roster \<Rightarrow> roster" where
  "roster_norm r = r\<lparr>admins := sort (admins r), members := sort_key fst (members r), peers := sort_key fst (peers r)\<rparr>"

lemma member_from_json: "member_from_dict (member_json m) = Inr m"
  by (simp add: member_from_dict_def member_json_def member_fields_def rbind_Inr_iff)

lemma contribution_from_json: "contribution_ok c \<Longrightarrow> contribution_from_dict (contribution_json c) w = Inr c"
  by (simp add: contribution_from_dict_def contribution_json_def contribution_ok_def rbind_Inr_iff to_float_def)

lemma capacity_of_again:
  "peer_ok p \<Longrightarrow> capacity_of (JNum (Flt (p_capacity_gb p))) (p_contributors p) = Inr (p_capacity_gb p)"
  by (auto simp: capacity_of_def peer_ok_def to_float_def)

lemma raw_contributors_json:
  "raw_contributors (obj_get ((if cs = [] then [] else [(''contributors'', JList (map contribution_json cs))])) ''contributors'')
     = Inr (map contribution_json cs)"
  by (simp add: raw_contributors_def)

lemma obj_get_append: "obj_get (d @ e) k = (if k \<in> set (keys d) then obj_get d k else obj_get e k)"
proof (induction d)
  case (Cons p d)
  then show ?case by (cases p) simp
qed simp

lemma obj_get_or_append: "obj_get_or (d @ e) k v = (if k \<in> set (keys d) then obj_get_or d k v else obj_get_or e k v)"
proof (induction d)
  case (Cons p d)
  then show ?case by (cases p) simp
qed simp

lemma peer_from_json: assumes "peer_ok p" shows "peer_from_dict (peer_json p) = Inr p"
proof -
  have cs: "rmap (\<lambda>c. contribution_from_dict c w) (map contribution_json (p_contributors p)) = Inr (p_contributors p)" for w
    using assms rmap_map [of "p_contributors p" "\<lambda>c. contribution_from_dict c w" contribution_json "\<lambda>c. c"]
    by (simp add: peer_ok_def list_all_iff contribution_from_json)
  show ?thesis
    using assms cs capacity_of_again [OF assms]
    by (simp add: peer_from_dict_def peer_json_def peer_fields_def Let_def rbind_Inr_iff obj_get_append obj_get_or_append
        raw_contributors_json list_of_def)
       (simp add: peer_ok_def)
qed

lemma sort_key_map: "sort_key f (map g xs) = map g (sort_key (\<lambda>x. f (g x)) xs)"
proof (induction xs)
  case (Cons x xs)
  have "insort_key f (g x) (map g ys) = map g (insort_key (\<lambda>x. f (g x)) x ys)" for ys by (induction ys) auto
  with Cons show ?case by simp
qed simp

lemma sorted_values:
  assumes "\<forall>(k, v) \<in> set d. idf v = k"
  shows "map (\<lambda>v. (idf v, v)) (sort_key idf (map snd d)) = sort_key fst d"
proof -
  let ?p = "\<lambda>v. (idf v, v)"
  have d: "d = map ?p (map snd d)" using assms by (induction d) auto
  have "sort_key fst (map ?p (map snd d)) = map ?p (sort_key (\<lambda>v. fst (?p v)) (map snd d))" by (rule sort_key_map)
  with d show ?thesis by simp
qed

lemma rmap_guards: "\<forall>x \<in> set xs. f x = Inr () \<Longrightarrow> \<exists>us. rmap f xs = Inr us"
  by (induction xs) auto

lemma roster_parse_to_dict:
  assumes "roster_ok r"
  shows "roster_parse (roster_to_dict r) = Inr (roster_norm r)"
proof -
  let ?ms = "sort_key m_id (map snd (members r))" and ?ps = "sort_key p_id (map snd (peers r))"
  have ids: "\<forall>(k, m) \<in> set (members r). m_id m = k" "\<forall>(k, p) \<in> set (peers r). p_id p = k"
    using assms by (auto simp: roster_ok_def)
  have sm: "map (\<lambda>m. (m_id m, m)) ?ms = sort_key fst (members r)" by (rule sorted_values) (rule ids)
  have sp: "map (\<lambda>p. (p_id p, p)) ?ps = sort_key fst (peers r)" by (rule sorted_values) (rule ids)
  have keys_m: "map m_id ?ms = map fst (sort_key fst (members r))"
    and keys_p: "map p_id ?ps = map fst (sort_key fst (peers r))"
    by (simp_all add: comp_def flip: sm sp)
  have set_m: "m_id ` snd ` set (members r) = set (keys (members r))" using ids(1) by force
  have ms: "rmap member_from_dict (map member_json ?ms) = Inr ?ms"
    using rmap_map [of ?ms member_from_dict member_json "\<lambda>m. m"] by (simp add: member_from_json)
  have ps: "rmap peer_from_dict (map peer_json ?ps) = Inr ?ps"
    using assms rmap_map [of ?ps peer_from_dict peer_json "\<lambda>m. m"] by (force simp: peer_from_json roster_ok_def)
  have "\<forall>p \<in> set ?ps. check_peer (map m_id ?ms) p = Inr ()"
    using assms by (auto simp: roster_ok_def set_m)
  then obtain us where us: "rmap (check_peer (map m_id ?ms)) ?ps = Inr us" using rmap_guards by blast
  have ads: "rmap (check_admin (map m_id ?ms)) (map JStr (sort (admins r))) = Inr (sort (admins r))"
    using assms rmap_map [of "sort (admins r)" "check_admin (map m_id ?ms)" JStr "\<lambda>a. a"]
    by (auto simp: roster_ok_def set_m)
  have dist: "distinct (map m_id ?ms)" "distinct (map p_id ?ps)"
    unfolding keys_m keys_p using assms by (simp_all add: roster_ok_def distinct_map distinct_sort)
  have "sort (admins r) \<noteq> []" "roster_v r = 1" "1 \<le> roster_version r"
    using assms by (auto simp: roster_ok_def simp flip: set_empty)
  then show ?thesis
    using ms ps us ads dist sm sp
    by (simp add: roster_parse_def roster_to_dict_def roster_body_def list_of_def roster_norm_def rbind_Inr_iff)
qed

section \<open>What an admin signature covers\<close>

lemma roster_body_signatures [simp]: "roster_body (r\<lparr>signatures := ss\<rparr>) = roster_body r"
  by (simp add: roster_body_def)

lemma roster_body_norm [simp]:
  assumes "roster_ok r" shows "roster_body (roster_norm r) = roster_body r"
proof -
  have *: "sort_key idf (map snd (sort_key fst d)) = sort_key idf (map snd d)"
    if "\<forall>(k, v) \<in> set d. idf v = k" for idf and d :: "(string \<times> 'z) list"
  proof -
    let ?p = "\<lambda>v. (idf v, v)"
    have "map snd (sort_key fst d) = sort_key idf (map snd d)"
      by (simp add: comp_def flip: sorted_values [OF that])
    then show ?thesis by (simp add: sort_key_id_if_sorted)
  qed
  have "sort_key m_id (map snd (sort_key fst (members r))) = sort_key m_id (map snd (members r))"
    "sort_key p_id (map snd (sort_key fst (peers r))) = sort_key p_id (map snd (peers r))"
    using assms by (intro *; auto simp: roster_ok_def)+
  moreover have "sort (sort (admins r)) = sort (admins r)" by (rule sorted_sort_id) simp
  ultimately show ?thesis by (simp add: roster_body_def roster_norm_def)
qed

lemma roster_signed_bytes_norm:
  "roster_ok r \<Longrightarrow> roster_signed_bytes frepr (roster_norm r) = roster_signed_bytes frepr r"
  by (simp add: roster_signed_bytes_def)

lemma roster_ok_signatures [simp]: "roster_ok (r\<lparr>signatures := ss\<rparr>) = roster_ok r"
  by (simp add: roster_ok_def)

lemma norm_update_signatures: "roster_norm (r\<lparr>signatures := ss\<rparr>) = (roster_norm r)\<lparr>signatures := ss\<rparr>"
  by (simp add: roster_norm_def)

text \<open>
  a well-formed roster signed by one of its admins is accepted by whoever pinned that admin's key
  and holds an older version, whatever other signatures stand beside it; what is read back is the same
  roster, its admins, members and peers in order.
\<close>
theorem roster_sign_load:
  assumes K: "crypto_laws K" and ok: "roster_ok r" and key: "length (ed_pub K seed) = 32"
    and bs: "roster_signed_bytes (float_repr K) r = Inr payload"
    and adm: "a \<in> set (admins r)" and newer: "\<forall>n. prev = Some n \<longrightarrow> n < roster_version r"
    and sg: "sign_bytes K payload seed \<in> set ss"
  shows "roster_load K (roster_to_dict (r\<lparr>signatures := map JStr ss\<rparr>)) [(a, b64 (ed_pub K seed))] prev
    = Inr (roster_norm (r\<lparr>signatures := map JStr ss\<rparr>))"
proof -
  let ?r = "r\<lparr>signatures := map JStr ss\<rparr>" let ?n = "roster_norm ?r"
  have parse: "roster_parse (roster_to_dict ?r) = Inr ?n" using ok by (intro roster_parse_to_dict) simp
  have pay: "roster_signed_bytes (float_repr K) ?n = Inr payload"
    using bs ok by (simp add: roster_signed_bytes_norm roster_signed_bytes_def)
  have sigs: "signatures ?n = map JStr ss" and v: "roster_version ?n = roster_version r"
    and ad: "set (admins ?n) = set (admins r)" by (simp_all add: roster_norm_def)
  have "try_signature K payload (b64 (ed_pub K seed)) (JStr (sign_bytes K payload seed)) = Verified"
    using key K by (simp add: try_signature_Verified unb64_b64 verify_sign_bytes)
  then have "verify_loop K payload ?n (signature_pairs [(a, b64 (ed_pub K seed))] ?n) = Inr ?n"
    using adm sg by (intro verify_loop_some) (auto simp: signature_pairs_mem sigs ad)
  then show ?thesis
    using parse pay newer v sigs sg by (cases prev) (auto simp: roster_load_def guard_def)
qed

text \<open>The members' keys and everything that decides where credit goes are under the signature.\<close>

definition peer_terms :: "peer \<Rightarrow> string \<times> string \<times> string \<times> string \<times> string \<times> rat \<times> int \<times> contribution list" where
  "peer_terms p = (p_id p, p_owner p, p_enc_pub p, p_endpoint p, p_model p, p_capacity_gb p, p_max_concurrent p,
     p_contributors p)"

definition member_keys :: "member \<Rightarrow> string \<times> string \<times> string" where
  "member_keys m = (m_id m, m_sign_pub m, m_enc_pub m)"

lemma norm_keys_member:
  assumes "norm_keys (member_json m) = norm_keys (member_json m')" shows "member_keys m = member_keys m'"
proof -
  have look: "map_option norm_keys (map_of (member_fields m) k) = map_option norm_keys (map_of (member_fields m') k)" for k
    using assms unfolding member_json_def by (rule norm_lookup) (simp_all add: member_fields_def)
  show ?thesis using look [of "''id''"] look [of "''sign_pub''"] look [of "''enc_pub''"]
    by (simp add: member_keys_def member_fields_def)
qed

lemma norm_keys_contribution:
  "norm_keys (contribution_json c) = norm_keys (contribution_json c') \<Longrightarrow> c = c'"
  by (cases c; cases c') (simp add: contribution_json_def)

lemma map_norm_inj:
  assumes "map (\<lambda>x. norm_keys (enc x)) xs = map (\<lambda>x. norm_keys (enc x)) ys"
    and "\<And>x y. norm_keys (enc x) = norm_keys (enc y) \<Longrightarrow> view x = view y"
  shows "map view xs = map view ys"
  using assms(1)
proof (induction xs arbitrary: ys)
  case (Cons x xs)
  then obtain y zs where ys: "ys = y # zs" by (cases ys) simp_all
  with Cons.prems have "norm_keys (enc x) = norm_keys (enc y)"
    and "map (\<lambda>x. norm_keys (enc x)) xs = map (\<lambda>x. norm_keys (enc x)) zs" by simp_all
  from assms(2) [OF this(1)] Cons.IH [OF this(2)] show ?case by (simp add: ys)
qed simp

lemma peer_fields_distinct: "dict_distinct (peer_fields p)"
  by (cases "p_contributors p = []") (simp_all add: peer_fields_def)

lemma peer_fields_lookup:
  "map_of (peer_fields p) ''id'' = Some (JStr (p_id p))"
  "map_of (peer_fields p) ''owner'' = Some (JStr (p_owner p))"
  "map_of (peer_fields p) ''enc_pub'' = Some (JStr (p_enc_pub p))"
  "map_of (peer_fields p) ''endpoint'' = Some (JStr (p_endpoint p))"
  "map_of (peer_fields p) ''model'' = Some (JStr (p_model p))"
  "map_of (peer_fields p) ''capacity_gb'' = Some (JNum (Flt (p_capacity_gb p)))"
  "map_of (peer_fields p) ''max_concurrent'' = Some (JInt (p_max_concurrent p))"
  "map_of (peer_fields p) ''contributors'' =
     (if p_contributors p = [] then None else Some (JList (map contribution_json (p_contributors p))))"
  by (simp_all add: peer_fields_def)

lemma norm_keys_peer:
  assumes "norm_keys (peer_json p) = norm_keys (peer_json p')" shows "peer_terms p = peer_terms p'"
proof -
  have look: "map_option norm_keys (map_of (peer_fields p) k) = map_option norm_keys (map_of (peer_fields p') k)" for k
    using assms peer_fields_distinct unfolding peer_json_def by (intro norm_lookup)
  have "map (\<lambda>c. norm_keys (contribution_json c)) (p_contributors p) =
      map (\<lambda>c. norm_keys (contribution_json c)) (p_contributors p')"
    using look [of "''contributors''"] by (auto simp: peer_fields_lookup comp_def split: if_splits)
  from map_norm_inj [OF this, of "\<lambda>c. c"] norm_keys_contribution
  have "p_contributors p = p_contributors p'" by simp
  then show ?thesis
    using look [of "''id''"] look [of "''owner''"] look [of "''enc_pub''"] look [of "''endpoint''"]
      look [of "''model''"] look [of "''capacity_gb''"] look [of "''max_concurrent''"]
    by (simp add: peer_terms_def peer_fields_lookup)
qed

text \<open>
  the bytes an admin signs pin the federation, the version, the admins, every member's keys and, for
  every peer, its owner, key, endpoint, model, capacity, batch size and credit split: two rosters with the
  same signed bytes agree on all of them.
\<close>
theorem roster_signature_pins:
  assumes "float_repr_ok frepr" "roster_signed_bytes frepr r = Inr bs" "roster_signed_bytes frepr r' = Inr bs"
  shows "federation_id r = federation_id r' \<and> roster_version r = roster_version r'
    \<and> sort (admins r) = sort (admins r')
    \<and> map member_keys (sort_key m_id (map snd (members r))) = map member_keys (sort_key m_id (map snd (members r')))
    \<and> map peer_terms (sort_key p_id (map snd (peers r))) = map peer_terms (sort_key p_id (map snd (peers r')))"
proof -
  have n: "norm_keys (JObj (roster_body r)) = norm_keys (JObj (roster_body r'))"
    using assms by (intro canonical_inj) (simp_all add: roster_signed_bytes_def)
  have look: "map_option norm_keys (map_of (roster_body r) k) = map_option norm_keys (map_of (roster_body r') k)" for k
    using n by (rule norm_lookup) (simp_all add: roster_body_def)
  have "map norm_keys (map member_json (sort_key m_id (map snd (members r))))
      = map norm_keys (map member_json (sort_key m_id (map snd (members r'))))"
    using look [of "''members''"] by (simp add: roster_body_def)
  then have "map member_keys (sort_key m_id (map snd (members r))) = map member_keys (sort_key m_id (map snd (members r')))"
    unfolding map_map comp_def by (rule map_norm_inj) (rule norm_keys_member)
  moreover have "map norm_keys (map peer_json (sort_key p_id (map snd (peers r))))
      = map norm_keys (map peer_json (sort_key p_id (map snd (peers r'))))"
    using look [of "''peers''"] by (simp add: roster_body_def)
  then have "map peer_terms (sort_key p_id (map snd (peers r))) = map peer_terms (sort_key p_id (map snd (peers r')))"
    unfolding map_map comp_def by (rule map_norm_inj) (rule norm_keys_peer)
  moreover have "map JStr (sort (admins r)) = map JStr (sort (admins r'))"
    using look [of "''admins''"] by (simp add: roster_body_def comp_def)
  then have "sort (admins r) = sort (admins r')" by (simp add: inj_map_eq_map inj_def)
  ultimately show ?thesis
    using look [of "''federation_id''"] look [of "''roster_version''"] by (simp add: roster_body_def)
qed

section \<open>Splitting credit\<close>

text \<open>
  the shares a peer's residency is split into add up to that residency exactly: splitting credit
  neither loses nor mints any.
\<close>
theorem credit_split_total:
  assumes "peer_ok p" shows "sum_list (map snd (credit_split p g)) = g"
proof (cases "p_contributors p = []")
  case False
  with assms have pos: "0 < total_gb (p_contributors p)" by (simp add: peer_ok_def total_gb_pos)
  have "sum_list (map (\<lambda>c. g * con_gb c / t) cs) = g * total_gb cs / t" for t cs
    by (induction cs) (simp_all add: total_gb_def field_simps add_divide_distrib)
  with pos False show ?thesis by (simp add: credit_split_def comp_def)
qed (simp add: credit_split_def)

lemma credit_split_nonneg:
  assumes "peer_ok p" "0 \<le> g" "(m, x) \<in> set (credit_split p g)" shows "0 \<le> x \<and> x \<le> g"
proof (cases "p_contributors p = []")
  case False
  with assms(1) have pos: "0 < total_gb (p_contributors p)" by (simp add: peer_ok_def total_gb_pos)
  from assms False pos obtain c where c: "c \<in> set (p_contributors p)" "x = g * con_gb c / total_gb (p_contributors p)"
    by (auto simp: credit_split_def)
  have nn: "0 \<le> con_gb d" if "d \<in> set (p_contributors p)" for d
    using assms(1) that by (auto simp: peer_ok_def list_all_iff contribution_ok_def intro: less_imp_le)
  then have "con_gb c \<le> total_gb (p_contributors p)"
    unfolding total_gb_def using c(1) by (intro member_le_sum_list) auto
  then have "g * con_gb c \<le> g * total_gb (p_contributors p)" using assms(2) by (rule mult_left_mono)
  with pos nn [OF c(1)] assms(2) c(2) show ?thesis by (simp add: divide_le_eq)
qed (use assms in \<open>simp add: credit_split_def\<close>)

lemma credit_split_members: "fst ` set (credit_split p g) \<subseteq> insert (p_owner p) (con_member ` set (p_contributors p))"
  by (auto simp: credit_split_def Let_def)

definition demo_key :: bytes where
  "demo_key = replicate 32 7"

definition demo_peer :: peer where
  "demo_peer = \<lparr>p_id = ''g'', p_owner = ''a'', p_enc_pub = [], p_endpoint = [], p_model = ''m'', p_engine = JNull,
     p_engine_version = JNull, p_hw_class = JNull, p_capacity_gb = 8, p_max_concurrent = 1, p_availability = JNull,
     p_shards = [], p_attestation = JNull,
     p_contributors = [\<lparr>con_member = ''a'', con_gb = 4\<rparr>, \<lparr>con_member = ''b'', con_gb = 4\<rparr>]\<rparr>"

definition demo_member :: "string \<Rightarrow> member" where
  "demo_member i = \<lparr>m_id = i, m_sign_pub = [], m_enc_pub = [], m_role = JNull, m_joined = JNull\<rparr>"

definition demo_roster :: roster where
  "demo_roster = \<lparr>federation_id = ''f'', roster_version = 1, updated = JNull, admins = [''a''],
     members = [(''a'', demo_member ''a''), (''b'', demo_member ''b'')], peers = [(''g'', demo_peer)],
     signatures = [], roster_v = 1\<rparr>"

lemma demo_roster_ok: "roster_ok demo_roster"
  by (simp add: roster_ok_def demo_roster_def demo_member_def demo_peer_def peer_ok_def members_known_def
      contribution_ok_def total_gb_def)

section \<open>Witnesses\<close>

definition demo_payload :: bytes where
  "demo_payload = utf8 (dumps (float_repr demo_crypto) (JObj (roster_body demo_roster)))"

lemma demo_signed_bytes: "roster_signed_bytes (float_repr demo_crypto) demo_roster = Inr demo_payload"
proof -
  have "json_finite (JObj (roster_body demo_roster))" by code_simp
  then show ?thesis by (simp add: roster_signed_bytes_def canonical_def demo_payload_def)
qed

definition demo_signed :: roster where
  "demo_signed = demo_roster\<lparr>signatures := map JStr [sign_bytes demo_crypto demo_payload demo_key]\<rparr>"

theorem roster_sign_load_witness:
  "roster_load demo_crypto (roster_to_dict demo_signed) [(''a'', b64 (ed_pub demo_crypto demo_key))] None
     = Inr (roster_norm demo_signed)"
  unfolding demo_signed_def
  by (rule roster_sign_load [OF demo_crypto_laws demo_roster_ok _ demo_signed_bytes])
     (simp_all add: demo_crypto_def demo_key_def, simp_all add: demo_roster_def)

lemma demo_load:
  "roster_load demo_crypto (roster_to_dict demo_signed) [(''a'', b64 demo_key)] (Some 0) = Inr (roster_norm demo_signed)"
proof -
  let ?n = "roster_norm demo_signed"
  have ok: "roster_ok demo_signed" by (simp add: demo_signed_def demo_roster_ok)
  have pay: "roster_signed_bytes (float_repr demo_crypto) ?n = Inr demo_payload"
    using demo_signed_bytes roster_signed_bytes_norm [OF ok]
    by (simp add: demo_signed_def roster_signed_bytes_def)
  have "verify_bytes demo_crypto demo_payload (sign_bytes demo_crypto demo_payload demo_key) demo_key = Inr ()"
    using verify_sign_bytes [OF demo_crypto_laws, of demo_payload demo_key] by (simp add: demo_crypto_def)
  moreover have "signatures ?n = [JStr (sign_bytes demo_crypto demo_payload demo_key)]" "admins ?n = [''a'']"
    "roster_version ?n = 1"
    by (simp_all add: demo_signed_def roster_norm_def demo_roster_def)
  ultimately show ?thesis using pay roster_parse_to_dict [OF ok]
    by (simp add: roster_load_def signature_pairs_def try_signature_def unb64_b64 demo_key_def)
qed

theorem roster_load_sound_witness:
  "\<exists>a pk. (a, pk) \<in> set [(''a'', b64 demo_key)] \<and> a \<in> set (admins (roster_norm demo_signed))"
  using roster_load_sound [OF demo_load] by blast

theorem roster_signature_pins_witness: "federation_id demo_roster = ''f''"
proof -
  have fr: "float_repr_ok (float_repr demo_crypto)" using demo_float_repr_ok by (simp add: demo_crypto_def)
  have other: "roster_signed_bytes (float_repr demo_crypto) (demo_roster\<lparr>signatures := [JNull]\<rparr>) = Inr demo_payload"
    using demo_signed_bytes by (simp add: roster_signed_bytes_def)
  from roster_signature_pins [OF fr other demo_signed_bytes] show ?thesis by (simp add: demo_roster_def)
qed

theorem credit_split_total_witness: "sum_list (map snd (credit_split demo_peer 6)) = 6"
  by (rule credit_split_total) (simp add: demo_peer_def peer_ok_def contribution_ok_def total_gb_def)

text \<open>
  a roster whose member list holds something that is not an object makes the parser raise
  \<open>AttributeError\<close>, which is not the \<open>RosterError\<close> its callers catch.
\<close>
theorem malformed_member_escapes:
  "roster_parse (JObj [(''v'', JInt 1), (''roster_version'', JInt 1), (''members'', JList [JInt 5])]) =
     Inl (Crash AttributeError)"
  by code_simp

end
