(* ===== verification/Auth.thy ===== *)
theory Auth
  imports Replay Roster
begin

text \<open>
  \<open>coordinator/auth.py\<close>: the signed request every coordinator endpoint but one demands. The check is
  in the code's order: the fields, freshness, the roster, the signature, and only then the nonce
  cache. \<open>AuthError\<close> carries its reason; an exception of another class that leaves the function
  is \<open>AuthEscape\<close>, of which the handlers catch the \<open>ValueError\<close>s.
\<close>

datatype auth_reason =
    NotAnObject
  | FieldsRequired
  | TsNotNumber
  | BodyNotObject
  | Unfresh replay_error
  | NotMember roster_error
  | BadSignatureFrom string
  | NonceRefused replay_error

datatype auth_error = AuthError auth_reason | AuthEscape crash

definition signed_payload :: "(rat \<Rightarrow> string) \<Rightarrow> string \<Rightarrow> string \<Rightarrow> pynum \<Rightarrow> (string \<times> json) list \<Rightarrow> value_error + bytes" where
  "signed_payload frepr mid nonce t body =
     canonical frepr (JObj [(''member_id'', JStr mid), (''nonce'', JStr nonce), (''ts'', JNum t), (''body'', JObj body)])"

definition sign_request :: "crypto \<Rightarrow> string \<Rightarrow> (string \<times> json) list \<Rightarrow> bytes \<Rightarrow> string \<Rightarrow> pynum \<Rightarrow> value_error + json" where
  "sign_request K mid body seed nonce t =
     rbind (signed_payload (float_repr K) mid nonce t body) (\<lambda>payload.
     Inr (JObj [(''member_id'', JStr mid), (''nonce'', JStr nonce), (''ts'', JNum t), (''body'', JObj body),
       (''sig'', JStr (sign_bytes K payload seed))]))"

text \<open>\<open>except ReplayError\<close>: the two other exceptions of the replay module pass through.\<close>

fun of_replay :: "(replay_error \<Rightarrow> auth_reason) \<Rightarrow> replay_error \<Rightarrow> auth_error" where
  "of_replay f FloatOverflow = AuthEscape OverflowError"
| "of_replay f MinOfEmpty = AuthEscape (ValueError EmptyMin)"
| "of_replay f e = AuthError (f e)"

definition nonempty_str :: "json \<Rightarrow> string option" where
  "nonempty_str v = (case as_str v of None \<Rightarrow> None | Some s \<Rightarrow> if s = [] then None else Some s)"

text \<open>Everything up to the nonce cache: the member, the nonce and the body.\<close>

definition check_signed :: "crypto \<Rightarrow> rat \<Rightarrow> roster \<Rightarrow> json \<Rightarrow> auth_error + string \<times> string \<times> (string \<times> json) list" where
  "check_signed K now ro doc =
     (case as_obj doc of
        None \<Rightarrow> Inl (AuthError NotAnObject)
      | Some d \<Rightarrow>
          (case (nonempty_str (obj_get d ''member_id''), nonempty_str (obj_get d ''nonce''), nonempty_str (obj_get d ''sig'')) of
             (Some mid, Some nonce, Some sg) \<Rightarrow>
               (case as_num (obj_get d ''ts'') of
                  None \<Rightarrow> Inl (AuthError TsNotNumber)
                | Some t \<Rightarrow>
                    (case as_obj (obj_get d ''body'') of
                       None \<Rightarrow> Inl (AuthError BodyNotObject)
                     | Some body \<Rightarrow>
                         rbind (map_error (of_replay Unfresh) (check_fresh t now DEFAULT_MAX_AGE)) (\<lambda>_.
                         rbind (map_error (\<lambda>e. AuthError (NotMember e)) (roster_member ro mid)) (\<lambda>mem.
                         rbind (map_error (\<lambda>e. AuthEscape (ValueError e)) (signed_payload (float_repr K) mid nonce t body)) (\<lambda>payload.
                         rbind (map_error (\<lambda>e. AuthEscape (ValueError e)) (unb64 (m_sign_pub mem))) (\<lambda>key.
                         rbind (map_error (\<lambda>e. AuthError (BadSignatureFrom mid)) (verify_bytes K payload sg key)) (\<lambda>_.
                         Inr (mid, nonce, body))))))))
           | _ \<Rightarrow> Inl (AuthError FieldsRequired)))"

definition verify_signed_request :: "crypto \<Rightarrow> rat \<Rightarrow> roster \<Rightarrow> json \<Rightarrow> nonce_cache
    \<Rightarrow> (auth_error + string \<times> (string \<times> json) list) \<times> nonce_cache" where
  "verify_signed_request K now ro doc c =
     (case check_signed K now ro doc of
        Inl e \<Rightarrow> (Inl e, c)
      | Inr (mid, nonce, body) \<Rightarrow>
          (case check_and_add now nonce c of
             (Inl e, c') \<Rightarrow> (Inl (of_replay NonceRefused e), c')
           | (Inr u, c') \<Rightarrow> (Inr (mid, body), c')))"

section \<open>What an accepted request is\<close>

lemma nonempty_str_Some [simp]: "nonempty_str v = Some s \<longleftrightarrow> v = JStr s \<and> s \<noteq> []"
  by (auto simp: nonempty_str_def split: option.splits)

lemma nonempty_str_JStr [simp]: "nonempty_str (JStr s) = (if s = [] then None else Some s)"
  by (simp add: nonempty_str_def)

lemma roster_member_Inr [simp]: "roster_member ro mid = Inr m \<longleftrightarrow> map_of (members ro) mid = Some m"
  by (auto simp: roster_member_def split: option.splits)

lemma check_signed_Inr:
  "check_signed K now ro doc = Inr (mid, nonce, body) \<longleftrightarrow>
     (\<exists>d s t m payload key. doc = JObj d \<and> obj_get d ''member_id'' = JStr mid \<and> obj_get d ''nonce'' = JStr nonce
        \<and> obj_get d ''sig'' = JStr s \<and> obj_get d ''ts'' = JNum t \<and> obj_get d ''body'' = JObj body
        \<and> mid \<noteq> [] \<and> nonce \<noteq> [] \<and> s \<noteq> [] \<and> check_fresh t now DEFAULT_MAX_AGE = Inr ()
        \<and> map_of (members ro) mid = Some m \<and> signed_payload (float_repr K) mid nonce t body = Inr payload
        \<and> unb64 (m_sign_pub m) = Inr key \<and> verify_bytes K payload s key = Inr ())"
  by (auto simp: check_signed_def rbind_Inr_iff split: option.splits)

lemma verify_signed_Inr:
  "fst (verify_signed_request K now ro doc c) = Inr (mid, body) \<longleftrightarrow>
     (\<exists>nonce. check_signed K now ro doc = Inr (mid, nonce, body) \<and> fst (check_and_add now nonce c) = Inr ())"
  by (auto simp: verify_signed_request_def split: sum.splits prod.splits)

lemma signed_payload_inj:
  assumes "float_repr_ok frepr" "signed_payload frepr mid nonce t body = Inr bs"
    "signed_payload frepr mid' nonce' t' body' = Inr bs"
  shows "mid = mid' \<and> nonce = nonce' \<and> t = t' \<and> norm_keys (JObj body) = norm_keys (JObj body')"
proof -
  let ?d = "[(''member_id'', JStr mid), (''nonce'', JStr nonce), (''ts'', JNum t), (''body'', JObj body)]"
  let ?e = "[(''member_id'', JStr mid'), (''nonce'', JStr nonce'), (''ts'', JNum t'), (''body'', JObj body')]"
  have "norm_keys (JObj ?d) = norm_keys (JObj ?e)"
    using assms by (intro canonical_inj) (simp_all add: signed_payload_def)
  then have look: "map_option norm_keys (map_of ?d k) = map_option norm_keys (map_of ?e k)" for k
    by (rule norm_lookup) simp_all
  show ?thesis using look [of "''member_id''"] look [of "''nonce''"] look [of "''ts''"] look [of "''body''"]
    by (simp del: norm_keys.simps(2))
qed

section \<open>Runs\<close>

definition verify_all :: "crypto \<Rightarrow> roster \<Rightarrow> (rat \<times> json) list \<Rightarrow> nonce_cache \<Rightarrow> nonce_cache" where
  "verify_all K ro reqs c = fold (\<lambda>(now, doc) c. snd (verify_signed_request K now ro doc c)) reqs c"

text \<open>The requests that reach the nonce cache, with their nonces.\<close>

definition authentic :: "crypto \<Rightarrow> roster \<Rightarrow> (rat \<times> json) list \<Rightarrow> (rat \<times> string) list" where
  "authentic K ro reqs = concat (map (\<lambda>(now, doc).
     case check_signed K now ro doc of Inl e \<Rightarrow> [] | Inr (mid, nonce, body) \<Rightarrow> [(now, nonce)]) reqs)"

lemma verify_all_run: "verify_all K ro reqs c = cache.run (authentic K ro reqs) c"
proof (induction reqs arbitrary: c)
  case (Cons q reqs)
  obtain now doc where q: "q = (now, doc)" by (cases q)
  have "snd (verify_signed_request K now ro doc c) = (case check_signed K now ro doc of
      Inl e \<Rightarrow> c | Inr (mid, nonce, body) \<Rightarrow> snd (check_and_add now nonce c))"
    by (auto simp: verify_signed_request_def split: sum.splits prod.splits)
  with Cons q show ?case
    by (auto simp: verify_all_def authentic_def split: sum.splits prod.splits)
qed (simp add: verify_all_def authentic_def)

lemma authentic_Cons:
  "authentic K ro ((now, doc) # reqs) =
     (case check_signed K now ro doc of Inl e \<Rightarrow> [] | Inr (mid, nonce, body) \<Rightarrow> [(now, nonce)]) @ authentic K ro reqs"
  by (simp add: authentic_def)

lemma authentic_times:
  "\<forall>p \<in> set (authentic K ro reqs). \<exists>q \<in> set reqs. fst q = fst p" "length (authentic K ro reqs) \<le> length reqs"
proof (induction reqs)
  case (Cons q reqs)
  {
    case 1
    with Cons(1) show ?case by (cases q) (auto simp: authentic_Cons split: sum.splits)
  next
    case 2
    with Cons(2) show ?case by (cases q) (auto simp: authentic_Cons split: sum.splits)
  }
qed (simp_all add: authentic_def)

lemma authentic_sorted: "sorted (map fst reqs) \<Longrightarrow> sorted (map fst (authentic K ro reqs))"
proof (induction reqs)
  case (Cons q reqs)
  have "\<forall>p \<in> set (authentic K ro reqs). fst q \<le> fst p" using Cons.prems authentic_times(1) [of K ro reqs] by force
  with Cons show ?case by (cases q) (auto simp: authentic_Cons split: sum.splits)
qed (simp add: authentic_def)

section \<open>Properties\<close>

text \<open>
  C7: an accepted request was signed as it stands and is new: the document names a member of the roster, the key
  the roster lists for that member verifies the document's own signature over its member id, nonce, time and body,
  the time is fresh, the nonce was not among those remembered and not yet expired, and it is remembered from now
  on for the time the cache keeps one; the member and the body handed on are those of the document.
\<close>
theorem signed_request_sound:
  assumes run: "verify_signed_request K now ro doc c = (Inr (mid, body), c')" and dict: "dict_distinct (seen c)"
  shows "\<exists>d nonce t s m key payload. doc = JObj d \<and> obj_get d ''member_id'' = JStr mid \<and> obj_get d ''nonce'' = JStr nonce
    \<and> obj_get d ''ts'' = JNum t \<and> obj_get d ''sig'' = JStr s \<and> obj_get d ''body'' = JObj body
    \<and> map_of (members ro) mid = Some m \<and> unb64 (m_sign_pub m) = Inr key
    \<and> signed_payload (float_repr K) mid nonce t body = Inr payload \<and> verify_bytes K payload s key = Inr ()
    \<and> check_fresh t now DEFAULT_MAX_AGE = Inr ()
    \<and> (\<forall>expiry. map_of (seen c) nonce = Some expiry \<longrightarrow> expiry \<le> now)
    \<and> map_of (seen c') nonce = Some (now + ttl c)"
proof -
  from run obtain nonce where ch: "check_signed K now ro doc = Inr (mid, nonce, body)"
    and add: "check_and_add now nonce c = (Inr (), c')"
    by (auto simp: verify_signed_request_def split: sum.splits prod.splits)
  from ch check_and_add_new [OF dict add] show ?thesis unfolding check_signed_Inr by blast
qed

lemma signed_request_accepted:
  assumes "crypto_laws K" "map_of (members ro) mid = Some m" "m_sign_pub m = b64 (ed_pub K seed)" "mid \<noteq> []" "nonce \<noteq> []"
    and "sign_request K mid body seed nonce t = Inr doc"
    and sig: "\<And>bs. ed_sign K seed bs \<noteq> []"
    and "check_fresh t now DEFAULT_MAX_AGE = Inr ()" "check_and_add now nonce c = (Inr u, c')"
  shows "verify_signed_request K now ro doc c = (Inr (mid, body), c')"
proof -
  from assms(6) obtain payload where p: "signed_payload (float_repr K) mid nonce t body = Inr payload"
    and doc: "doc = JObj [(''member_id'', JStr mid), (''nonce'', JStr nonce), (''ts'', JNum t), (''body'', JObj body),
       (''sig'', JStr (sign_bytes K payload seed))]"
    by (auto simp: sign_request_def rbind_Inr_iff)
  have "sign_bytes K payload seed \<noteq> []" using sig by (simp add: sign_bytes_def)
  then have "check_signed K now ro doc = Inr (mid, nonce, body)"
    using assms p unfolding doc check_signed_Inr
    by (auto simp: unb64_b64 verify_sign_bytes)
  with assms(9) show ?thesis by (simp add: verify_signed_request_def)
qed

text \<open>
  a request a member signs with the key the roster lists is accepted while it is fresh and its nonce is
  new, and is read back as that member and that body.
\<close>
theorem sign_verify_request:
  assumes "crypto_laws K" "map_of (members ro) mid = Some m" "m_sign_pub m = b64 (ed_pub K seed)" "mid \<noteq> []" "nonce \<noteq> []"
    and "sign_request K mid body seed nonce t = Inr doc"
    and "\<And>bs. ed_sign K seed bs \<noteq> []"
    and "check_fresh t now DEFAULT_MAX_AGE = Inr ()" "fst (check_and_add now nonce c) = Inr ()"
  shows "fst (verify_signed_request K now ro doc c) = Inr (mid, body)"
proof -
  obtain u c' where "check_and_add now nonce c = (Inr u, c')" using assms(9) by (cases "check_and_add now nonce c") auto
  with signed_request_accepted [OF assms(1-8)] show ?thesis by simp
qed

text \<open>
  C10: a signed request is accepted once: on a clock that does not go back, after fewer than the cache's
  bound of other requests, the same document is refused, whether its nonce is still remembered or it
  has gone stale.
\<close>
theorem signed_request_once:
  assumes c: "cache_ok t0 c" "t0 \<le> s" and long: "DEFAULT_MAX_AGE + CLOCK_SKEW_GRACE < ttl c"
    and first: "fst (verify_signed_request K s ro doc c) = Inr r"
    and run: "sorted (s # map fst reqs)" "list_all (\<lambda>q. fst q \<le> s') reqs" "s \<le> s'" "length reqs < max_entries c"
  shows "\<exists>e. fst (verify_signed_request K s' ro doc (verify_all K ro reqs (snd (verify_signed_request K s ro doc c)))) = Inl e"
proof (cases "check_signed K s' ro doc")
  case (Inl e)
  then show ?thesis by (simp add: verify_signed_request_def)
next
  case (Inr v)
  obtain mid nonce body where v: "v = (mid, nonce, body)" by (cases v)
  from first obtain mid0 nonce0 body0 where ch: "check_signed K s ro doc = Inr (mid0, nonce0, body0)"
    and acc: "fst (check_and_add s nonce0 c) = Inr ()" by (cases r) (auto simp: verify_signed_Inr)
  from ch Inr v have same: "nonce0 = nonce" by (auto simp: check_signed_Inr)
  from ch Inr v obtain t where "check_fresh t s DEFAULT_MAX_AGE = Inr ()" "check_fresh t s' DEFAULT_MAX_AGE = Inr ()"
    by (auto simp: check_signed_Inr)
  then have near: "s' < s + ttl c" using long by (auto simp: check_fresh_iff)
  have after: "snd (verify_signed_request K s ro doc c) = snd (check_and_add s nonce c)"
    using ch same by (auto simp: verify_signed_request_def split: prod.splits sum.splits)
  have "\<exists>err. fst (check_and_add s' nonce (cache.run (authentic K ro reqs) (snd (check_and_add s nonce c)))) = Inl err"
    using c acc [unfolded same]
  proof (rule cache.refused_again)
    show "length (authentic K ro reqs) \<le> room_of c"
      using authentic_times(2) [of K ro reqs] run(4) by (simp add: room_of_def)
    show "sorted (s # map fst (authentic K ro reqs))" "\<forall>p \<in> set (authentic K ro reqs). fst p \<le> s'"
      using run authentic_sorted [of reqs K ro] authentic_times(1) [of K ro reqs] by (force simp: list_all_iff)+
  qed (use run near in auto)
  with Inr v show ?thesis unfolding after verify_all_run
    by (auto simp: verify_signed_request_def [of K s'] split: prod.splits sum.splits)
qed

section \<open>Witnesses\<close>

definition demo_keyed :: member where
  "demo_keyed = (demo_member ''b'')\<lparr>m_sign_pub := b64 demo_key\<rparr>"

definition demo_auth_roster :: roster where
  "demo_auth_roster = demo_roster\<lparr>members := [(''b'', demo_keyed)]\<rparr>"

definition demo_body :: "(string \<times> json) list" where
  "demo_body = [(''model'', JStr ''m'')]"

definition demo_request :: json where
  "demo_request = (case sign_request demo_crypto ''b'' demo_body demo_key ''n1'' (IntN 1000) of
     Inl e \<Rightarrow> JNull | Inr doc \<Rightarrow> doc)"

lemma demo_request_signed: "sign_request demo_crypto ''b'' demo_body demo_key ''n1'' (IntN 1000) = Inr demo_request"
  by (simp add: demo_request_def sign_request_def signed_payload_def canonical_def demo_body_def)

lemma demo_request_checked: "check_signed demo_crypto 1010 demo_auth_roster demo_request = Inr (''b'', ''n1'', demo_body)"
proof -
  obtain payload where p: "signed_payload (float_repr demo_crypto) ''b'' ''n1'' (IntN 1000) demo_body = Inr payload"
    by (simp add: signed_payload_def canonical_def demo_body_def)
  then have doc: "demo_request = JObj [(''member_id'', JStr ''b''), (''nonce'', JStr ''n1''), (''ts'', JNum (IntN 1000)),
      (''body'', JObj demo_body), (''sig'', JStr (sign_bytes demo_crypto payload demo_key))]"
    using demo_request_signed by (auto simp: sign_request_def)
  have v: "verify_bytes demo_crypto payload (sign_bytes demo_crypto payload demo_key) demo_key = Inr ()"
    using verify_sign_bytes [OF demo_crypto_laws, of payload demo_key] by (simp add: demo_crypto_def)
  have ne: "sign_bytes demo_crypto payload demo_key \<noteq> []" by (simp add: sign_bytes_def demo_crypto_def demo_key_def)
  have fr: "check_fresh (IntN 1000) 1010 DEFAULT_MAX_AGE = Inr ()" by code_simp
  have m: "map_of (members demo_auth_roster) ''b'' = Some demo_keyed" by (simp add: demo_auth_roster_def)
  show ?thesis unfolding doc check_signed_Inr using p v ne fr m
    by (simp add: demo_keyed_def unb64_b64)
qed

lemma demo_accepted: "fst (verify_signed_request demo_crypto 1010 demo_auth_roster demo_request new_cache) = Inr (''b'', demo_body)"
proof -
  have "fst (check_and_add 1010 ''n1'' new_cache) = Inr ()"
    by (simp add: check_and_add_def new_cache_def DEFAULT_MAX_ENTRIES_def)
  then show ?thesis using demo_request_checked by (auto simp: verify_signed_Inr)
qed

theorem signed_request_sound_witness:
  "\<exists>c'. verify_signed_request demo_crypto 1010 demo_auth_roster demo_request new_cache = (Inr (''b'', demo_body), c')
     \<and> (\<exists>nonce. map_of (seen c') nonce = Some (1010 + ttl new_cache))"
proof -
  obtain c' where run: "verify_signed_request demo_crypto 1010 demo_auth_roster demo_request new_cache = (Inr (''b'', demo_body), c')"
    using demo_accepted by (cases "verify_signed_request demo_crypto 1010 demo_auth_roster demo_request new_cache") auto
  from signed_request_sound [OF run] run show ?thesis by (fastforce simp: new_cache_def)
qed

theorem sign_verify_request_witness:
  "fst (verify_signed_request demo_crypto 1010 demo_auth_roster demo_request new_cache) = Inr (''b'', demo_body)"
proof (rule sign_verify_request [OF demo_crypto_laws _ _ _ _ demo_request_signed])
  show "map_of (members demo_auth_roster) ''b'' = Some demo_keyed" by (simp add: demo_auth_roster_def)
  show "m_sign_pub demo_keyed = b64 (ed_pub demo_crypto demo_key)"
    by (simp add: demo_keyed_def demo_crypto_def)
  show "ed_sign demo_crypto demo_key bs \<noteq> []" for bs by (simp add: demo_crypto_def demo_key_def)
  show "check_fresh (IntN 1000) 1010 DEFAULT_MAX_AGE = Inr ()" by code_simp
  show "fst (check_and_add 1010 ''n1'' new_cache) = Inr ()"
    by (simp add: check_and_add_def new_cache_def DEFAULT_MAX_ENTRIES_def)
qed simp_all

theorem signed_request_once_witness:
  "\<exists>e. fst (verify_signed_request demo_crypto 1100 demo_auth_roster demo_request
     (verify_all demo_crypto demo_auth_roster [(1050, JNull)]
        (snd (verify_signed_request demo_crypto 1010 demo_auth_roster demo_request new_cache)))) = Inl e"
proof (rule signed_request_once [OF new_cache_ok [of 1000] _ _ demo_accepted])
qed (simp_all add: new_cache_def DEFAULT_MAX_AGE_def CLOCK_SKEW_GRACE_def DEFAULT_MAX_ENTRIES_def)

end
