(* ===== verification/Ledger.thy ===== *)
theory Ledger
  imports PyValue
begin

text \<open>
  \<open>ledger.py\<close>: the contribution and consumption tables and the fair-share score. A table is the
  list of its rows in insertion order; the \<open>UNIQUE\<close> constraint on \<open>request_id\<close> with
  \<open>INSERT OR IGNORE\<close> is a test before the row is added. The autoincrement ids and the timestamps
  \<open>recorded_at\<close>, which nothing reads, are left out; sums of \<open>REAL\<close> columns are exact, and a \<open>SUM\<close> of
  integers that leaves 64 bits raises. The three
  metadata columns hold whatever JSON the receipt or the roster had there: what SQLite cannot bind
  raises, and a NULL, which the columns forbid, makes \<open>OR IGNORE\<close> drop the row.
\<close>

record contribution_row =
  cr_peer :: string
  cr_owner :: string
  cr_gb :: rat
  cr_seconds :: rat

record consumption_row =
  co_member :: string
  co_request :: string
  co_peer :: string
  co_prompt :: int
  co_completion :: int
  co_engine :: json
  co_engine_version :: json
  co_hw_class :: json

record ledger =
  contributions :: "contribution_row list"
  consumptions :: "consumption_row list"

record balance =
  b_member :: string
  gb_hours :: rat
  ktokens :: rat
  score :: rat

record totals =
  t_gb_hours :: rat
  t_tokens :: int
  t_requests :: nat

definition PRIOR_GB_HOURS :: rat where "PRIOR_GB_HOURS = 1"
definition PRIOR_KTOKENS :: rat where "PRIOR_KTOKENS = 1"

definition empty_ledger :: ledger where
  "empty_ledger = \<lparr>contributions = [], consumptions = []\<rparr>"

definition record_contribution :: "string \<Rightarrow> string \<Rightarrow> rat \<Rightarrow> rat \<Rightarrow> ledger \<Rightarrow> ledger" where
  "record_contribution pid own resident_gb seconds l =
     (if seconds \<le> 0 \<or> resident_gb < 0 then l
      else l\<lparr>contributions := contributions l
        @ [\<lparr>cr_peer = pid, cr_owner = own, cr_gb = resident_gb, cr_seconds = seconds\<rparr>]\<rparr>)"

fun unbindable :: "json \<Rightarrow> bool" where
  "unbindable (JNum (IntN n)) = (n < - (2 ^ 63) \<or> 2 ^ 63 \<le> n)"
| "unbindable (JList xs) = True"
| "unbindable (JObj d) = True"
| "unbindable v = False"

definition row_meta :: "consumption_row \<Rightarrow> json list" where
  "row_meta row = [co_engine row, co_engine_version row, co_hw_class row]"

text \<open>Binding the parameters raises; the table is as it was.\<close>

definition sql_error :: "consumption_row \<Rightarrow> bool" where
  "sql_error row \<longleftrightarrow> list_ex unbindable (JInt (co_prompt row) # JInt (co_completion row) # row_meta row)"

definition null_meta :: "consumption_row \<Rightarrow> bool" where
  "null_meta row \<longleftrightarrow> list_ex (\<lambda>v. v = JNull \<or> v = JNum NaN) (row_meta row)"

definition record_consumption :: "consumption_row \<Rightarrow> ledger \<Rightarrow> ledger" where
  "record_consumption row l =
     (if sql_error row \<or> null_meta row \<or> co_request row \<in> co_request ` set (consumptions l) then l
      else l\<lparr>consumptions := consumptions l @ [row]\<rparr>)"

text \<open>The \<open>SUM\<close>s of the two queries; \<open>COALESCE\<close> makes the empty sum 0.\<close>

definition gb_seconds :: "contribution_row list \<Rightarrow> rat" where
  "gb_seconds rows = sum_list (map (\<lambda>r. cr_gb r * cr_seconds r) rows)"

definition tokens_of :: "consumption_row list \<Rightarrow> int" where
  "tokens_of rows = sum_list (map (\<lambda>r. co_prompt r + co_completion r) rows)"

definition balance_of :: "ledger \<Rightarrow> string \<Rightarrow> balance" where
  "balance_of l mid =
     (let g = gb_seconds (filter (\<lambda>r. cr_owner r = mid) (contributions l)) / 3600;
          t = tokens_of (filter (\<lambda>r. co_member r = mid) (consumptions l));
          k = of_int t / 1000
      in \<lparr>b_member = mid, gb_hours = g, ktokens = k, score = (g + PRIOR_GB_HOURS) / (k + PRIOR_KTOKENS)\<rparr>)"

definition fair_share :: "ledger \<Rightarrow> string list \<Rightarrow> (string, rat) dict" where
  "fair_share l mids = fold (\<lambda>mid d. AList.update mid (score (balance_of l mid)) d) mids []"

definition ledger_totals :: "ledger \<Rightarrow> totals" where
  "ledger_totals l = \<lparr>t_gb_hours = gb_seconds (contributions l) / 3600, t_tokens = tokens_of (consumptions l),
     t_requests = length (consumptions l)\<rparr>"

text \<open>
  SQLite adds two integers as a \<open>REAL\<close> when their sum does not fit 64 bits; its \<open>SUM\<close> raises when all inputs
  are integers and a partial sum does not fit. These are \<open>balance\<close>, \<open>fair_share\<close> and \<open>totals\<close> with that error.
\<close>

datatype sum_error = IntegerOverflow

definition fits64 :: "int \<Rightarrow> bool" where
  "fits64 n \<longleftrightarrow> - (2 ^ 63) \<le> n \<and> n < 2 ^ 63"

fun partial_sums :: "int \<Rightarrow> int list \<Rightarrow> int list" where
  "partial_sums a [] = []"
| "partial_sums a (x # xs) = (a + x) # partial_sums (a + x) xs"

definition sum_raises :: "consumption_row list \<Rightarrow> bool" where
  "sum_raises rows \<longleftrightarrow>
     (let xs = map (\<lambda>r. co_prompt r + co_completion r) rows
      in list_all fits64 xs \<and> \<not> list_all fits64 (partial_sums 0 xs))"

definition sql_balance :: "ledger \<Rightarrow> string \<Rightarrow> sum_error + balance" where
  "sql_balance l mid =
     (if sum_raises (filter (\<lambda>r. co_member r = mid) (consumptions l)) then Inl IntegerOverflow else Inr (balance_of l mid))"

definition sql_fair_share :: "ledger \<Rightarrow> string list \<Rightarrow> sum_error + (string, rat) dict" where
  "sql_fair_share l mids = rbind (rmap (sql_balance l) mids) (\<lambda>bs. Inr (fair_share l mids))"

definition sql_totals :: "ledger \<Rightarrow> sum_error + totals" where
  "sql_totals l = (if sum_raises (consumptions l) then Inl IntegerOverflow else Inr (ledger_totals l))"

section \<open>The tables stay well formed\<close>

text \<open>
  The writes are the only operations that change the tables; every run of them keeps the rows
  positive and the request ids unique.
\<close>

datatype ledger_op =
    RecordContribution string string rat rat
  | RecordConsumption consumption_row

fun ledger_step :: "ledger_op \<Rightarrow> ledger \<Rightarrow> ledger" where
  "ledger_step (RecordContribution p m g s) l = record_contribution p m g s l"
| "ledger_step (RecordConsumption row) l = record_consumption row l"

definition ledger_ok :: "ledger \<Rightarrow> bool" where
  "ledger_ok l \<longleftrightarrow> list_all (\<lambda>r. 0 < cr_seconds r \<and> 0 \<le> cr_gb r) (contributions l)
     \<and> distinct (map co_request (consumptions l))"

definition tokens_ok :: "ledger \<Rightarrow> bool" where
  "tokens_ok l \<longleftrightarrow> list_all (\<lambda>r. 0 \<le> co_prompt r \<and> 0 \<le> co_completion r) (consumptions l)"

lemma ledger_ok_empty [simp]: "ledger_ok empty_ledger"
  by (simp add: ledger_ok_def empty_ledger_def)

lemma ledger_step_ok: "ledger_ok l \<Longrightarrow> ledger_ok (ledger_step a l)"
  by (cases a) (auto simp: ledger_ok_def record_contribution_def record_consumption_def)

interpretation ledger: step_invariant ledger_step ledger_ok
  by unfold_locales (rule ledger_step_ok)

lemma ledger_ok_contribution [simp]: "ledger_ok l \<Longrightarrow> ledger_ok (record_contribution p m g s l)"
  using ledger_step_ok [of l "RecordContribution p m g s"] by simp

lemma ledger_ok_consumption [simp]: "ledger_ok l \<Longrightarrow> ledger_ok (record_consumption row l)"
  using ledger_step_ok [of l "RecordConsumption row"] by simp

lemma tokens_ok_consumption:
  "tokens_ok l \<Longrightarrow> 0 \<le> co_prompt row \<Longrightarrow> 0 \<le> co_completion row \<Longrightarrow> tokens_ok (record_consumption row l)"
  by (auto simp: tokens_ok_def record_consumption_def)

lemma consumptions_contribution [simp]: "consumptions (record_contribution p m g s l) = consumptions l"
  by (simp add: record_contribution_def)

lemma contributions_consumption [simp]: "contributions (record_consumption row l) = contributions l"
  by (simp add: record_consumption_def)

section \<open>Sums\<close>

lemma gb_seconds_simps [simp]:
  "gb_seconds [] = 0"
  "gb_seconds (r # rs) = cr_gb r * cr_seconds r + gb_seconds rs"
  "gb_seconds (rs @ qs) = gb_seconds rs + gb_seconds qs"
  by (simp_all add: gb_seconds_def)

lemma tokens_of_simps [simp]:
  "tokens_of [] = 0"
  "tokens_of (q # qs) = co_prompt q + co_completion q + tokens_of qs"
  "tokens_of (qs @ ps) = tokens_of qs + tokens_of ps"
  by (simp_all add: tokens_of_def)

lemma gb_seconds_nonneg: "list_all (\<lambda>r. 0 < cr_seconds r \<and> 0 \<le> cr_gb r) rs \<Longrightarrow> 0 \<le> gb_seconds rs"
  by (induction rs) auto

lemma tokens_of_nonneg: "list_all (\<lambda>r. 0 \<le> co_prompt r \<and> 0 \<le> co_completion r) rs \<Longrightarrow> 0 \<le> tokens_of rs"
  by (induction rs) auto

lemma gb_hours_nonneg: "ledger_ok l \<Longrightarrow> 0 \<le> gb_hours (balance_of l m)"
  by (auto simp: balance_of_def Let_def ledger_ok_def list_all_iff intro!: gb_seconds_nonneg)

lemma ktokens_nonneg: "tokens_ok l \<Longrightarrow> 0 \<le> ktokens (balance_of l m)"
  by (auto simp: balance_of_def Let_def tokens_ok_def list_all_iff intro!: tokens_of_nonneg)

lemma score_eq: "score (balance_of l m) = (gb_hours (balance_of l m) + 1) / (ktokens (balance_of l m) + 1)"
  by (simp add: balance_of_def Let_def PRIOR_GB_HOURS_def PRIOR_KTOKENS_def)

lemma score_pos: "ledger_ok l \<Longrightarrow> tokens_ok l \<Longrightarrow> 0 < score (balance_of l m)"
  using gb_hours_nonneg [of l m] ktokens_nonneg [of l m] by (simp add: score_eq)

lemma balance_contribution:
  "gb_hours (balance_of (record_contribution p m g s l) m') =
     gb_hours (balance_of l m') + (if m' = m \<and> 0 < s \<and> 0 \<le> g then g * s / 3600 else 0)"
  "ktokens (balance_of (record_contribution p m g s l) m') = ktokens (balance_of l m')"
  by (auto simp: balance_of_def Let_def record_contribution_def add_divide_distrib)

lemma balance_consumption:
  "gb_hours (balance_of (record_consumption row l) m) = gb_hours (balance_of l m)"
  "ktokens (balance_of (record_consumption row l) m) =
     ktokens (balance_of l m) + (if co_member row = m \<and> \<not> sql_error row \<and> \<not> null_meta row \<and> co_request row \<notin> co_request ` set (consumptions l)
       then of_int (co_prompt row + co_completion row) / 1000 else 0)"
  by (auto simp: balance_of_def Let_def record_consumption_def add_divide_distrib)

lemma fair_share_lookup: "map_of (fair_share l mids) m = (if m \<in> set mids then Some (score (balance_of l m)) else None)"
proof -
  have "map_of (fold (\<lambda>mid d. AList.update mid (f mid) d) mids d) m =
      (if m \<in> set mids then Some (f m) else map_of d m)" for f and d :: "(string, rat) dict"
    by (induction mids arbitrary: d) (auto simp: update_conv')
  then show ?thesis by (simp add: fair_share_def)
qed

lemma gb_seconds_filter_sum:
  "finite M \<Longrightarrow> cr_owner ` set rs \<subseteq> M \<Longrightarrow> (\<Sum>m\<in>M. gb_seconds (filter (\<lambda>r. cr_owner r = m) rs)) = gb_seconds rs"
proof (induction rs)
  case (Cons r rs)
  have "(\<Sum>m\<in>M. gb_seconds (filter (\<lambda>q. cr_owner q = m) (r # rs))) =
      (\<Sum>m\<in>M. (if m = cr_owner r then cr_gb r * cr_seconds r else 0) + gb_seconds (filter (\<lambda>q. cr_owner q = m) rs))"
    by (rule sum.cong) auto
  with Cons show ?case by (simp add: sum.distrib)
qed simp

lemma tokens_filter_sum:
  "finite M \<Longrightarrow> co_member ` set rs \<subseteq> M \<Longrightarrow> (\<Sum>m\<in>M. tokens_of (filter (\<lambda>r. co_member r = m) rs)) = tokens_of rs"
proof (induction rs)
  case (Cons r rs)
  have "(\<Sum>m\<in>M. tokens_of (filter (\<lambda>q. co_member q = m) (r # rs))) =
      (\<Sum>m\<in>M. (if m = co_member r then co_prompt r + co_completion r else 0) + tokens_of (filter (\<lambda>q. co_member q = m) rs))"
    by (rule sum.cong) auto
  with Cons show ?case by (simp add: sum.distrib)
qed simp

section \<open>Properties\<close>

text \<open>
  every run of ledger writes from the empty tables leaves rows that are positive and request ids that are
  unique, so a replayed delivery is never billed twice.
\<close>
theorem ledger_run_ok: "ledger_ok (fold ledger_step ops empty_ledger)"
  by (rule ledger.run_inv) simp

text \<open>
  Once a consumption is recorded, recording its request id again, under any member or token counts,
  changes nothing.
\<close>
theorem consumption_idempotent:
  assumes "co_request row' = co_request row" "\<not> sql_error row" "\<not> null_meta row"
  shows "record_consumption row' (record_consumption row l) = record_consumption row l"
  using assms by (auto simp: record_consumption_def)

definition demo_row :: "string \<Rightarrow> int \<Rightarrow> consumption_row" where
  "demo_row mid n = \<lparr>co_member = mid, co_request = ''r1'', co_peer = ''p'', co_prompt = n, co_completion = n,
     co_engine = JStr [], co_engine_version = JStr [], co_hw_class = JStr []\<rparr>"

theorem consumption_idempotent_witness:
  "record_consumption (demo_row ''b'' 9) (record_consumption (demo_row ''a'' 5) empty_ledger) =
     record_consumption (demo_row ''a'' 5) empty_ledger"
  by (rule consumption_idempotent) (simp_all add: demo_row_def sql_error_def null_meta_def row_meta_def)

text \<open>
  the fair-share score. It is positive; a member without rows has score 1; a credited contribution
  raises the contributor's score strictly and nobody else's changes; a newly recorded consumption
  lowers the consumer's score strictly and nobody else's changes.
\<close>
theorem fair_share_score:
  assumes "ledger_ok l" "tokens_ok l" "0 < g" "0 < s" "0 \<le> co_prompt row" "0 \<le> co_completion row"
    "0 < co_prompt row + co_completion row" "\<not> sql_error row" "\<not> null_meta row" "co_request row \<notin> co_request ` set (consumptions l)"
  shows "0 < score (balance_of l m)
    \<and> score (balance_of empty_ledger m) = 1
    \<and> score (balance_of l m) < score (balance_of (record_contribution p m g s l) m)
    \<and> (m' \<noteq> m \<longrightarrow> score (balance_of (record_contribution p m g s l) m') = score (balance_of l m'))
    \<and> score (balance_of (record_consumption row l) (co_member row)) < score (balance_of l (co_member row))
    \<and> (m' \<noteq> co_member row \<longrightarrow> score (balance_of (record_consumption row l) m') = score (balance_of l m'))"
proof -
  have k: "0 \<le> ktokens (balance_of l n)" and g0: "0 \<le> gb_hours (balance_of l n)" for n
    using assms by (simp_all add: ktokens_nonneg gb_hours_nonneg)
  have "0 < g * s" using assms by simp
  then have "score (balance_of l m) < score (balance_of (record_contribution p m g s l) m)"
    using k [of m] assms by (simp add: score_eq balance_contribution divide_strict_right_mono)
  moreover have "0 < of_int (co_prompt row + co_completion row) / (1000 :: rat)" using assms(7) by simp
  then have "score (balance_of (record_consumption row l) (co_member row)) < score (balance_of l (co_member row))"
    unfolding score_eq balance_consumption using k [of "co_member row"] g0 [of "co_member row"] assms(8-10)
    by (intro frac_less2) simp_all
  moreover have "score (balance_of empty_ledger m) = 1" by (simp add: empty_ledger_def balance_of_def Let_def PRIOR_GB_HOURS_def PRIOR_KTOKENS_def)
  ultimately show ?thesis using assms score_pos [of l m]
    by (simp add: score_eq balance_contribution balance_consumption)
qed

theorem fair_share_score_witness:
  "score (balance_of empty_ledger ''a'') < score (balance_of (record_contribution ''p'' ''a'' 62 3600 empty_ledger) ''a'')"
  using fair_share_score [of empty_ledger 62 3600 "demo_row ''a'' 5" "''a''" "''p''" "''a''"]
  by (simp add: empty_ledger_def ledger_ok_def tokens_ok_def demo_row_def sql_error_def null_meta_def row_meta_def)

lemma partial_sums_bound:
  "\<forall>x \<in> set xs. 0 \<le> x \<Longrightarrow> 0 \<le> a \<Longrightarrow> list_all fits64 (partial_sums a xs) \<longleftrightarrow> xs = [] \<or> a + sum_list xs < 2 ^ 63"
proof (induction xs arbitrary: a)
  case (Cons x xs)
  have "0 \<le> sum_list xs" using Cons.prems(1) by (intro sum_list_nonneg) simp
  with Cons.prems Cons.IH [of "a + x"] show ?case by (cases "xs = []") (auto simp: fits64_def add.assoc)
qed simp

text \<open>
  Of counts that are not negative, the sums raise exactly when every row fits 64 bits and the total does not.
  A receipt is the peer's own word, so a peer that states 2^62 tokens twice makes the member's balance, and the
  totals, raise from then on.
\<close>
theorem sums_raise_exactly:
  assumes "\<forall>r \<in> set rows. 0 \<le> co_prompt r \<and> 0 \<le> co_completion r"
  shows "sum_raises rows \<longleftrightarrow> (\<forall>r \<in> set rows. co_prompt r + co_completion r < 2 ^ 63) \<and> 2 ^ 63 \<le> tokens_of rows"
proof -
  let ?xs = "map (\<lambda>r. co_prompt r + co_completion r) rows"
  have "\<forall>x \<in> set ?xs. 0 \<le> x" using assms by auto
  from partial_sums_bound [OF this, of 0] have "list_all fits64 (partial_sums 0 ?xs) \<longleftrightarrow> tokens_of rows < 2 ^ 63"
    by (auto simp: tokens_of_def)
  moreover have "list_all fits64 ?xs \<longleftrightarrow> (\<forall>r \<in> set rows. co_prompt r + co_completion r < 2 ^ 63)"
    using assms by (auto simp: list_all_iff fits64_def)
  ultimately show ?thesis by (auto simp: sum_raises_def Let_def)
qed

text \<open>
  The totals are the sum of the members' balances: no credit and no token is lost or counted twice
  between the two views of the tables.
\<close>
theorem totals_are_balances:
  assumes "finite M" "cr_owner ` set (contributions l) \<subseteq> M" "co_member ` set (consumptions l) \<subseteq> M"
  shows "t_gb_hours (ledger_totals l) = (\<Sum>m\<in>M. gb_hours (balance_of l m))
    \<and> of_int (t_tokens (ledger_totals l)) = 1000 * (\<Sum>m\<in>M. ktokens (balance_of l m))"
proof -
  have "gb_seconds (contributions l) = (\<Sum>m\<in>M. gb_seconds (filter (\<lambda>r. cr_owner r = m) (contributions l)))"
    using assms by (simp add: gb_seconds_filter_sum)
  moreover have "tokens_of (consumptions l) = (\<Sum>m\<in>M. tokens_of (filter (\<lambda>r. co_member r = m) (consumptions l)))"
    using assms by (simp add: tokens_filter_sum)
  ultimately show ?thesis
    by (simp add: ledger_totals_def balance_of_def Let_def sum_divide_distrib sum_distrib_left)
qed

theorem totals_are_balances_witness:
  "t_gb_hours (ledger_totals (record_contribution ''p'' ''a'' 62 3600 empty_ledger)) =
     (\<Sum>m\<in>{''a''}. gb_hours (balance_of (record_contribution ''p'' ''a'' 62 3600 empty_ledger) m))"
  using totals_are_balances [of "{''a''}" "record_contribution ''p'' ''a'' 62 3600 empty_ledger"]
  by (simp add: empty_ledger_def record_contribution_def)

text \<open>Two receipts of 2^62 tokens each.\<close>

theorem receipts_poison_ledger:
  "let row = (\<lambda>rid. \<lparr>co_member = ''b'', co_request = rid, co_peer = ''g'', co_prompt = 0, co_completion = 2 ^ 62,
         co_engine = JStr [], co_engine_version = JStr [], co_hw_class = JStr []\<rparr>);
       l = record_consumption (row ''r2'') (record_consumption (row ''r1'') empty_ledger)
   in sql_balance (record_consumption (row ''r1'') empty_ledger) ''b'' \<noteq> Inl IntegerOverflow
      \<and> sql_balance l ''b'' = Inl IntegerOverflow \<and> sql_totals l = Inl IntegerOverflow"
  by (simp add: Let_def record_consumption_def sql_error_def null_meta_def row_meta_def empty_ledger_def sql_balance_def sql_totals_def
      sum_raises_def fits64_def)

theorem sums_raise_exactly_witness: "\<not> sum_raises [demo_row ''r'' 5]"
  using sums_raise_exactly [of "[demo_row ''r'' 5]"] by (simp add: demo_row_def tokens_of_def)

end
