(* ===== verification/Sanitise.thy ===== *)
theory Sanitise
  imports PyValue
begin

text \<open>
  \<open>sanitise.py\<close>: cleaning text that came from somewhere else before it is echoed.
  \<open>str.split()\<close>, \<open>" ".join\<close> and \<open>str.isprintable\<close> are written out for the code points up to
  U+00FF. The lemmas bound the output's length and alphabet and show which input is unchanged.
\<close>

definition py_isspace :: "char \<Rightarrow> bool" where
  "py_isspace c \<longleftrightarrow> (let n = of_char c :: nat in
     (9 \<le> n \<and> n \<le> 13) \<or> (28 \<le> n \<and> n \<le> 32) \<or> n = 133 \<or> n = 160)"

definition py_isprintable :: "char \<Rightarrow> bool" where
  "py_isprintable c \<longleftrightarrow> (let n = of_char c :: nat in
     (32 \<le> n \<and> n \<le> 126) \<or> (161 \<le> n \<and> n \<noteq> 173))"

text \<open>\<open>text.split()\<close>: maximal runs of non-space characters; \<open>cur\<close> is the run being read, reversed.\<close>

fun split_go :: "string \<Rightarrow> string \<Rightarrow> string list" where
  "split_go cur [] = (if cur = [] then [] else [rev cur])"
| "split_go cur (c # cs) =
     (if py_isspace c then (if cur = [] then split_go [] cs else rev cur # split_go [] cs)
      else split_go (c # cur) cs)"

definition py_split :: "string \<Rightarrow> string list" where
  "py_split s = split_go [] s"

fun join_space :: "string list \<Rightarrow> string" where
  "join_space [] = []"
| "join_space [w] = w"
| "join_space (w # v # ws) = w @ CHR '' '' # join_space (v # ws)"

definition MAX_DETAIL_CHARS :: nat where "MAX_DETAIL_CHARS = 200"
definition MAX_MESSAGE_CHARS :: nat where "MAX_MESSAGE_CHARS = 400"

definition clean :: "json \<Rightarrow> nat \<Rightarrow> string" where
  "clean text limit =
     (case as_str text of
        None \<Rightarrow> []
      | Some s \<Rightarrow> take limit (filter py_isprintable (join_space (py_split s))))"

definition sanitise_detail :: "json \<Rightarrow> string" where
  "sanitise_detail detail = clean detail MAX_DETAIL_CHARS"

definition sanitise_message :: "json \<Rightarrow> string" where
  "sanitise_message message = clean message MAX_MESSAGE_CHARS"

section \<open>Bounds and alphabet\<close>

lemma length_clean: "length (clean v n) \<le> n"
  by (auto simp: clean_def split: option.splits)

lemma clean_printable: "c \<in> set (clean v n) \<Longrightarrow> py_isprintable c"
  by (auto simp: clean_def split: option.splits dest: in_set_takeD)

lemma printable_space: "py_isprintable c \<Longrightarrow> py_isspace c \<Longrightarrow> c = CHR '' ''"
proof -
  assume "py_isprintable c" "py_isspace c"
  then have "of_char c = (32 :: nat)"
    by (auto simp: py_isprintable_def py_isspace_def Let_def)
  then have "of_char c = (of_char CHR '' '' :: nat)" by simp
  then show ?thesis by (simp only: of_char_eq_iff)
qed

section \<open>Splitting and joining\<close>

definition is_word :: "string \<Rightarrow> bool" where
  "is_word w \<longleftrightarrow> w \<noteq> [] \<and> (\<forall>c \<in> set w. \<not> py_isspace c)"

lemma space_is_space [simp]: "py_isspace CHR '' ''"
  by (simp add: py_isspace_def)

lemma space_is_printable [simp]: "py_isprintable CHR '' ''"
  by (simp add: py_isprintable_def)

lemma split_go_word:
  "\<forall>c \<in> set w. \<not> py_isspace c \<Longrightarrow> split_go cur (w @ rest) = split_go (rev w @ cur) rest"
  by (induction w arbitrary: cur) auto

lemma split_go_words:
  "\<forall>c \<in> set cur. \<not> py_isspace c \<Longrightarrow> w \<in> set (split_go cur s) \<Longrightarrow> is_word w"
proof (induction cur s rule: split_go.induct)
  case (1 cur)
  then show ?case by (cases "cur = []") (simp_all add: is_word_def)
next
  case (2 cur c cs)
  show ?case
  proof (cases "py_isspace c")
    case True
    with 2 show ?thesis by (cases "cur = []") (force simp: is_word_def)+
  next
    case False
    with 2 show ?thesis by simp
  qed
qed

lemma py_split_words: "w \<in> set (py_split s) \<Longrightarrow> is_word w"
  unfolding py_split_def by (rule split_go_words) auto

lemma py_split_join: "(\<And>w. w \<in> set ws \<Longrightarrow> is_word w) \<Longrightarrow> py_split (join_space ws) = ws"
proof (induction ws rule: join_space.induct)
  case 1
  show ?case by (simp add: py_split_def)
next
  case (2 w)
  then have "is_word w" by simp
  then show ?case
    using split_go_word [of w "[]" "[]"] by (simp add: py_split_def is_word_def)
next
  case (3 w v ws)
  then have w: "is_word w" and IH: "py_split (join_space (v # ws)) = v # ws" by auto
  have "py_split (join_space (w # v # ws)) = split_go (rev w) (CHR '' '' # join_space (v # ws))"
    using w split_go_word [of w "[]"] by (simp add: py_split_def is_word_def)
  also have "\<dots> = w # py_split (join_space (v # ws))"
    using w by (simp add: py_split_def is_word_def)
  finally show ?case using IH by simp
qed

lemma set_join_space: "c \<in> set (join_space ws) \<Longrightarrow> c = CHR '' '' \<or> (\<exists>w \<in> set ws. c \<in> set w)"
  by (induction ws rule: join_space.induct) auto

text \<open>
  Text that is already clean (printable words, one space between them, within the bound) passes
  unchanged; so does the output of the filter on any text without unprintable characters.
\<close>

definition clean_text :: "nat \<Rightarrow> string \<Rightarrow> bool" where
  "clean_text n s \<longleftrightarrow> (\<exists>ws. s = join_space ws \<and> (\<forall>w \<in> set ws. is_word w \<and> (\<forall>c \<in> set w. py_isprintable c)))
     \<and> length s \<le> n"

lemma clean_fixed: "clean_text n s \<Longrightarrow> clean (JStr s) n = s"
proof -
  assume "clean_text n s"
  then obtain ws where s: "s = join_space ws"
    and ws: "\<forall>w \<in> set ws. is_word w \<and> (\<forall>c \<in> set w. py_isprintable c)"
    and n: "length s \<le> n"
    by (auto simp: clean_text_def)
  have "\<forall>c \<in> set s. py_isprintable c"
    using ws s by (auto dest: set_join_space)
  then have "filter py_isprintable s = s" by (simp add: filter_id_conv)
  moreover have "join_space (py_split s) = s" using ws s by (simp add: py_split_join)
  ultimately show ?thesis using n by (simp add: clean_def)
qed

lemma join_split_printable_clean:
  assumes "\<forall>c \<in> set s. py_isprintable c \<or> py_isspace c"
    and "length (join_space (py_split s)) \<le> n"
  shows "clean (JStr s) n = join_space (py_split s)"
proof -
  have mem: "c \<in> set s \<or> c \<in> set cur" if "w \<in> set (split_go cur s)" "c \<in> set w" for w c cur
    using that by (induction cur s rule: split_go.induct) (auto split: if_splits)
  have "clean_text n (join_space (py_split s))"
    unfolding clean_text_def
  proof (intro conjI exI [of _ "py_split s"] ballI)
    fix w c assume w: "w \<in> set (py_split s)" and c: "c \<in> set w"
    from py_split_words [OF w] c have "\<not> py_isspace c" by (simp add: is_word_def)
    moreover have "c \<in> set s" using mem [of w "[]" c] w c by (simp add: py_split_def)
    ultimately show "py_isprintable c" using assms(1) by blast
  qed (use assms py_split_words in auto)
  then have "clean (JStr (join_space (py_split s))) n = join_space (py_split s)"
    by (rule clean_fixed)
  then show ?thesis
    using py_split_join [of "py_split s"] py_split_words by (simp add: clean_def)
qed

section \<open>Properties\<close>

text \<open>
  whatever a remote machine puts in a detail or an error message, a list, a number or a hostile string,
  what is echoed is at most 200 or 400 printable characters; clean text within the bound is unchanged.
\<close>
theorem sanitised_text:
  "length (sanitise_detail v) \<le> 200 \<and> length (sanitise_message v) \<le> 400
   \<and> list_all py_isprintable (sanitise_detail v) \<and> list_all py_isprintable (sanitise_message v)
   \<and> (as_str v = None \<longrightarrow> sanitise_detail v = [] \<and> sanitise_message v = [])
   \<and> (clean_text 200 s \<longrightarrow> sanitise_detail (JStr s) = s) \<and> (clean_text 400 s \<longrightarrow> sanitise_message (JStr s) = s)"
  using length_clean [of v 200] length_clean [of v 400]
  by (auto simp: sanitise_detail_def sanitise_message_def MAX_DETAIL_CHARS_def MAX_MESSAGE_CHARS_def list_all_iff
      clean_fixed clean_printable) (simp_all add: clean_def)

theorem sanitised_text_witness: "sanitise_detail (JStr ''out of memory'') = ''out of memory''"
proof -
  have "clean_text 200 ''out of memory''"
    unfolding clean_text_def by (rule conjI, rule exI [of _ "[''out'', ''of'', ''memory'']"]) (simp_all add: is_word_def py_isspace_def py_isprintable_def)
  then show ?thesis using sanitised_text [of JNull "''out of memory''"] by simp
qed

text \<open>
  a space next to an unprintable character is not collapsed: the spaces are normalised before the
  unprintable characters are dropped, so two spaces in a row can be echoed.
\<close>
theorem double_space_survives:
  "sanitise_detail (JStr (''a '' @ [CHR 0x01] @ '' b'')) = ''a  b''"
  by code_simp

end
