(* ===== verification/Registry.thy ===== *)
theory Registry
  imports Roster Ledger Sanitise
begin

text \<open>
  \<open>coordinator/registry.py\<close>: which peers are up, and who is credited for the memory they hold. The
  registry's own state is the two dictionaries \<open>_state\<close> and \<open>_attest\<close>; the roster it reads and the
  ledger it writes are fields of the same record. A reading of the clock is an argument. \<open>heartbeat\<close>
  takes two, its own and the later one of the \<open>attest\<close> it may call.
\<close>

definition DEFAULT_HEARTBEAT_TIMEOUT :: rat where "DEFAULT_HEARTBEAT_TIMEOUT = 90"
definition MAX_CREDITED_INTERVAL :: rat where "MAX_CREDITED_INTERVAL = 300"

record peer_state =
  last_seen :: rat
  resident_gb :: rat
  in_flight :: int
  healthy :: bool
  consecutive_failures :: int
  ps_detail :: string
  last_credited :: rat

record attestation =
  a_last_seen :: rat
  a_resident_gb :: rat
  a_last_credited :: rat

record registry =
  reg_roster :: roster
  reg_ledger :: ledger
  heartbeat_timeout :: rat
  states :: "(string, peer_state) dict"
  attests :: "(string \<times> string, attestation) dict"

definition new_registry :: "roster \<Rightarrow> registry" where
  "new_registry ro = \<lparr>reg_roster = ro, reg_ledger = empty_ledger,
     heartbeat_timeout = DEFAULT_HEARTBEAT_TIMEOUT, states = [], attests = []\<rparr>"

section \<open>Heartbeats and attestations\<close>

definition capped :: "peer \<Rightarrow> rat \<Rightarrow> rat" where
  "capped p gb = (if 0 < p_capacity_gb p \<and> p_capacity_gb p < gb then p_capacity_gb p else max 0 gb)"

definition attesting :: "rat \<Rightarrow> string \<Rightarrow> string \<Rightarrow> registry \<Rightarrow> bool" where
  "attesting now pid mid r =
     (case map_of (attests r) (pid, mid) of
        None \<Rightarrow> False
      | Some att \<Rightarrow> now - a_last_seen att \<le> heartbeat_timeout r)"

text \<open>\<open>last_seen\<close> of an entry this creates is the sentinel 0.\<close>

definition mark_credited :: "rat \<Rightarrow> string \<Rightarrow> string \<Rightarrow> registry \<Rightarrow> registry" where
  "mark_credited now pid mid r =
     r\<lparr>attests := AList.update (pid, mid)
        (case map_of (attests r) (pid, mid) of
           None \<Rightarrow> \<lparr>a_last_seen = 0, a_resident_gb = 0, a_last_credited = now\<rparr>
         | Some att \<Rightarrow> att\<lparr>a_last_credited := now\<rparr>) (attests r)\<rparr>"

definition credit :: "string \<Rightarrow> string \<Rightarrow> rat \<Rightarrow> rat \<Rightarrow> registry \<Rightarrow> registry" where
  "credit pid mid gb seconds r = r\<lparr>reg_ledger := record_contribution pid mid gb seconds (reg_ledger r)\<rparr>"

definition declared_gb :: "peer \<Rightarrow> string \<Rightarrow> rat option" where
  "declared_gb p mid = map_option con_gb (find (\<lambda>c. con_member c = mid) (p_contributors p))"

definition serving :: "string \<Rightarrow> registry \<Rightarrow> bool" where
  "serving pid r = (case map_of (states r) pid of None \<Rightarrow> False | Some st \<Rightarrow> healthy st)"

definition attest :: "rat \<Rightarrow> string \<Rightarrow> string \<Rightarrow> rat \<Rightarrow> registry \<Rightarrow> roster_error + registry" where
  "attest now pid mid gb r =
     rbind (roster_peer (reg_roster r) pid) (\<lambda>p.
     case declared_gb p mid of
       None \<Rightarrow> Inl (RosterError (NotContributor mid pid))
     | Some declared \<Rightarrow>
         (let gb = min (max 0 gb) declared in
          case map_of (attests r) (pid, mid) of
            None \<Rightarrow> Inr (r\<lparr>attests := AList.update (pid, mid)
                \<lparr>a_last_seen = now, a_resident_gb = gb, a_last_credited = now\<rparr> (attests r)\<rparr>)
          | Some att \<Rightarrow>
              (let elapsed = min (now - a_last_credited att) MAX_CREDITED_INTERVAL;
                   r1 = (if 0 < elapsed \<and> 0 < a_resident_gb att \<and> serving pid r
                         then credit pid mid (a_resident_gb att) elapsed r else r)
               in Inr (r1\<lparr>attests := AList.update (pid, mid)
                    \<lparr>a_last_seen = now, a_resident_gb = gb, a_last_credited = now\<rparr> (attests r1)\<rparr>))))"

text \<open>
  The loop of \<open>heartbeat\<close> over the credit split: a member that attests for itself is left to its
  own beat; for the others the interval is credited when it is owed and settled in any case.
\<close>

definition settle :: "rat \<Rightarrow> string \<Rightarrow> bool \<Rightarrow> rat \<Rightarrow> string \<times> rat \<Rightarrow> registry \<Rightarrow> registry" where
  "settle now pid creditable elapsed share r =
     (if attesting now pid (fst share) r then r
      else mark_credited now pid (fst share)
        (if creditable then credit pid (fst share) (snd share) elapsed r else r))"

definition attest_owner :: "rat \<Rightarrow> peer \<Rightarrow> rat \<Rightarrow> registry \<Rightarrow> roster_error + registry" where
  "attest_owner now p gb r =
     (if p_owner p \<in> con_member ` set (p_contributors p) then attest now (p_id p) (p_owner p) gb r else Inr r)"

definition set_state :: "string \<Rightarrow> peer_state \<Rightarrow> registry \<Rightarrow> registry" where
  "set_state pid st r = r\<lparr>states := AList.update pid st (states r)\<rparr>"

definition heartbeat :: "rat \<Rightarrow> rat \<Rightarrow> string \<Rightarrow> rat \<Rightarrow> bool \<Rightarrow> json \<Rightarrow> registry \<Rightarrow> roster_error + registry" where
  "heartbeat now now' pid gb up det r =
     rbind (roster_peer (reg_roster r) pid) (\<lambda>p.
     let gb = capped p gb; det = sanitise_detail det in
     case map_of (states r) pid of
       None \<Rightarrow>
         attest_owner now' p gb (set_state pid \<lparr>last_seen = now, resident_gb = gb, in_flight = 0, healthy = up,
           consecutive_failures = 0, ps_detail = det, last_credited = now\<rparr> r)
     | Some st \<Rightarrow>
         (let elapsed = min (now - last_credited st) MAX_CREDITED_INTERVAL;
              creditable = (0 < elapsed \<and> 0 < resident_gb st \<and> healthy st);
              r1 = (if 0 < elapsed
                    then fold (settle now pid creditable elapsed) (credit_split p (resident_gb st)) r else r)
          in attest_owner now' p gb (set_state pid (st\<lparr>last_seen := now, last_credited := now,
               resident_gb := gb, healthy := up, ps_detail := det,
               consecutive_failures := (if up then 0 else consecutive_failures st)\<rparr>) r1)))"

section \<open>Liveness\<close>

definition mark_failure :: "string \<Rightarrow> registry \<Rightarrow> registry" where
  "mark_failure pid r =
     (case map_of (states r) pid of
        None \<Rightarrow> r
      | Some st \<Rightarrow>
          (let n = consecutive_failures st + 1;
               st1 = st\<lparr>consecutive_failures := n\<rparr>
           in set_state pid (if 2 \<le> n then st1\<lparr>healthy := False,
                ps_detail := show_int n @ '' consecutive relay failures''\<rparr> else st1) r))"

definition is_live :: "rat \<Rightarrow> string \<Rightarrow> registry \<Rightarrow> bool" where
  "is_live now pid r =
     (case map_of (states r) pid of
        None \<Rightarrow> False
      | Some st \<Rightarrow> healthy st \<and> now - last_seen st \<le> heartbeat_timeout r)"

text \<open>\<open>model=None\<close> and the empty model both list every peer.\<close>

definition live_peers :: "rat \<Rightarrow> string \<Rightarrow> registry \<Rightarrow> peer list" where
  "live_peers now mdl r =
     filter (\<lambda>p. is_live now (p_id p) r)
       (if mdl = [] then map snd (peers (reg_roster r)) else peers_for_model (reg_roster r) mdl)"

section \<open>Slots\<close>

definition absent_state :: peer_state where
  "absent_state = \<lparr>last_seen = 0, resident_gb = 0, in_flight = 0, healthy = False, consecutive_failures = 0,
     ps_detail = [], last_credited = 0\<rparr>"

text \<open>\<open>state\<close> stores the entry it makes up for a peer that has none.\<close>

definition state_of :: "string \<Rightarrow> registry \<Rightarrow> peer_state \<times> registry" where
  "state_of pid r =
     (case map_of (states r) pid of
        None \<Rightarrow> (absent_state, set_state pid absent_state r)
      | Some st \<Rightarrow> (st, r))"

definition has_capacity :: "rat \<Rightarrow> peer \<Rightarrow> registry \<Rightarrow> bool" where
  "has_capacity now p r \<longleftrightarrow> is_live now (p_id p) r \<and> in_flight (fst (state_of (p_id p) r)) < p_max_concurrent p"

definition acquire_slot :: "string \<Rightarrow> registry \<Rightarrow> registry" where
  "acquire_slot pid r =
     (let (st, r1) = state_of pid r in set_state pid (st\<lparr>in_flight := in_flight st + 1\<rparr>) r1)"

definition release_slot :: "string \<Rightarrow> registry \<Rightarrow> registry" where
  "release_slot pid r =
     (let (st, r1) = state_of pid r in set_state pid (st\<lparr>in_flight := max 0 (in_flight st - 1)\<rparr>) r1)"

section \<open>Reports\<close>

text \<open>\<open>round(x, 1)\<close>: to the nearest tenth, a tie to the even one.\<close>

definition round1 :: "rat \<Rightarrow> rat" where
  "round1 x =
     (let y = 10 * x; n = \<lfloor>y\<rfloor>; d = y - of_int n
      in of_int (if d < 1 / 2 \<or> (d = 1 / 2 \<and> even n) then n else n + 1) / 10)"

record contributor_view =
  cv_member :: string
  cv_declared :: rat
  cv_attesting :: bool
  cv_resident :: rat
  cv_ago :: "rat option"

definition contributor_row :: "rat \<Rightarrow> string \<Rightarrow> registry \<Rightarrow> contribution \<Rightarrow> contributor_view" where
  "contributor_row now pid r c =
     (let att = map_of (attests r) (pid, con_member c)
      in \<lparr>cv_member = con_member c, cv_declared = con_gb c, cv_attesting = attesting now pid (con_member c) r,
          cv_resident = (case att of None \<Rightarrow> 0 | Some a \<Rightarrow> a_resident_gb a),
          cv_ago = map_option (\<lambda>a. round1 (now - a_last_seen a)) att\<rparr>)"

definition contributors :: "rat \<Rightarrow> string \<Rightarrow> registry \<Rightarrow> roster_error + contributor_view list" where
  "contributors now pid r =
     rbind (roster_peer (reg_roster r) pid) (\<lambda>p. Inr (map (contributor_row now pid r) (p_contributors p)))"

record peer_view =
  v_peer :: peer
  v_live :: bool
  v_detail :: string
  v_in_flight :: int
  v_resident :: rat
  v_contributors :: "contributor_view list"

definition peer_row :: "rat \<Rightarrow> peer \<Rightarrow> registry \<Rightarrow> peer_view \<times> registry" where
  "peer_row now p r =
     (let (st, r1) = state_of (p_id p) r
      in (\<lparr>v_peer = p, v_live = is_live now (p_id p) r1, v_detail = ps_detail st, v_in_flight = in_flight st,
           v_resident = resident_gb st,
           v_contributors = map (contributor_row now (p_id p) r1) (p_contributors p)\<rparr>, r1))"

fun snapshot_rows :: "rat \<Rightarrow> peer list \<Rightarrow> registry \<Rightarrow> peer_view list \<times> registry" where
  "snapshot_rows now [] r = ([], r)"
| "snapshot_rows now (p # ps) r =
     (let (v, r1) = peer_row now p r; (vs, r2) = snapshot_rows now ps r1 in (v # vs, r2))"

definition snapshot :: "rat \<Rightarrow> registry \<Rightarrow> peer_view list \<times> registry" where
  "snapshot now r = snapshot_rows now (map snd (peers (reg_roster r))) r"

section \<open>Lookups after each update\<close>

lemma set_state_simps [simp]:
  "reg_roster (set_state pid st r) = reg_roster r" "reg_ledger (set_state pid st r) = reg_ledger r"
  "heartbeat_timeout (set_state pid st r) = heartbeat_timeout r" "attests (set_state pid st r) = attests r"
  "map_of (states (set_state pid st r)) pid' = (if pid' = pid then Some st else map_of (states r) pid')"
  by (simp_all add: set_state_def alist.lookup_store)

lemma credit_simps [simp]:
  "reg_roster (credit pid mid g s r) = reg_roster r" "states (credit pid mid g s r) = states r"
  "heartbeat_timeout (credit pid mid g s r) = heartbeat_timeout r" "attests (credit pid mid g s r) = attests r"
  "reg_ledger (credit pid mid g s r) = record_contribution pid mid g s (reg_ledger r)"
  "attesting now pid' mid' (credit pid mid g s r) = attesting now pid' mid' r"
  by (simp_all add: credit_def attesting_def split: option.splits)

lemma mark_credited_simps [simp]:
  "reg_roster (mark_credited now pid mid r) = reg_roster r" "states (mark_credited now pid mid r) = states r"
  "heartbeat_timeout (mark_credited now pid mid r) = heartbeat_timeout r"
  "reg_ledger (mark_credited now pid mid r) = reg_ledger r"
  by (simp_all add: mark_credited_def)

lemma mark_credited_lookup:
  "map_of (attests (mark_credited now pid mid r)) k =
     (if k = (pid, mid) then Some (case map_of (attests r) k of
          None \<Rightarrow> \<lparr>a_last_seen = 0, a_resident_gb = 0, a_last_credited = now\<rparr>
        | Some att \<Rightarrow> att\<lparr>a_last_credited := now\<rparr>)
      else map_of (attests r) k)"
  by (simp add: mark_credited_def alist.lookup_store)

lemma settle_simps [simp]:
  "reg_roster (settle now pid c e share r) = reg_roster r" "states (settle now pid c e share r) = states r"
  "heartbeat_timeout (settle now pid c e share r) = heartbeat_timeout r"
  by (simp_all add: settle_def)

lemma fold_settle_simps [simp]:
  "reg_roster (fold (settle now pid c e) shares r) = reg_roster r"
  "states (fold (settle now pid c e) shares r) = states r"
  "heartbeat_timeout (fold (settle now pid c e) shares r) = heartbeat_timeout r"
  by (induction shares arbitrary: r) simp_all

lemma roster_peer_Inr [simp]: "roster_peer ro pid = Inr p \<longleftrightarrow> map_of (peers ro) pid = Some p"
  by (auto simp: roster_peer_def split: option.splits)

lemma roster_peer_known [simp]: "map_of (peers ro) pid = Some p \<Longrightarrow> roster_peer ro pid = Inr p"
  by simp

lemma roster_ok_peer:
  assumes "roster_ok ro" "map_of (peers ro) pid = Some p"
  shows "p_id p = pid \<and> peer_ok p \<and> members_known (set (keys (members ro))) p"
  using assms map_of_SomeD [OF assms(2)] by (auto simp: roster_ok_def)

lemma declared_gb_Some: "declared_gb p mid = Some g \<Longrightarrow> \<exists>c \<in> set (p_contributors p). con_member c = mid \<and> con_gb c = g"
  by (auto simp: declared_gb_def find_Some_iff)

lemma declared_gb_None_iff: "declared_gb p mid = None \<longleftrightarrow> mid \<notin> con_member ` set (p_contributors p)"
  by (auto simp: declared_gb_def find_None_iff)

text \<open>What \<open>attest\<close> does, by cases on whether the member was known.\<close>

lemma attest_Inr:
  assumes "attest now pid mid gb r = Inr r'"
  obtains p g where "map_of (peers (reg_roster r)) pid = Some p" "declared_gb p mid = Some g"
    "reg_roster r' = reg_roster r" "states r' = states r" "heartbeat_timeout r' = heartbeat_timeout r"
    "attests r' = AList.update (pid, mid)
       \<lparr>a_last_seen = now, a_resident_gb = min (max 0 gb) g, a_last_credited = now\<rparr> (attests r)"
    "reg_ledger r' = (case map_of (attests r) (pid, mid) of
        None \<Rightarrow> reg_ledger r
      | Some att \<Rightarrow>
          if 0 < a_resident_gb att \<and> serving pid r
          then record_contribution pid mid (a_resident_gb att) (min (now - a_last_credited att) MAX_CREDITED_INTERVAL) (reg_ledger r)
          else reg_ledger r)"
proof -
  from assms obtain p g where pg: "map_of (peers (reg_roster r)) pid = Some p" "declared_gb p mid = Some g"
    by (auto simp: attest_def rbind_Inr_iff split: option.splits)
  have zero: "\<not> 0 < s \<Longrightarrow> record_contribution q m g s l = l" for q m g s l by (simp add: record_contribution_def)
  note eq = assms [unfolded attest_def rbind_Inr_iff, simplified pg roster_peer_known [OF pg(1)], simplified]
  show ?thesis
  proof (cases "map_of (attests r) (pid, mid)")
    case None
    with eq pg show ?thesis by (intro that [OF pg]) (auto simp: Let_def)
  next
    case (Some att)
    let ?e = "min (now - a_last_credited att) MAX_CREDITED_INTERVAL"
    define r1 where "r1 = (if 0 < ?e \<and> 0 < a_resident_gb att \<and> serving pid r
      then credit pid mid (a_resident_gb att) ?e r else r)"
    from eq Some pg have "r' = r1\<lparr>attests := AList.update (pid, mid)
       \<lparr>a_last_seen = now, a_resident_gb = min (max 0 gb) g, a_last_credited = now\<rparr> (attests r1)\<rparr>"
      by (simp add: Let_def r1_def)
    moreover have "reg_ledger r1 = (if 0 < a_resident_gb att \<and> serving pid r
        then record_contribution pid mid (a_resident_gb att) ?e (reg_ledger r) else reg_ledger r)"
      by (auto simp: r1_def zero)
    moreover have "reg_roster r1 = reg_roster r" "states r1 = states r" "attests r1 = attests r"
      "heartbeat_timeout r1 = heartbeat_timeout r" by (simp_all add: r1_def)
    ultimately show ?thesis using Some by (intro that [OF pg]) simp_all
  qed
qed

section \<open>Well-formed registries\<close>

definition gb_limit :: "peer \<Rightarrow> rat" where
  "gb_limit p = max (p_capacity_gb p) (total_gb (p_contributors p))"

definition state_ok :: "roster \<Rightarrow> string \<Rightarrow> peer_state \<Rightarrow> bool" where
  "state_ok ro pid st \<longleftrightarrow> 0 \<le> resident_gb st \<and> 0 \<le> in_flight st
     \<and> (\<forall>p. map_of (peers ro) pid = Some p \<longrightarrow> 0 < p_capacity_gb p \<longrightarrow> resident_gb st \<le> p_capacity_gb p)"

definition attest_ok :: "roster \<Rightarrow> string \<times> string \<Rightarrow> attestation \<Rightarrow> bool" where
  "attest_ok ro k att \<longleftrightarrow> 0 \<le> a_resident_gb att
     \<and> (\<forall>p g. map_of (peers ro) (fst k) = Some p \<longrightarrow> declared_gb p (snd k) = Some g \<longrightarrow> a_resident_gb att \<le> g)"

text \<open>
  A credited row names a peer of the roster and its owner or a declared contributor, for at most
  five minutes, and for no more memory than the admin-signed roster declares: of the peer, and of the member
  itself up to the tolerance the roster parser grants between the capacity and the shares.
\<close>

definition row_ok :: "roster \<Rightarrow> contribution_row \<Rightarrow> bool" where
  "row_ok ro row \<longleftrightarrow> 0 < cr_seconds row \<and> cr_seconds row \<le> 300 \<and> 0 \<le> cr_gb row
     \<and> (\<exists>p. map_of (peers ro) (cr_peer row) = Some p
         \<and> cr_owner row \<in> insert (p_owner p) (con_member ` set (p_contributors p))
         \<and> (0 < p_capacity_gb p \<longrightarrow> cr_gb row \<le> gb_limit p)
         \<and> (\<forall>g. 0 < p_capacity_gb p \<longrightarrow> declared_gb p (cr_owner row) = Some g \<longrightarrow> cr_gb row \<le> g + 1 / 100))"

definition registry_ok :: "registry \<Rightarrow> bool" where
  "registry_ok r \<longleftrightarrow> roster_ok (reg_roster r) \<and> ledger_ok (reg_ledger r)
     \<and> (\<forall>pid st. map_of (states r) pid = Some st \<longrightarrow> state_ok (reg_roster r) pid st)
     \<and> (\<forall>k att. map_of (attests r) k = Some att \<longrightarrow> attest_ok (reg_roster r) k att)"

text \<open>
  The ledger outlives the process and its roster, so what it holds is a prefix written under whatever roster was in
  force, and the rows added since, which this roster backs.
\<close>

definition adds_rows :: "registry \<Rightarrow> registry \<Rightarrow> bool" where
  "adds_rows r r' \<longleftrightarrow> reg_roster r' = reg_roster r
     \<and> (\<exists>new. contributions (reg_ledger r') = contributions (reg_ledger r) @ new \<and> list_all (row_ok (reg_roster r)) new)"

lemma adds_rows_same: "reg_roster r' = reg_roster r \<Longrightarrow> contributions (reg_ledger r') = contributions (reg_ledger r) \<Longrightarrow> adds_rows r r'"
  by (simp add: adds_rows_def)

lemma adds_rows_trans: "adds_rows r s \<Longrightarrow> adds_rows s t \<Longrightarrow> adds_rows r t"
  by (auto simp: adds_rows_def)

lemma declared_gb_le_total:
  assumes "peer_ok p" "declared_gb p mid = Some g" shows "0 < g \<and> g \<le> total_gb (p_contributors p)"
proof -
  obtain c where c: "c \<in> set (p_contributors p)" "con_gb c = g" using declared_gb_Some [OF assms(2)] by blast
  have pos: "0 < con_gb d" if "d \<in> set (p_contributors p)" for d
    using assms(1) that by (auto simp: peer_ok_def list_all_iff contribution_ok_def)
  then have "con_gb c \<le> total_gb (p_contributors p)"
    unfolding total_gb_def using c(1) by (intro member_le_sum_list) (auto simp: less_imp_le)
  with pos c show ?thesis by blast
qed

lemma registry_ok_declared:
  "registry_ok r \<Longrightarrow> map_of (peers (reg_roster r)) pid = Some p \<Longrightarrow> declared_gb p mid = Some g \<Longrightarrow>
     0 < g \<and> g \<le> total_gb (p_contributors p)"
  using roster_ok_peer declared_gb_le_total by (fastforce simp: registry_ok_def)

lemma registry_ok_set_state [intro]:
  "registry_ok r \<Longrightarrow> state_ok (reg_roster r) pid st \<Longrightarrow> registry_ok (set_state pid st r)"
  by (auto simp: registry_ok_def)

lemma registry_ok_credit [intro]: "registry_ok r \<Longrightarrow> registry_ok (credit pid mid g s r)"
  by (simp add: registry_ok_def)

lemma adds_rows_credit:
  assumes "map_of (peers (reg_roster r)) pid = Some p"
    "mid \<in> insert (p_owner p) (con_member ` set (p_contributors p))" "s \<le> 300"
    "0 < p_capacity_gb p \<Longrightarrow> x \<le> gb_limit p"
    "\<And>g. 0 < p_capacity_gb p \<Longrightarrow> declared_gb p mid = Some g \<Longrightarrow> x \<le> g + 1 / 100"
  shows "adds_rows r (credit pid mid x s r)"
  using assms by (auto simp: adds_rows_def record_contribution_def row_ok_def)

text \<open>A share of what the peer holds is the member's declared share, up to the parser's tolerance.\<close>

lemma credit_split_share:
  assumes "peer_ok p" "x \<le> p_capacity_gb p" "(mid, y) \<in> set (credit_split p x)" "declared_gb p mid = Some g"
  shows "y \<le> g + 1 / 100"
proof -
  have ne: "p_contributors p \<noteq> []" using assms(4) by (auto simp: declared_gb_def)
  let ?t = "total_gb (p_contributors p)"
  have g: "0 < g" "g \<le> ?t" using declared_gb_le_total [OF assms(1,4)] by simp_all
  obtain c where c: "c \<in> set (p_contributors p)" "con_member c = mid" "y = x * con_gb c / ?t"
    using assms(3) ne g by (auto simp: credit_split_def Let_def split: if_splits)
  obtain d where d: "d \<in> set (p_contributors p)" "con_member d = mid" "con_gb d = g"
    using declared_gb_Some [OF assms(4)] by blast
  have "distinct (map con_member (p_contributors p))" using assms(1) by (simp add: peer_ok_def)
  with c d have "con_gb c = g" by (metis distinct_map inj_on_eq_iff)
  with c(3) have y: "y = x * g / ?t" by simp
  have "\<bar>p_capacity_gb p - ?t\<bar> \<le> 1 / 100" using assms(1) ne by (simp add: peer_ok_def)
  then have "p_capacity_gb p - ?t \<le> 1 / 100" by (simp only: abs_le_iff)
  with assms(2) have "x \<le> ?t + 1 / 100" by linarith
  then have "x * g \<le> (?t + 1 / 100) * g" using g(1) by (intro mult_right_mono) simp_all
  also have "\<dots> \<le> (g + 1 / 100) * ?t" using g by (simp add: algebra_simps)
  finally show ?thesis using g by (simp add: y pos_divide_le_eq)
qed

lemma registry_ok_mark [intro]:
  assumes "registry_ok r" shows "registry_ok (mark_credited now pid mid r)"
proof -
  have "attest_ok (reg_roster r) k att" if "map_of (attests (mark_credited now pid mid r)) k = Some att" for k att
  proof (cases "k = (pid, mid) \<and> map_of (attests r) k = None")
    case True
    with that registry_ok_declared [OF assms] show ?thesis
      by (auto simp: mark_credited_lookup attest_ok_def intro: less_imp_le)
  next
    case False
    with that obtain att0 where "map_of (attests r) k = Some att0" "a_resident_gb att = a_resident_gb att0"
      by (auto simp: mark_credited_lookup split: if_splits)
    moreover from this(1) assms have "attest_ok (reg_roster r) k att0" by (cases k) (simp add: registry_ok_def)
    ultimately show ?thesis by (simp add: attest_ok_def)
  qed
  with assms show ?thesis by (simp add: registry_ok_def)
qed

lemma registry_ok_attest:
  assumes ok: "registry_ok r" and r': "attest now pid mid gb r = Inr r'" shows "registry_ok r'"
  using r'
proof (cases rule: attest_Inr)
  case (1 p g)
  from ok have p: "peer_ok p" using roster_ok_peer [OF _ 1(1)] by (simp add: registry_ok_def)
  from declared_gb_le_total [OF p 1(2)] have g: "0 < g" "g \<le> total_gb (p_contributors p)" by simp_all
  have rows: "ledger_ok (reg_ledger r')" using ok 1(7) by (auto simp: registry_ok_def split: option.splits)
  have new: "attest_ok (reg_roster r) (pid, mid) \<lparr>a_last_seen = now, a_resident_gb = min (max 0 gb) g, a_last_credited = now\<rparr>"
    using g 1 by (auto simp: attest_ok_def)
  with ok rows 1 show ?thesis by (auto simp: registry_ok_def alist.lookup_store)
qed

lemma adds_rows_attest:
  assumes ok: "registry_ok r" and r': "attest now pid mid gb r = Inr r'" shows "adds_rows r r'"
  using r'
proof (cases rule: attest_Inr)
  case (1 p g)
  from ok have p: "peer_ok p" using roster_ok_peer [OF _ 1(1)] by (simp add: registry_ok_def)
  from declared_gb_le_total [OF p 1(2)] have g: "0 < g" "g \<le> total_gb (p_contributors p)" by simp_all
  show ?thesis
  proof (cases "map_of (attests r) (pid, mid)")
    case (Some att)
    have "a_resident_gb att \<le> g" using ok Some 1 by (auto simp: registry_ok_def attest_ok_def)
    then have "adds_rows r (credit pid mid (a_resident_gb att) (min (now - a_last_credited att) MAX_CREDITED_INTERVAL) r)"
      using g declared_gb_Some [OF 1(2)] 1(1,2)
      by (intro adds_rows_credit) (auto simp: gb_limit_def MAX_CREDITED_INTERVAL_def)
    with Some 1(3,7) show ?thesis by (auto simp: adds_rows_def)
  qed (use 1(3,7) in \<open>simp add: adds_rows_def\<close>)
qed

lemma registry_ok_settle: "registry_ok r \<Longrightarrow> registry_ok (settle now pid c e share r)"
  by (auto simp: settle_def)

lemma adds_rows_settle:
  assumes ok: "registry_ok r" and p: "map_of (peers (reg_roster r)) pid = Some p" and e: "e \<le> 300"
    and sh: "share \<in> set (credit_split p g)" and g: "0 \<le> g" "0 < p_capacity_gb p \<Longrightarrow> g \<le> p_capacity_gb p"
  shows "adds_rows r (settle now pid c e share r)"
proof -
  have pk: "peer_ok p" using ok roster_ok_peer [OF _ p] by (simp add: registry_ok_def)
  obtain m x where share: "share = (m, x)" by (cases share)
  have "x \<le> g" using credit_split_nonneg [OF pk g(1)] sh share by blast
  moreover have "m \<in> insert (p_owner p) (con_member ` set (p_contributors p))"
    using credit_split_members [of p g] sh share by force
  moreover have "x \<le> d + 1 / 100" if "0 < p_capacity_gb p" "declared_gb p m = Some d" for d
    using credit_split_share [OF pk g(2) _ that(2)] that(1) sh share by blast
  ultimately have "adds_rows r (credit pid m x e r)"
    using p e g by (intro adds_rows_credit) (auto simp: gb_limit_def)
  then show ?thesis by (auto simp: settle_def share adds_rows_def)
qed

lemma fold_invariant: "Q s \<Longrightarrow> (\<And>x s. x \<in> set xs \<Longrightarrow> Q s \<Longrightarrow> Q (f x s)) \<Longrightarrow> Q (fold f xs s)"
  by (induction xs arbitrary: s) auto

lemma registry_ok_fold_settle: "registry_ok r \<Longrightarrow> registry_ok (fold (settle now pid c e) shares r)"
  by (induction shares arbitrary: r) (simp_all add: registry_ok_settle)

lemma adds_rows_fold_settle:
  assumes "registry_ok r" "map_of (peers (reg_roster r)) pid = Some p" "e \<le> 300"
    "0 \<le> g" "0 < p_capacity_gb p \<Longrightarrow> g \<le> p_capacity_gb p"
  shows "adds_rows r (fold (settle now pid c e) (credit_split p g) r)"
proof -
  let ?Q = "\<lambda>s. registry_ok s \<and> adds_rows r s"
  have "?Q (fold (settle now pid c e) (credit_split p g) r)"
  proof (rule fold_invariant [where Q = ?Q])
    fix share s assume sh: "share \<in> set (credit_split p g)" and Q: "?Q s"
    then have "reg_roster s = reg_roster r" by (simp add: adds_rows_def)
    with assms sh Q have "adds_rows s (settle now pid c e share s)" by (intro adds_rows_settle) simp_all
    with Q show "?Q (settle now pid c e share s)" by (auto intro: registry_ok_settle adds_rows_trans)
  qed (use assms in \<open>simp add: adds_rows_def\<close>)
  then show ?thesis by simp
qed

lemma capped_bounds: "0 \<le> capped p g \<and> (0 < p_capacity_gb p \<longrightarrow> capped p g \<le> p_capacity_gb p)"
  by (auto simp: capped_def)

lemma registry_ok_attest_owner:
  "registry_ok r \<Longrightarrow> attest_owner now p g r = Inr r' \<Longrightarrow> registry_ok r'"
  by (auto simp: attest_owner_def intro: registry_ok_attest split: if_splits)

lemma registry_ok_heartbeat:
  assumes ok: "registry_ok r" and r': "heartbeat now now' pid gb up det r = Inr r'" shows "registry_ok r'"
proof -
  from r' obtain p where p: "map_of (peers (reg_roster r)) pid = Some p"
    by (auto simp: heartbeat_def rbind_Inr_iff)
  have new: "state_ok (reg_roster r) pid (st\<lparr>last_seen := t, last_credited := t, resident_gb := capped p gb,
      healthy := up, ps_detail := d, consecutive_failures := n\<rparr>)" if "0 \<le> in_flight st" for st t d n
    using that p by (simp add: state_ok_def capped_bounds)
  show ?thesis
  proof (cases "map_of (states r) pid")
    case None
    have "state_ok (reg_roster r) pid \<lparr>last_seen = now, resident_gb = capped p gb, in_flight = 0, healthy = up,
           consecutive_failures = 0, ps_detail = sanitise_detail det, last_credited = now\<rparr>"
      using p by (simp add: state_ok_def capped_bounds)
    from registry_ok_set_state [OF ok this] None r' p show ?thesis
      by (auto simp: heartbeat_def Let_def dest: registry_ok_attest_owner)
  next
    case (Some st)
    have st: "state_ok (reg_roster r) pid st" using ok Some by (auto simp: registry_ok_def)
    let ?e = "min (now - last_credited st) MAX_CREDITED_INTERVAL"
    define r1 where "r1 = (if 0 < ?e then fold (settle now pid (0 < ?e \<and> 0 < resident_gb st \<and> healthy st) ?e)
      (credit_split p (resident_gb st)) r else r)"
    have "registry_ok r1" unfolding r1_def using ok by (simp add: registry_ok_fold_settle)
    moreover have "reg_roster r1 = reg_roster r" by (simp add: r1_def)
    ultimately have "registry_ok (set_state pid (st\<lparr>last_seen := now, last_credited := now,
        resident_gb := capped p gb, healthy := up, ps_detail := sanitise_detail det,
        consecutive_failures := (if up then 0 else consecutive_failures st)\<rparr>) r1)"
      using new [of st] st by (intro registry_ok_set_state) (simp_all add: state_ok_def)
    moreover from r' p Some have "attest_owner now' p (capped p gb) (set_state pid (st\<lparr>last_seen := now, last_credited := now,
        resident_gb := capped p gb, healthy := up, ps_detail := sanitise_detail det,
        consecutive_failures := (if up then 0 else consecutive_failures st)\<rparr>) r1) = Inr r'"
      by (simp add: heartbeat_def Let_def r1_def)
    ultimately show ?thesis by (rule registry_ok_attest_owner)
  qed
qed

lemma adds_rows_attest_owner:
  "registry_ok r \<Longrightarrow> attest_owner now p g r = Inr r' \<Longrightarrow> adds_rows r r'"
  by (auto simp: attest_owner_def intro: adds_rows_attest adds_rows_same split: if_splits)

lemma adds_rows_heartbeat:
  assumes ok: "registry_ok r" and r': "heartbeat now now' pid gb up det r = Inr r'" shows "adds_rows r r'"
proof -
  from r' obtain p where p: "map_of (peers (reg_roster r)) pid = Some p"
    by (auto simp: heartbeat_def rbind_Inr_iff)
  have beat: "adds_rows r r'" if r1: "registry_ok r1" "adds_rows r r1" and st: "state_ok (reg_roster r) pid st"
    and own: "attest_owner now' p (capped p gb) (set_state pid st r1) = Inr r'" for r1 st
  proof -
    have "registry_ok (set_state pid st r1)" using r1 st by (intro registry_ok_set_state) (simp_all add: adds_rows_def)
    from adds_rows_trans [OF adds_rows_trans [OF r1(2) adds_rows_same] adds_rows_attest_owner [OF this own]]
    show ?thesis by simp
  qed
  have new: "state_ok (reg_roster r) pid st" if "resident_gb st = capped p gb" "0 \<le> in_flight st" for st
    using that p by (simp add: state_ok_def capped_bounds)
  show ?thesis
  proof (cases "map_of (states r) pid")
    case None
    with r' p show ?thesis
      by (intro beat [OF ok adds_rows_same new]) (auto simp: heartbeat_def Let_def)
  next
    case (Some st)
    have st: "state_ok (reg_roster r) pid st" using ok Some by (auto simp: registry_ok_def)
    let ?e = "min (now - last_credited st) MAX_CREDITED_INTERVAL"
    define r1 where "r1 = (if 0 < ?e then fold (settle now pid (0 < ?e \<and> 0 < resident_gb st \<and> healthy st) ?e)
      (credit_split p (resident_gb st)) r else r)"
    have "adds_rows r (fold (settle now pid (0 < ?e \<and> 0 < resident_gb st \<and> healthy st) ?e) (credit_split p (resident_gb st)) r)"
      using st p by (intro adds_rows_fold_settle [OF ok p]) (auto simp: state_ok_def MAX_CREDITED_INTERVAL_def)
    then have "adds_rows r r1" unfolding r1_def using adds_rows_same [of r r] by presburger
    moreover have "registry_ok r1" unfolding r1_def using ok by (simp add: registry_ok_fold_settle)
    moreover from r' p Some have "attest_owner now' p (capped p gb) (set_state pid (st\<lparr>last_seen := now, last_credited := now,
        resident_gb := capped p gb, healthy := up, ps_detail := sanitise_detail det,
        consecutive_failures := (if up then 0 else consecutive_failures st)\<rparr>) r1) = Inr r'"
      by (simp add: heartbeat_def Let_def r1_def)
    ultimately show ?thesis using st by (intro beat [OF _ _ new]) (simp_all add: state_ok_def)
  qed
qed

section \<open>Slots\<close>

definition load :: "registry \<Rightarrow> string \<Rightarrow> int" where
  "load r pid = (case map_of (states r) pid of None \<Rightarrow> 0 | Some st \<Rightarrow> in_flight st)"

lemma state_of_frame [simp]:
  "reg_roster (snd (state_of pid r)) = reg_roster r" "reg_ledger (snd (state_of pid r)) = reg_ledger r"
  "heartbeat_timeout (snd (state_of pid r)) = heartbeat_timeout r" "attests (snd (state_of pid r)) = attests r"
  "load (snd (state_of pid r)) pid' = load r pid'" "in_flight (fst (state_of pid r)) = load r pid"
  "map_of (states (snd (state_of pid r))) pid' =
     (if pid' = pid \<and> map_of (states r) pid = None then Some absent_state else map_of (states r) pid')"
  by (auto simp: state_of_def load_def absent_state_def split: option.splits)

lemma slot_frame [simp]:
  "reg_roster (acquire_slot pid r) = reg_roster r" "reg_ledger (acquire_slot pid r) = reg_ledger r"
  "heartbeat_timeout (acquire_slot pid r) = heartbeat_timeout r" "attests (acquire_slot pid r) = attests r"
  "reg_roster (release_slot pid r) = reg_roster r" "reg_ledger (release_slot pid r) = reg_ledger r"
  "heartbeat_timeout (release_slot pid r) = heartbeat_timeout r" "attests (release_slot pid r) = attests r"
  by (simp_all add: acquire_slot_def release_slot_def case_prod_unfold Let_def)

lemma load_acquire: "load (acquire_slot pid r) k = load r k + (if k = pid then 1 else 0)"
proof -
  have "map_of (states (acquire_slot pid r)) k = (if k = pid
      then Some ((fst (state_of pid r))\<lparr>in_flight := load r pid + 1\<rparr>) else map_of (states r) k)"
    by (auto simp: acquire_slot_def case_prod_unfold Let_def)
  then show ?thesis by (auto simp: load_def)
qed

lemma load_release: "load (release_slot pid r) k = (if k = pid then max 0 (load r k - 1) else load r k)"
proof -
  have "map_of (states (release_slot pid r)) k = (if k = pid
      then Some ((fst (state_of pid r))\<lparr>in_flight := max 0 (load r pid - 1)\<rparr>) else map_of (states r) k)"
    by (auto simp: release_slot_def case_prod_unfold Let_def)
  then show ?thesis by (auto simp: load_def)
qed

interpretation slots: slot_pool load acquire_slot release_slot
  by unfold_locales (simp_all add: load_acquire load_release)

lemma is_live_state_of [simp]: "is_live now k (snd (state_of pid r)) = is_live now k r"
  by (auto simp: is_live_def absent_state_def split: option.splits)

lemma is_live_slot [simp]:
  "is_live now k (acquire_slot pid r) = is_live now k r" "is_live now k (release_slot pid r) = is_live now k r"
  by (auto simp: is_live_def acquire_slot_def release_slot_def state_of_def absent_state_def split: option.splits)

lemma live_peers_cong:
  assumes "\<And>k. is_live now k r = is_live now k r'" "reg_roster r = reg_roster r'"
  shows "live_peers now m r = live_peers now m r'"
  using assms by (simp add: live_peers_def)

lemma live_peers_slot [simp]:
  "live_peers now m (acquire_slot pid r) = live_peers now m r"
  "live_peers now m (release_slot pid r) = live_peers now m r"
  by (rule live_peers_cong; simp)+

lemma has_capacity_iff: "has_capacity now p r \<longleftrightarrow> is_live now (p_id p) r \<and> load r (p_id p) < p_max_concurrent p"
  by (simp add: has_capacity_def)

lemma registry_ok_load: "registry_ok r \<Longrightarrow> 0 \<le> load r pid"
  by (auto simp: registry_ok_def load_def state_ok_def split: option.splits)

lemma state_ok_absent: "state_ok ro pid absent_state"
  by (simp add: state_ok_def absent_state_def)

lemma registry_ok_state_of:
  assumes "registry_ok r"
  shows "registry_ok (snd (state_of pid r)) \<and> state_ok (reg_roster r) pid (fst (state_of pid r))"
proof (cases "map_of (states r) pid")
  case None
  with assms show ?thesis by (auto simp: state_of_def state_ok_absent)
next
  case (Some st)
  with assms show ?thesis by (auto simp: state_of_def registry_ok_def)
qed

lemma registry_ok_slots [intro]:
  assumes "registry_ok r"
  shows "registry_ok (acquire_slot pid r)" "registry_ok (release_slot pid r)"
  using registry_ok_state_of [OF assms, of pid]
  by (auto simp: acquire_slot_def release_slot_def case_prod_unfold Let_def state_ok_def intro!: registry_ok_set_state)

lemma registry_ok_failure [intro]:
  assumes "registry_ok r" shows "registry_ok (mark_failure pid r)"
proof (cases "map_of (states r) pid")
  case (Some st)
  with assms have "state_ok (reg_roster r) pid st" by (auto simp: registry_ok_def)
  with assms Some show ?thesis by (auto simp: mark_failure_def Let_def state_ok_def)
qed (use assms in \<open>simp add: mark_failure_def\<close>)

section \<open>Runs of the registry\<close>

datatype registry_op =
    Beat rat rat string rat bool json
  | Attest rat string string rat
  | Failure string
  | AcquireSlot string
  | ReleaseSlot string
  | ReadState string
  | Consume consumption_row

text \<open>An operation that raises leaves the registry as it was.\<close>

definition keep :: "registry \<Rightarrow> roster_error + registry \<Rightarrow> registry" where
  "keep r x = (case x of Inl e \<Rightarrow> r | Inr r' \<Rightarrow> r')"

fun registry_step :: "registry_op \<Rightarrow> registry \<Rightarrow> registry" where
  "registry_step (Beat now now' pid gb up det) r = keep r (heartbeat now now' pid gb up det r)"
| "registry_step (Attest now pid mid gb) r = keep r (attest now pid mid gb r)"
| "registry_step (Failure pid) r = mark_failure pid r"
| "registry_step (AcquireSlot pid) r = acquire_slot pid r"
| "registry_step (ReleaseSlot pid) r = release_slot pid r"
| "registry_step (ReadState pid) r = snd (state_of pid r)"
| "registry_step (Consume row) r = r\<lparr>reg_ledger := record_consumption row (reg_ledger r)\<rparr>"

lemma registry_step_ok: "registry_ok r \<Longrightarrow> registry_ok (registry_step a r)"
proof (cases a)
  case (Consume row)
  then show "registry_ok r \<Longrightarrow> registry_ok (registry_step a r)" by (simp add: registry_ok_def)
qed (auto simp: keep_def registry_ok_state_of split: sum.splits intro: registry_ok_heartbeat registry_ok_attest)

lemma adds_rows_step: assumes "registry_ok r" shows "adds_rows r (registry_step a r)"
proof (cases a)
  case (Beat now now' pid gb up det)
  then show ?thesis using adds_rows_heartbeat [OF assms]
    by (cases "heartbeat now now' pid gb up det r") (auto simp: keep_def adds_rows_same)
next
  case (Attest now pid mid gb)
  then show ?thesis using adds_rows_attest [OF assms]
    by (cases "attest now pid mid gb r") (auto simp: keep_def adds_rows_same)
next
  case (Failure pid)
  then show ?thesis by (auto simp: mark_failure_def Let_def intro!: adds_rows_same split: option.splits)
next
  case (Consume row)
  then show ?thesis by (simp add: adds_rows_same)
qed (auto intro!: adds_rows_same)

lemma adds_rows_run: "registry_ok r \<Longrightarrow> adds_rows r (fold registry_step ops r)"
proof (induction ops arbitrary: r)
  case (Cons a ops)
  from adds_rows_trans [OF adds_rows_step [OF Cons.prems] Cons.IH [OF registry_step_ok [OF Cons.prems]]] show ?case by simp
qed (simp add: adds_rows_same)

interpretation registry: step_invariant registry_step registry_ok
  by unfold_locales (rule registry_step_ok)

lemma registry_ok_new: "roster_ok ro \<Longrightarrow> registry_ok (new_registry ro)"
  by (simp add: registry_ok_def new_registry_def)

section \<open>The two crediting paths partition time\<close>

definition credited :: "registry \<Rightarrow> string \<Rightarrow> string \<Rightarrow> rat" where
  "credited r pid mid =
     sum_list (map cr_seconds (filter (\<lambda>q. cr_peer q = pid \<and> cr_owner q = mid) (contributions (reg_ledger r))))"

fun op_times :: "registry_op \<Rightarrow> rat list" where
  "op_times (Beat now now' pid gb up det) = [now, now']"
| "op_times (Attest now pid mid gb) = [now]"
| "op_times _ = []"

text \<open>
  A beat is in time when it comes within the heartbeat timeout of the peer's last one, or when the
  interval it ends is not owed to anybody.
\<close>

fun in_time :: "registry_op \<Rightarrow> registry \<Rightarrow> bool" where
  "in_time (Beat now now' pid gb up det) r =
     (case map_of (states r) pid of
        None \<Rightarrow> True
      | Some st \<Rightarrow> now - last_credited st \<le> heartbeat_timeout r \<or> \<not> healthy st \<or> resident_gb st \<le> 0)"
| "in_time _ r = True"

fun beats_in_time :: "registry_op list \<Rightarrow> registry \<Rightarrow> bool" where
  "beats_in_time [] r = True"
| "beats_in_time (a # as) r = (in_time a r \<and> beats_in_time as (registry_step a r))"

lemma credited_credit:
  "credited (credit pid' mid' g s r) pid mid =
     credited r pid mid + (if pid' = pid \<and> mid' = mid \<and> 0 < s \<and> 0 \<le> g then s else 0)"
  by (auto simp: credited_def record_contribution_def)

lemma credited_cong: "reg_ledger r = reg_ledger r' \<Longrightarrow> credited r pid mid = credited r' pid mid"
  by (simp add: credited_def)

lemma credited_frame [simp]:
  "credited (set_state p st r) pid mid = credited r pid mid"
  "credited (mark_credited now p m r) pid mid = credited r pid mid"
  by (simp_all add: credited_def)

lemma settle_other:
  assumes "(pid', fst share) \<noteq> (pid, mid)"
  shows "map_of (attests (settle now pid' c e share r)) (pid, mid) = map_of (attests r) (pid, mid)
    \<and> credited (settle now pid' c e share r) pid mid = credited r pid mid"
  using assms by (auto simp: settle_def mark_credited_lookup credited_credit)

lemma fold_settle_other:
  assumes "pid' \<noteq> pid \<or> mid \<notin> fst ` set shares"
  shows "map_of (attests (fold (settle now pid' c e) shares r)) (pid, mid) = map_of (attests r) (pid, mid)
    \<and> credited (fold (settle now pid' c e) shares r) pid mid = credited r pid mid"
  using assms
proof (induction shares arbitrary: r)
  case (Cons share shares)
  then have "(pid', fst share) \<noteq> (pid, mid)" "pid' \<noteq> pid \<or> mid \<notin> fst ` set shares" by auto
  with Cons.IH [of "settle now pid' c e share r"] settle_other show ?case by simp
qed simp

text \<open>What settling leaves of one member: nothing changed, or it was marked and credited at most once.\<close>

definition settled :: "rat \<Rightarrow> rat \<Rightarrow> string \<Rightarrow> string \<Rightarrow> registry \<Rightarrow> registry \<Rightarrow> bool" where
  "settled now e pid mid r r' \<longleftrightarrow>
     (map_of (attests r') (pid, mid) = map_of (attests r) (pid, mid) \<and> credited r' pid mid = credited r pid mid)
   \<or> (\<not> attesting now pid mid r \<and> credited r' pid mid \<le> credited r pid mid + e
       \<and> (\<exists>att. map_of (attests r') (pid, mid) = Some att \<and> a_last_credited att = now))"

lemma settle_settled: "0 \<le> e \<Longrightarrow> settled now (if c then e else 0) pid (fst share) r (settle now pid c e share r)"
  by (auto simp: settled_def settle_def mark_credited_lookup credited_credit split: option.splits)

lemma fold_settle_settled:
  assumes "distinct (map fst shares)" "0 \<le> e"
  shows "settled now (if c then e else 0) pid mid r (fold (settle now pid c e) shares r)"
  using assms
proof (induction shares arbitrary: r)
  case Nil
  show ?case by (simp add: settled_def)
next
  case (Cons share shares)
  let ?r1 = "settle now pid c e share r"
  show ?case
  proof (cases "fst share = mid")
    case True
    with Cons.prems have "pid \<noteq> pid \<or> mid \<notin> fst ` set shares" by auto
    from fold_settle_other [OF this, of now c e ?r1] settle_settled [OF Cons.prems(2), of now c pid share r] True
    show ?thesis by (simp add: settled_def)
  next
    case False
    then have same: "map_of (attests ?r1) (pid, mid) = map_of (attests r) (pid, mid)" "credited ?r1 pid mid = credited r pid mid"
      using settle_other [of pid share pid mid now c e r] by simp_all
    then have "attesting now pid mid ?r1 = attesting now pid mid r"
      by (simp add: attesting_def split: option.splits)
    with same Cons.IH [of ?r1] Cons.prems show ?thesis by (simp add: settled_def)
  qed
qed

definition paid_once :: "rat \<Rightarrow> rat \<Rightarrow> string \<Rightarrow> string \<Rightarrow> registry \<Rightarrow> bool" where
  "paid_once t0 t pid mid r \<longleftrightarrow> t0 \<le> t
     \<and> (\<forall>st. map_of (states r) pid = Some st \<longrightarrow> healthy st \<longrightarrow> t0 \<le> last_credited st \<and> last_credited st \<le> t)
     \<and> (case map_of (attests r) (pid, mid) of
          None \<Rightarrow> credited r pid mid = 0
        | Some att \<Rightarrow> credited r pid mid \<le> a_last_credited att - t0 \<and> t0 \<le> a_last_credited att \<and> a_last_credited att \<le> t
            \<and> (a_last_credited att \<le> a_last_seen att
               \<or> (\<exists>st. map_of (states r) pid = Some st \<and> a_last_credited att \<le> last_credited st)))"

lemma paid_once_le: "paid_once t0 t pid mid r \<Longrightarrow> credited r pid mid \<le> t - t0"
  by (auto simp: paid_once_def split: option.splits)

lemma paid_once_later: "paid_once t0 t pid mid r \<Longrightarrow> t \<le> t' \<Longrightarrow> paid_once t0 t' pid mid r"
  by (fastforce simp: paid_once_def split: option.splits)

lemma paid_once_attest:
  assumes inv: "paid_once t0 t pid mid r" and "t \<le> now" and r': "attest now pid' mid' gb r = Inr r'"
  shows "paid_once t0 now pid mid r'"
  using r'
proof (cases rule: attest_Inr)
  case (1 p g)
  have inv': "paid_once t0 now pid mid r" by (rule paid_once_later) fact+
  show ?thesis
  proof (cases "(pid', mid') = (pid, mid)")
    case False
    then have "credited r' pid mid = credited r pid mid"
      using 1(7) by (auto simp: credited_def record_contribution_def split: option.splits)
    moreover have "map_of (attests r') (pid, mid) = map_of (attests r) (pid, mid)"
      using False 1(6) by (auto simp: alist.lookup_store)
    ultimately show ?thesis using inv' 1(4) by (simp add: paid_once_def split: option.splits)
  next
    case True
    have "credited r' pid mid \<le> now - t0"
    proof (cases "map_of (attests r) (pid, mid)")
      case None
      with inv' True 1(7) show ?thesis by (simp add: paid_once_def credited_def)
    next
      case (Some att)
      have "credited r' pid mid \<le> credited r pid mid + max 0 (now - a_last_credited att)"
        using Some True 1(7) by (auto simp: credited_def record_contribution_def)
      with inv' Some show ?thesis by (auto simp: paid_once_def max_def split: if_splits)
    qed
    with inv' True 1(4,6) show ?thesis by (auto simp: paid_once_def alist.lookup_store)
  qed
qed

lemma not_attesting_stale:
  "\<not> attesting now pid mid r \<Longrightarrow> map_of (attests r) (pid, mid) = Some att \<Longrightarrow> a_last_seen att < now - heartbeat_timeout r"
  by (simp add: attesting_def)

lemma credit_split_distinct: "peer_ok p \<Longrightarrow> distinct (map fst (credit_split p g))"
  by (simp add: credit_split_def Let_def peer_ok_def comp_def)

text \<open>A beat in time finds what it pays for unpaid: a lapsed attestation ended before the last beat.\<close>

lemma paid_once_settled:
  assumes inv: "paid_once t0 now pid mid r" and st: "map_of (states r) pid = Some st"
    and late: "now - last_credited st \<le> heartbeat_timeout r \<or> \<not> c"
    and c: "c \<Longrightarrow> healthy st" and e: "c \<Longrightarrow> e \<le> now - last_credited st"
    and set: "settled now (if c then e else 0) pid mid r r'" and frame: "states r' = states r"
    and st': "last_credited st' = now"
  shows "paid_once t0 now pid mid (set_state pid st' r')"
proof -
  have t0: "t0 \<le> now" using inv by (simp add: paid_once_def)
  from set consider
      (same) "map_of (attests r') (pid, mid) = map_of (attests r) (pid, mid)" "credited r' pid mid = credited r pid mid"
    | (paid) att' where "\<not> attesting now pid mid r" "credited r' pid mid \<le> credited r pid mid + (if c then e else 0)"
        "map_of (attests r') (pid, mid) = Some att'" "a_last_credited att' = now"
    by (auto simp: settled_def)
  then show ?thesis
  proof cases
    case same
    with inv t0 st' show ?thesis by (auto simp: paid_once_def split: option.splits)
  next
    case paid
    have "credited r' pid mid \<le> now - t0"
    proof (cases c)
      case False
      with paid(2) paid_once_le [OF inv] show ?thesis by simp
    next
      case True
      have "credited r pid mid \<le> last_credited st - t0"
      proof (cases "map_of (attests r) (pid, mid)")
        case None
        with inv st True c show ?thesis by (auto simp: paid_once_def)
      next
        case (Some att)
        from not_attesting_stale [OF paid(1) Some] late True have "a_last_seen att \<le> last_credited st" by simp
        with inv Some st have "a_last_credited att \<le> last_credited st" by (auto simp: paid_once_def)
        with inv Some show ?thesis by (simp add: paid_once_def)
      qed
      with paid(2) True e show ?thesis by simp
    qed
    with paid t0 st' show ?thesis by (simp add: paid_once_def)
  qed
qed

lemma paid_once_attest_owner:
  assumes "paid_once t0 t pid mid r" "t \<le> now" "attest_owner now p gb r = Inr r'"
  shows "paid_once t0 now pid mid r'"
proof (cases "p_owner p \<in> con_member ` set (p_contributors p)")
  case True
  with assms(3) have "attest now (p_id p) (p_owner p) gb r = Inr r'" by (simp add: attest_owner_def)
  with assms(1,2) show ?thesis by (rule paid_once_attest)
next
  case False
  with assms(3) have "r' = r" by (simp add: attest_owner_def)
  with assms(1,2) show ?thesis by (simp add: paid_once_later)
qed

lemma paid_once_cong:
  assumes "paid_once t0 t pid mid r" "map_of (states r') pid = map_of (states r) pid"
    "map_of (attests r') (pid, mid) = map_of (attests r) (pid, mid)" "credited r' pid mid = credited r pid mid"
  shows "paid_once t0 t pid mid r'"
  using assms(1) unfolding paid_once_def assms(2-4) .

lemma paid_once_heartbeat:
  assumes ok: "registry_ok r" and inv: "paid_once t0 t pid mid r" and le: "t \<le> now" "now \<le> now'"
    and late: "in_time (Beat now now' pid' gb up det) r" and r': "heartbeat now now' pid' gb up det r = Inr r'"
  shows "paid_once t0 now' pid mid r'"
proof -
  have inv': "paid_once t0 now pid mid r" using inv le(1) by (rule paid_once_later)
  from r' obtain p where p: "map_of (peers (reg_roster r)) pid' = Some p" by (auto simp: heartbeat_def rbind_Inr_iff)
  have pk: "peer_ok p" using ok roster_ok_peer [OF _ p] by (simp add: registry_ok_def)
  show ?thesis
  proof (cases "map_of (states r) pid'")
    case None
    let ?st = "\<lparr>last_seen = now, resident_gb = capped p gb, in_flight = 0, healthy = up, consecutive_failures = 0,
      ps_detail = sanitise_detail det, last_credited = now\<rparr>"
    have "paid_once t0 now pid mid (set_state pid' ?st r)"
      using inv' None by (auto simp: paid_once_def split: option.splits)
    from paid_once_attest_owner [OF this le(2)] r' p None show ?thesis by (simp add: heartbeat_def Let_def)
  next
    case (Some st)
    define e where "e = min (now - last_credited st) MAX_CREDITED_INTERVAL"
    define c where "c = (0 < e \<and> 0 < resident_gb st \<and> healthy st)"
    define r1 where "r1 = (if 0 < e then fold (settle now pid' c e) (credit_split p (resident_gb st)) r else r)"
    define st' where "st' = st\<lparr>last_seen := now, last_credited := now, resident_gb := capped p gb, healthy := up,
      ps_detail := sanitise_detail det, consecutive_failures := (if up then 0 else consecutive_failures st)\<rparr>"
    have frame: "states r1 = states r" by (simp add: r1_def)
    have "paid_once t0 now pid mid (set_state pid' st' r1)"
    proof (cases "pid' = pid")
      case False
      then have "map_of (attests r1) (pid, mid) = map_of (attests r) (pid, mid) \<and> credited r1 pid mid = credited r pid mid"
        using fold_settle_other [of pid' pid mid] by (simp add: r1_def)
      with False frame inv' show ?thesis by (auto intro: paid_once_cong)
    next
      case True
      have set: "settled now (if c then max 0 e else 0) pid mid r r1"
      proof (cases "0 < e")
        case True
        then have r1: "r1 = fold (settle now pid c e) (credit_split p (resident_gb st)) r" and e: "max 0 e = e"
          using \<open>pid' = pid\<close> by (simp_all add: r1_def)
        from True show ?thesis unfolding r1 e
          by (intro fold_settle_settled credit_split_distinct pk) simp
      qed (simp add: r1_def settled_def)
      show ?thesis unfolding True
      proof (rule paid_once_settled [OF inv' _ _ _ _ set frame])
        show "map_of (states r) pid = Some st" using Some True by simp
        show "now - last_credited st \<le> heartbeat_timeout r \<or> \<not> c" using late Some by (auto simp: c_def True)
        show "last_credited st' = now" by (simp add: st'_def)
        show "c \<Longrightarrow> healthy st" by (simp add: c_def)
        show "c \<Longrightarrow> max 0 e \<le> now - last_credited st" by (simp add: c_def e_def)
      qed
    qed
    moreover have "attest_owner now' p (capped p gb) (set_state pid' st' r1) = Inr r'"
      using r' p Some unfolding r1_def st'_def c_def e_def by (simp add: heartbeat_def Let_def)
    ultimately show ?thesis using paid_once_attest_owner le(2) by blast
  qed
qed

text \<open>The other operations keep what was credited and when, and make no peer healthy.\<close>

lemma paid_once_states:
  assumes inv: "paid_once t0 t pid mid r" and a: "attests r' = attests r"
    and l: "contributions (reg_ledger r') = contributions (reg_ledger r)"
    and new: "\<And>st'. map_of (states r') pid = Some st' \<Longrightarrow> healthy st' \<Longrightarrow>
      \<exists>st. map_of (states r) pid = Some st \<and> healthy st \<and> last_credited st' = last_credited st"
    and old: "\<And>st. map_of (states r) pid = Some st \<Longrightarrow>
      \<exists>st'. map_of (states r') pid = Some st' \<and> last_credited st' = last_credited st"
  shows "paid_once t0 t pid mid r'"
proof -
  have "credited r' pid mid = credited r pid mid" by (simp add: credited_def l)
  moreover have "\<forall>st'. map_of (states r') pid = Some st' \<longrightarrow> healthy st' \<longrightarrow> t0 \<le> last_credited st' \<and> last_credited st' \<le> t"
    using inv new by (metis paid_once_def)
  moreover have "(\<exists>st. map_of (states r) pid = Some st \<and> x \<le> last_credited st) \<Longrightarrow>
      (\<exists>st. map_of (states r') pid = Some st \<and> x \<le> last_credited st)" for x
    using old by metis
  ultimately show ?thesis using inv unfolding paid_once_def a by (auto split: option.splits)
qed

lemma paid_once_step:
  assumes ok: "registry_ok r" and inv: "paid_once t0 t pid mid r" and late: "in_time a r"
    and times: "sorted (t # op_times a)"
  shows "paid_once t0 (last (t # op_times a)) pid mid (registry_step a r)"
proof (cases a)
  case (Beat now now' pid' gb up det)
  with inv times late ok show ?thesis
    by (cases "heartbeat now now' pid' gb up det r")
       (auto simp: keep_def intro: paid_once_heartbeat paid_once_later simp del: in_time.simps)
next
  case (Attest now pid' mid' gb)
  with inv times show ?thesis
    by (cases "attest now pid' mid' gb r") (auto simp: keep_def intro: paid_once_attest paid_once_later)
next
  case (Failure pid')
  have "paid_once t0 t pid mid (mark_failure pid' r)"
    by (rule paid_once_states [OF inv])
       (auto simp: mark_failure_def Let_def split: option.splits if_splits)
  with Failure show ?thesis by simp
next
  case (AcquireSlot pid')
  have "paid_once t0 t pid mid (acquire_slot pid' r)"
    by (rule paid_once_states [OF inv])
       (auto simp: acquire_slot_def state_of_def absent_state_def split: option.splits if_splits)
  with AcquireSlot show ?thesis by simp
next
  case (ReleaseSlot pid')
  have "paid_once t0 t pid mid (release_slot pid' r)"
    by (rule paid_once_states [OF inv])
       (auto simp: release_slot_def state_of_def absent_state_def split: option.splits if_splits)
  with ReleaseSlot show ?thesis by simp
next
  case (ReadState pid')
  have "paid_once t0 t pid mid (snd (state_of pid' r))"
    by (rule paid_once_states [OF inv]) (auto simp: absent_state_def split: if_splits)
  with ReadState show ?thesis by simp
next
  case (Consume row)
  have "paid_once t0 t pid mid (r\<lparr>reg_ledger := record_consumption row (reg_ledger r)\<rparr>)"
    by (rule paid_once_states [OF inv]) simp_all
  with Consume show ?thesis by simp
qed

lemma paid_once_run:
  assumes "registry_ok r" "paid_once t0 t pid mid r" "beats_in_time ops r" "sorted (t # concat (map op_times ops))"
  shows "paid_once t0 (last (t # concat (map op_times ops))) pid mid (fold registry_step ops r)"
  using assms
proof (induction ops arbitrary: r t)
  case (Cons a ops)
  let ?t = "last (t # op_times a)"
  have "paid_once t0 ?t pid mid (registry_step a r)"
    using Cons.prems by (intro paid_once_step) (auto simp: sorted_append)
  moreover have "sorted (?t # concat (map op_times ops))"
    using Cons.prems(4) by (cases a) (auto simp: sorted_append)
  ultimately have "paid_once t0 (last (?t # concat (map op_times ops))) pid mid (fold registry_step ops (registry_step a r))"
    using Cons.prems by (intro Cons.IH) (auto intro: registry_step_ok)
  then show ?case by (cases "op_times a") (auto split: if_splits)
qed simp

section \<open>Properties\<close>

text \<open>
  C32: whatever sequence of heartbeats, attestations, failures and slot changes reaches the registry,
  every credited row names a peer of the roster and its owner or a declared contributor, covers at
  most five minutes, and holds at most the memory the signed roster declares for that peer and, where the
  member declares a share of it, at most that share and the parser's tolerance of a hundredth.
\<close>
theorem credited_rows_bounded:
  assumes "roster_ok ro" "row \<in> set (contributions (reg_ledger (fold registry_step ops (new_registry ro))))"
  shows "row_ok (reg_roster (fold registry_step ops (new_registry ro))) row"
  using adds_rows_run [OF registry_ok_new [OF assms(1)], of ops] assms(2)
  by (auto simp: adds_rows_def list_all_iff) (simp add: new_registry_def empty_ledger_def)

text \<open>
  C33: the head's beat and a member's own attestation never pay the same second twice: when the head's beats
  come within the heartbeat timeout of each other while the peer is credited, a member is paid, for
  one peer, at most the time that passed.
\<close>
theorem credit_partitions_time:
  assumes "roster_ok ro" "sorted (t0 # concat (map op_times ops))" "beats_in_time ops (new_registry ro)"
  shows "credited (fold registry_step ops (new_registry ro)) pid mid \<le> last (t0 # concat (map op_times ops)) - t0"
proof -
  have "paid_once t0 t0 pid mid (new_registry ro)"
    by (simp add: paid_once_def new_registry_def credited_def empty_ledger_def)
  from paid_once_run [OF registry_ok_new [OF assms(1)] this assms(3,2)] show ?thesis by (rule paid_once_le)
qed

definition demo_run :: "rat list \<Rightarrow> registry_op list" where
  "demo_run xs = map (\<lambda>t. Beat t t ''g'' 8 True (JStr [])) xs"

theorem credited_rows_bounded_witness:
  "row_ok (reg_roster (fold registry_step (demo_run [1000, 1060]) (new_registry demo_roster)))
     \<lparr>cr_peer = ''g'', cr_owner = ''b'', cr_gb = 4, cr_seconds = 60\<rparr>"
  by (rule credited_rows_bounded [OF demo_roster_ok]) code_simp

theorem credit_partitions_time_witness:
  "credited (fold registry_step (demo_run [1000, 1060]) (new_registry demo_roster)) ''g'' ''b'' \<le> 60"
proof -
  have "sorted ((1000 :: rat) # concat (map op_times (demo_run [1000, 1060])))" by code_simp
  moreover have "beats_in_time (demo_run [1000, 1060]) (new_registry demo_roster)" by code_simp
  ultimately show ?thesis
    using credit_partitions_time [OF demo_roster_ok, of 1000 "demo_run [1000, 1060]" "''g''" "''b''"]
    by (simp add: demo_run_def)
qed

text \<open>
  the condition on the beats is needed. A member attests at 1000 and 1010; the head beats at 1000 and
  then only at 1200, when the attestation has lapsed, and is paid from its own last beat on: the
  member has 210 credited seconds in the 200 that passed.
\<close>
theorem late_beat_pays_twice:
  "credited (fold registry_step
       [Beat 1000 1000 ''g'' 8 True (JStr []), Attest 1000 ''g'' ''b'' 4, Attest 1010 ''g'' ''b'' 4,
        Beat 1200 1200 ''g'' 8 True (JStr [])] (new_registry demo_roster)) ''g'' ''b'' = 210"
  by code_simp

text \<open>
  an attestation never touches routing: it leaves every peer's state, so liveness, capacity and the
  peers offered for a model are what they were; and only a declared contributor can make one.
\<close>
theorem attest_never_routes:
  assumes "attest now pid mid gb r = Inr r'"
  shows "states r' = states r \<and> live_peers t m r' = live_peers t m r \<and> has_capacity t q r' = has_capacity t q r
    \<and> (\<exists>p. map_of (peers (reg_roster r)) pid = Some p \<and> mid \<in> con_member ` set (p_contributors p))"
  using assms
proof (cases rule: attest_Inr)
  case (1 p g)
  then have "is_live t k r' = is_live t k r" for k by (simp add: is_live_def split: option.splits)
  moreover from this have "live_peers t m r' = live_peers t m r" using 1 by (intro live_peers_cong) simp_all
  moreover have "load r' k = load r k" for k using 1 by (simp add: load_def)
  ultimately show ?thesis using 1 declared_gb_Some [OF 1(2)] by (auto simp: has_capacity_iff)
qed

definition demo_up :: registry where
  "demo_up = fold registry_step (demo_run [1000]) (new_registry demo_roster)"

theorem attest_never_routes_witness:
  "live_peers 1005 ''m'' (registry_step (Attest 1004 ''g'' ''b'' 4) demo_up) = live_peers 1005 ''m'' demo_up"
proof -
  have "attest 1004 ''g'' ''b'' 4 demo_up = Inr (registry_step (Attest 1004 ''g'' ''b'' 4) demo_up)" by code_simp
  from attest_never_routes [OF this, of 1005 "''m''" demo_peer] show ?thesis by simp
qed

lemma attest_owner_frame:
  "attest_owner now p gb r = Inr r' \<Longrightarrow> states r' = states r \<and> heartbeat_timeout r' = heartbeat_timeout r"
  by (auto simp: attest_owner_def split: if_splits elim: attest_Inr)

lemma attest_owner_total:
  "map_of (peers (reg_roster r)) (p_id p) = Some p \<Longrightarrow> \<exists>r'. attest_owner now p gb r = Inr r'"
  using declared_gb_None_iff [of p "p_owner p"]
  by (cases "declared_gb p (p_owner p)") (auto simp: attest_owner_def attest_def Let_def split: option.splits)

lemma heartbeat_owner:
  assumes "map_of (peers (reg_roster r)) pid = Some p" "p_id p = pid"
  shows "\<exists>st r1. heartbeat now now' pid gb up det r = attest_owner now' p (capped p gb) (set_state pid st r1)
    \<and> reg_roster r1 = reg_roster r \<and> heartbeat_timeout r1 = heartbeat_timeout r
    \<and> healthy st = up \<and> last_seen st = now \<and> (up \<longrightarrow> consecutive_failures st = 0)"
proof (cases "map_of (states r) pid")
  case None
  with assms show ?thesis by (auto simp: heartbeat_def Let_def intro!: exI [of _ r])
next
  case (Some st)
  define e where "e = min (now - last_credited st) MAX_CREDITED_INTERVAL"
  define r1 where "r1 = (if 0 < e
    then fold (settle now pid (0 < e \<and> 0 < resident_gb st \<and> healthy st) e) (credit_split p (resident_gb st)) r else r)"
  have frame: "reg_roster r1 = reg_roster r \<and> heartbeat_timeout r1 = heartbeat_timeout r" by (simp add: r1_def)
  define st' where "st' = st\<lparr>last_seen := now, last_credited := now, resident_gb := capped p gb, healthy := up,
      ps_detail := sanitise_detail det, consecutive_failures := (if up then 0 else consecutive_failures st)\<rparr>"
  have eq: "heartbeat now now' pid gb up det r = attest_owner now' p (capped p gb) (set_state pid st' r1)"
    using assms Some by (simp add: heartbeat_def Let_def r1_def e_def st'_def cong: if_cong split del: if_split)
  have "healthy st' = up \<and> last_seen st' = now \<and> (up \<longrightarrow> consecutive_failures st' = 0)" by (simp add: st'_def)
  with eq frame show ?thesis by blast
qed

lemma heartbeat_state:
  assumes "map_of (peers (reg_roster r)) pid = Some p" "p_id p = pid"
  obtains r' st where "heartbeat now now' pid gb up det r = Inr r'" "map_of (states r') pid = Some st" "healthy st = up"
    "last_seen st = now" "up \<longrightarrow> consecutive_failures st = 0" "heartbeat_timeout r' = heartbeat_timeout r"
proof -
  obtain st r1 where eq: "heartbeat now now' pid gb up det r = attest_owner now' p (capped p gb) (set_state pid st r1)"
    and r1: "reg_roster r1 = reg_roster r" "heartbeat_timeout r1 = heartbeat_timeout r"
    and st: "healthy st = up" "last_seen st = now" "up \<longrightarrow> consecutive_failures st = 0"
    using heartbeat_owner [OF assms, of now now' gb up det] by blast
  obtain r' where "attest_owner now' p (capped p gb) (set_state pid st r1) = Inr r'"
    using attest_owner_total [of "set_state pid st r1" p] assms r1 by auto
  with attest_owner_frame [OF this] eq r1 st that [of r' st] show ?thesis by simp
qed

text \<open>
  two relay failures in a row take a known peer out of the pool whatever the time, and the owner's next
  healthy beat brings it back with its failures forgotten.
\<close>
theorem failures_then_beat:
  assumes "map_of (states r) pid = Some st" "0 \<le> consecutive_failures st" "0 \<le> heartbeat_timeout r"
    "map_of (peers (reg_roster r)) pid = Some p" "p_id p = pid"
    "heartbeat now now' pid gb True det (mark_failure pid (mark_failure pid r)) = Inr r'"
  shows "\<not> is_live t pid (mark_failure pid (mark_failure pid r))
    \<and> is_live now pid r' \<and> (\<exists>st'. map_of (states r') pid = Some st' \<and> consecutive_failures st' = 0)"
proof -
  let ?r = "mark_failure pid (mark_failure pid r)"
  obtain st2 where st2: "map_of (states ?r) pid = Some st2" "\<not> healthy st2"
    using assms(1,2) by (auto simp: mark_failure_def Let_def)
  have frame: "reg_roster ?r = reg_roster r" "heartbeat_timeout ?r = heartbeat_timeout r"
    using assms(1) by (auto simp: mark_failure_def Let_def split: option.splits)
  from assms(4) have "map_of (peers (reg_roster ?r)) pid = Some p" by (simp add: frame)
  then obtain r2 st where "heartbeat now now' pid gb True det ?r = Inr r2" "map_of (states r2) pid = Some st" "healthy st"
      "last_seen st = now" "consecutive_failures st = 0" "heartbeat_timeout r2 = heartbeat_timeout ?r"
    using assms(5) by (rule heartbeat_state [where up = True and now = now and now' = now' and gb = gb and det = det]) simp
  with assms(3,6) st2 frame show ?thesis by (simp add: is_live_def)
qed

theorem failures_then_beat_witness:
  "\<not> is_live 1001 ''g'' (mark_failure ''g'' (mark_failure ''g'' demo_up))"
proof -
  have st: "map_of (states demo_up) ''g'' = Some (the (map_of (states demo_up) ''g''))"
    "0 \<le> consecutive_failures (the (map_of (states demo_up) ''g''))" by code_simp+
  have up: "reg_roster demo_up = demo_roster" "heartbeat_timeout demo_up = 90" by code_simp+
  have "heartbeat 1060 1060 ''g'' 8 True (JStr []) (mark_failure ''g'' (mark_failure ''g'' demo_up)) =
      Inr (registry_step (Beat 1060 1060 ''g'' 8 True (JStr [])) (mark_failure ''g'' (mark_failure ''g'' demo_up)))"
    by code_simp
  from failures_then_beat [OF st _ _ _ this, of demo_peer 1001] show ?thesis
    by (simp add: up) (simp add: demo_roster_def demo_peer_def)
qed

end
