(* ===== verification/Scheduler.thy ===== *)
theory Scheduler
  imports Registry
begin

text \<open>
  \<open>coordinator/scheduler.py\<close>: leases on peer slots and the bounded, fair-share-ordered wait queue.
  \<open>heapq\<close> is a list kept sorted by \<open>(neg_score, seq)\<close>, which is what its contract says of the
  elements it pops. A future is an entry of \<open>futures\<close> under its waiter's sequence number;
  \<open>acquire\<close> stops at its \<open>await\<close>, and what can happen to the waiting task later (its future is
  granted by a dispatch, cancelled by the timeout, and its waiter dropped) are operations of their
  own. \<open>secrets.token_urlsafe\<close> is the parameter \<open>tokens\<close>, read in order.
\<close>

datatype sched_error =
    NoCapacity
  | QueueFull
  | NoActiveLease
  | WrongMember
  | LeasePastTtl
  | AlreadyRedeemed
  | BalanceOverflow \<comment> \<open>the database error of \<open>ledger.balance\<close>\<close>

record lease =
  l_request_id :: string
  l_member :: string
  l_peer :: peer
  l_expires_at :: rat

record waiter =
  neg_score :: rat
  w_seq :: nat
  w_member :: string
  w_model :: string

datatype future = Pending | Granted lease | Cancelled

record scheduler =
  reg :: registry
  lease_ttl :: rat
  max_queue :: int
  waiters :: "waiter list"
  next_seq :: nat
  leases :: "(string, lease) dict"
  redeemed :: "string set"
  futures :: "(nat, future) dict"
  tokens :: "nat \<Rightarrow> string"
  next_token :: nat

definition DEFAULT_LEASE_TTL :: rat where "DEFAULT_LEASE_TTL = 300"
definition DEFAULT_MAX_QUEUE :: int where "DEFAULT_MAX_QUEUE = 32"

definition new_scheduler :: "registry \<Rightarrow> (nat \<Rightarrow> string) \<Rightarrow> scheduler" where
  "new_scheduler r toks = \<lparr>reg = r, lease_ttl = DEFAULT_LEASE_TTL, max_queue = DEFAULT_MAX_QUEUE, waiters = [],
     next_seq = 0, leases = [], redeemed = {}, futures = [], tokens = toks, next_token = 0\<rparr>"

section \<open>The heap\<close>

definition w_key :: "waiter \<Rightarrow> rat \<times> nat" where
  "w_key w = (neg_score w, w_seq w)"

text \<open>
  \<open>@dataclass(order=True)\<close> compares waiters field by field. Sequence numbers are never reused, so of waiters in
  the queue only \<open>w_key\<close> counts.
\<close>

instantiation waiter_ext :: (linorder) linorder
begin

definition less_eq_waiter_ext :: "'a waiter_scheme \<Rightarrow> 'a waiter_scheme \<Rightarrow> bool" where
  "w \<le> v \<longleftrightarrow> (neg_score w, w_seq w, w_member w, w_model w, waiter.more w) \<le> (neg_score v, w_seq v, w_member v, w_model v, waiter.more v)"

definition less_waiter_ext :: "'a waiter_scheme \<Rightarrow> 'a waiter_scheme \<Rightarrow> bool" where
  "(w :: 'a waiter_scheme) < v \<longleftrightarrow> w \<le> v \<and> \<not> v \<le> w"

instance
proof (standard, goal_cases)
  case (4 w v)
  then have "(neg_score w, w_seq w, w_member w, w_model w, waiter.more w) = (neg_score v, w_seq v, w_member v, w_model v, waiter.more v)"
    unfolding less_eq_waiter_ext_def by (rule antisym)
  then show ?case by (intro waiter.equality) simp_all
qed (unfold less_eq_waiter_ext_def less_waiter_ext_def, auto intro: order_trans)

end

lemma waiter_less_iff: "w_seq w \<noteq> w_seq v \<Longrightarrow> w < v \<longleftrightarrow> w_key w \<le> w_key (v :: waiter)"
  by (auto simp: less_waiter_ext_def less_eq_waiter_ext_def w_key_def)

lemma queue_sorted: "sorted (map w_key ws) \<Longrightarrow> distinct (map w_seq ws) \<Longrightarrow> sorted_wrt (<) ws"
proof (induction ws)
  case (Cons w ws)
  have "w_seq w \<noteq> w_seq v" if "v \<in> set ws" for v using that Cons.prems(2) by auto
  with Cons show ?case by (simp add: waiter_less_iff)
qed simp

definition heappush :: "waiter \<Rightarrow> waiter list \<Rightarrow> waiter list" where
  "heappush w ws = insort_key w_key w ws"

fun heappop :: "waiter list \<Rightarrow> (waiter \<times> waiter list) option" where
  "heappop [] = None"
| "heappop (w # ws) = Some (w, ws)"

interpretation heap: priority_queue heappush heappop mset "\<lambda>ws. sorted (map w_key ws)" w_key
proof (unfold_locales, goal_cases)
  case (1 q x)
  then show ?case by (simp add: heappush_def sorted_insort_key)
next
  case (2 x q)
  show ?case by (simp add: heappush_def)
next
  case (3 q)
  then show ?case by (cases q) simp_all
next
  case (4 q x q')
  then show ?case by (cases q) auto
qed

section \<open>Internals\<close>

definition pick :: "rat \<Rightarrow> string \<Rightarrow> registry \<Rightarrow> peer option" where
  "pick now m r =
     min_by (\<lambda>p. (in_flight (fst (state_of (p_id p) r)), p_id p))
       (filter (\<lambda>p. has_capacity now p r) (live_peers now m r))"

definition issue :: "rat \<Rightarrow> string \<Rightarrow> peer \<Rightarrow> scheduler \<Rightarrow> lease \<times> scheduler" where
  "issue now mid p s =
     (let l = \<lparr>l_request_id = tokens s (next_token s), l_member = mid, l_peer = p, l_expires_at = now + lease_ttl s\<rparr>
      in (l, s\<lparr>reg := acquire_slot (p_id p) (reg s), next_token := next_token s + 1,
               leases := AList.update (l_request_id l) l (leases s)\<rparr>))"

definition future_of :: "nat \<Rightarrow> scheduler \<Rightarrow> future" where
  "future_of n s = (case map_of (futures s) n of None \<Rightarrow> Pending | Some f \<Rightarrow> f)"

text \<open>
  The loop of \<open>_dispatch\<close>: waiters that cannot be served are set aside and pushed back at the
  end. It ends because every round pops one and nothing is pushed before the loop is over.
\<close>

function dispatch_loop :: "rat \<Rightarrow> waiter list \<Rightarrow> scheduler \<Rightarrow> waiter list \<times> scheduler" where
  "dispatch_loop now deferred s =
     (case heappop (waiters s) of
        None \<Rightarrow> (deferred, s)
      | Some (w, ws) \<Rightarrow>
          (let s1 = s\<lparr>waiters := ws\<rparr> in
           if future_of (w_seq w) s1 \<noteq> Pending then dispatch_loop now deferred s1
           else (case pick now (w_model w) (reg s1) of
               None \<Rightarrow> dispatch_loop now (deferred @ [w]) s1
             | Some p \<Rightarrow>
                 (let (l, s2) = issue now (w_member w) p s1
                  in dispatch_loop now deferred (s2\<lparr>futures := AList.update (w_seq w) (Granted l) (futures s2)\<rparr>)))))"
  by pat_completeness auto
termination
  by (relation "measure (\<lambda>(now, deferred, s). length (waiters s))")
     (auto simp: issue_def Let_def elim!: heappop.elims)

definition dispatch :: "rat \<Rightarrow> scheduler \<Rightarrow> scheduler" where
  "dispatch now s =
     (let (deferred, s1) = dispatch_loop now [] s in s1\<lparr>waiters := fold heappush deferred (waiters s1)\<rparr>)"

section \<open>The lease life cycle\<close>

datatype acquired = Leased lease | Waiting nat

definition acquire :: "rat \<Rightarrow> string \<Rightarrow> string \<Rightarrow> scheduler \<Rightarrow> (sched_error + acquired) \<times> scheduler" where
  "acquire now mid m s =
     (if live_peers now m (reg s) = [] then (Inl NoCapacity, s)
      else (case pick now m (reg s) of
          Some p \<Rightarrow> (let (l, s1) = issue now mid p s in (Inr (Leased l), s1))
        | None \<Rightarrow>
            if max_queue s \<le> int (length (waiters s)) then (Inl QueueFull, s)
            else (case sql_balance (reg_ledger (reg s)) mid of
                Inl err \<Rightarrow> (Inl BalanceOverflow, s)
              | Inr b \<Rightarrow>
                  (let w = \<lparr>neg_score = - score b, w_seq = next_seq s, w_member = mid, w_model = m\<rparr>
                   in (Inr (Waiting (w_seq w)), s\<lparr>next_seq := next_seq s + 1, waiters := heappush w (waiters s),
                        futures := AList.update (w_seq w) Pending (futures s)\<rparr>)))))"

text \<open>
  \<open>wait_for\<close> gives up on a waiting future, by timeout or because the task is cancelled: it cancels
  the future, which does nothing to one that is done; \<open>_drop\<close> then removes the waiter.
\<close>

definition cancel_wait :: "nat \<Rightarrow> scheduler \<Rightarrow> scheduler" where
  "cancel_wait n s = (if future_of n s = Pending then s\<lparr>futures := AList.update n Cancelled (futures s)\<rparr> else s)"

definition drop_waiter :: "nat \<Rightarrow> scheduler \<Rightarrow> scheduler" where
  "drop_waiter n s = s\<lparr>waiters := filter (\<lambda>w. w_seq w \<noteq> n) (waiters s)\<rparr>"

definition release :: "rat \<Rightarrow> string \<Rightarrow> scheduler \<Rightarrow> scheduler" where
  "release now rid s =
     (let s1 = s\<lparr>leases := AList.delete rid (leases s), redeemed := redeemed s - {rid}\<rparr>
      in dispatch now (case map_of (leases s) rid of
           None \<Rightarrow> s1
         | Some l \<Rightarrow> s1\<lparr>reg := release_slot (p_id (l_peer l)) (reg s1)\<rparr>))"

definition redeem :: "rat \<Rightarrow> string \<Rightarrow> string \<Rightarrow> scheduler \<Rightarrow> (sched_error + lease) \<times> scheduler" where
  "redeem now rid mid s =
     (case map_of (leases s) rid of
        None \<Rightarrow> (Inl NoActiveLease, s)
      | Some l \<Rightarrow>
          if l_member l \<noteq> mid then (Inl WrongMember, s)
          else if l_expires_at l < now then (Inl LeasePastTtl, release now rid s)
          else if rid \<in> redeemed s then (Inl AlreadyRedeemed, s)
          else (Inr l, s\<lparr>redeemed := insert rid (redeemed s)\<rparr>))"

definition stale_leases :: "rat \<Rightarrow> scheduler \<Rightarrow> string list" where
  "stale_leases now s = keys (filter (\<lambda>(rid, l). l_expires_at l < now) (leases s))"

definition expire_stale :: "rat \<Rightarrow> scheduler \<Rightarrow> nat \<times> scheduler" where
  "expire_stale now s =
     (length (stale_leases now s), fold (release now) (stale_leases now s) s)"

definition queue_depth :: "scheduler \<Rightarrow> nat" where
  "queue_depth s = length (waiters s)"

definition active_leases :: "scheduler \<Rightarrow> nat" where
  "active_leases s = length (leases s)"

definition lease_to_dict :: "lease \<Rightarrow> json" where
  "lease_to_dict l = JObj [(''request_id'', JStr (l_request_id l)), (''peer_id'', JStr (p_id (l_peer l))),
     (''peer_enc_pub'', JStr (p_enc_pub (l_peer l))), (''peer_endpoint'', JStr (p_endpoint (l_peer l))),
     (''model'', JStr (p_model (l_peer l))), (''engine'', p_engine (l_peer l)),
     (''engine_version'', p_engine_version (l_peer l)), (''hw_class'', p_hw_class (l_peer l)),
     (''expires_at'', JNum (Flt (l_expires_at l)))]"

section \<open>Picking a peer\<close>

lemma live_peers_mem:
  assumes "roster_ok (reg_roster r)" "p \<in> set (live_peers now m r)"
  shows "map_of (peers (reg_roster r)) (p_id p) = Some p \<and> is_live now (p_id p) r \<and> (m \<noteq> [] \<longrightarrow> p_model p = m)"
proof -
  from assms(2) obtain k where "(k, p) \<in> set (peers (reg_roster r))"
    by (auto simp: live_peers_def peers_for_model_def split: if_splits)
  with assms have "map_of (peers (reg_roster r)) (p_id p) = Some p" by (auto simp: roster_ok_def)
  with assms(2) show ?thesis by (auto simp: live_peers_def peers_for_model_def split: if_splits)
qed

lemma pick_Some:
  assumes "roster_ok (reg_roster r)" "pick now m r = Some p"
  shows "map_of (peers (reg_roster r)) (p_id p) = Some p \<and> is_live now (p_id p) r \<and> (m \<noteq> [] \<longrightarrow> p_model p = m)
    \<and> load r (p_id p) < p_max_concurrent p"
  using min_by_mem [OF assms(2) [unfolded pick_def]] live_peers_mem [OF assms(1)] by (auto simp: has_capacity_iff)

lemma pick_least:
  assumes "pick now m r = Some p" "q \<in> set (live_peers now m r)" "load r (p_id q) < p_max_concurrent q"
  shows "(load r (p_id p), p_id p) \<le> (load r (p_id q), p_id q)"
proof -
  have "is_live now (p_id q) r" using assms(2) by (auto simp: live_peers_def)
  with assms show ?thesis using min_by_le [OF assms(1) [unfolded pick_def], of q] by (simp add: has_capacity_iff)
qed

lemma pick_None_iff:
  "pick now m r = None \<longleftrightarrow> (\<forall>p \<in> set (live_peers now m r). p_max_concurrent p \<le> load r (p_id p))"
  by (auto simp: pick_def filter_empty_conv has_capacity_iff live_peers_def not_less)

lemma pick_None_slot: "pick now m r = None \<Longrightarrow> pick now m (acquire_slot k r) = None"
  by (force simp: pick_None_iff load_acquire)

lemma pick_None_live: "live_peers now m r = [] \<Longrightarrow> pick now m r = None"
  by (simp add: pick_def)

section \<open>The invariant\<close>

definition holders :: "(string, lease) dict \<Rightarrow> string list" where
  "holders d = map (\<lambda>p. p_id (l_peer (snd p))) d"

definition lease_ok :: "scheduler \<Rightarrow> string \<Rightarrow> lease \<Rightarrow> bool" where
  "lease_ok s rid l \<longleftrightarrow> l_request_id l = rid \<and> rid \<in> tokens s ` {..<next_token s}
     \<and> map_of (peers (reg_roster (reg s))) (p_id (l_peer l)) = Some (l_peer l)"

text \<open>
  Every lease holds exactly one slot of a peer of the roster, no peer has more slots taken than it
  declared, and only active leases are redeemed.
\<close>

definition leases_ok :: "scheduler \<Rightarrow> bool" where
  "leases_ok s \<longleftrightarrow> registry_ok (reg s) \<and> inj (tokens s) \<and> dict_distinct (leases s)
     \<and> (\<forall>(rid, l) \<in> set (leases s). lease_ok s rid l)
     \<and> slots.held (reg s) (holders (leases s))
     \<and> (\<forall>pid p. map_of (peers (reg_roster (reg s))) pid = Some p \<longrightarrow> load (reg s) pid \<le> p_max_concurrent p)
     \<and> redeemed s \<subseteq> set (keys (leases s))"

text \<open>The queue is bounded and ordered.\<close>

definition queue_ok :: "scheduler \<Rightarrow> bool" where
  "queue_ok s \<longleftrightarrow> int (length (waiters s)) \<le> max_queue s \<and> sorted (map w_key (waiters s))
     \<and> distinct (map w_seq (waiters s)) \<and> (\<forall>w \<in> set (waiters s). w_seq w < next_seq s)"

lemma issue_simps [simp]:
  "waiters (snd (issue now mid p s)) = waiters s" "futures (snd (issue now mid p s)) = futures s"
  "max_queue (snd (issue now mid p s)) = max_queue s" "next_seq (snd (issue now mid p s)) = next_seq s"
  "tokens (snd (issue now mid p s)) = tokens s" "lease_ttl (snd (issue now mid p s)) = lease_ttl s"
  "reg (snd (issue now mid p s)) = acquire_slot (p_id p) (reg s)" "redeemed (snd (issue now mid p s)) = redeemed s"
  "next_token (snd (issue now mid p s)) = next_token s + 1"
  "leases (snd (issue now mid p s)) = AList.update (tokens s (next_token s)) (fst (issue now mid p s)) (leases s)"
  "l_request_id (fst (issue now mid p s)) = tokens s (next_token s)" "l_member (fst (issue now mid p s)) = mid"
  "l_peer (fst (issue now mid p s)) = p" "l_expires_at (fst (issue now mid p s)) = now + lease_ttl s"
  by (simp_all add: issue_def Let_def)

text \<open>The token of a new lease is not the id of an active one.\<close>

lemma token_fresh:
  assumes "leases_ok s" shows "map_of (leases s) (tokens s (next_token s)) = None"
proof (rule ccontr)
  assume "\<not> ?thesis"
  then obtain l where "(tokens s (next_token s), l) \<in> set (leases s)" by (auto dest: map_of_SomeD)
  with assms have "tokens s (next_token s) \<in> tokens s ` {..<next_token s}" by (auto simp: leases_ok_def lease_ok_def)
  with assms show False by (auto simp: leases_ok_def inj_eq)
qed

lemma issue_ok:
  assumes ok: "leases_ok s" and p: "pick now' m (reg s) = Some p"
  shows "leases_ok (snd (issue now mid p s))"
proof -
  let ?s = "snd (issue now mid p s)" let ?t = "tokens s (next_token s)"
  have ro: "roster_ok (reg_roster (reg s))" using ok by (simp add: leases_ok_def registry_ok_def)
  from pick_Some [OF ro p] have p': "map_of (peers (reg_roster (reg s))) (p_id p) = Some p"
    and room: "load (reg s) (p_id p) < p_max_concurrent p" by simp_all
  have new: "leases ?s = leases s @ [(?t, fst (issue now mid p s))]"
    using token_fresh [OF ok] by (simp add: update_new)
  have "slots.held (acquire_slot (p_id p) (reg s)) (holders (leases s) @ [p_id p])"
    using ok by (intro slots.held_take) (simp add: leases_ok_def)
  then have "slots.held (reg ?s) (holders (leases ?s))" unfolding new by (simp add: holders_def)
  moreover have "\<forall>(rid, l) \<in> set (leases ?s). lease_ok ?s rid l"
    using ok p' unfolding new by (auto simp: leases_ok_def lease_ok_def less_Suc_eq)
  moreover have "dict_distinct (leases ?s)" using ok by (simp add: leases_ok_def distinct_update)
  moreover have "\<forall>pid q. map_of (peers (reg_roster (reg s))) pid = Some q \<longrightarrow>
      load (acquire_slot (p_id p) (reg s)) pid \<le> p_max_concurrent q"
    using ok p' room by (auto simp: leases_ok_def load_acquire)
  moreover have "redeemed s \<subseteq> set (keys (leases ?s))" using ok unfolding new by (auto simp: leases_ok_def)
  ultimately show ?thesis using ok unfolding leases_ok_def by auto
qed

lemma leases_ok_cong:
  assumes "reg s' = reg s" "tokens s' = tokens s" "leases s' = leases s" "next_token s' = next_token s"
    "redeemed s' = redeemed s"
  shows "leases_ok s' = leases_ok s"
  using assms by (simp add: leases_ok_def lease_ok_def)

section \<open>Dispatching\<close>

definition same_config :: "scheduler \<Rightarrow> scheduler \<Rightarrow> bool" where
  "same_config s s' \<longleftrightarrow> max_queue s' = max_queue s \<and> next_seq s' = next_seq s \<and> tokens s' = tokens s
     \<and> lease_ttl s' = lease_ttl s \<and> reg_roster (reg s') = reg_roster (reg s)
     \<and> (\<forall>now m. live_peers now m (reg s') = live_peers now m (reg s))"

lemma same_config_trans: "same_config s t \<Longrightarrow> same_config t u \<Longrightarrow> same_config s u"
  by (simp add: same_config_def)

text \<open>One waiter served: the state after it.\<close>

definition serve :: "rat \<Rightarrow> waiter \<Rightarrow> waiter list \<Rightarrow> peer \<Rightarrow> scheduler \<Rightarrow> scheduler" where
  "serve now w ws p s =
     (let s1 = s\<lparr>waiters := ws\<rparr>
      in (snd (issue now (w_member w) p s1))\<lparr>futures := AList.update (w_seq w) (Granted (fst (issue now (w_member w) p s1))) (futures s)\<rparr>)"

lemma dispatch_loop_Nil: "waiters s = [] \<Longrightarrow> dispatch_loop now d s = (d, s)"
  by simp

lemma dispatch_loop_Cons:
  "waiters s = w # ws \<Longrightarrow> dispatch_loop now d s =
     (if future_of (w_seq w) s \<noteq> Pending then dispatch_loop now d (s\<lparr>waiters := ws\<rparr>)
      else (case pick now (w_model w) (reg s) of
          None \<Rightarrow> dispatch_loop now (d @ [w]) (s\<lparr>waiters := ws\<rparr>)
        | Some p \<Rightarrow> dispatch_loop now d (serve now w ws p s)))"
  by (subst dispatch_loop.simps) (simp add: serve_def Let_def case_prod_unfold future_of_def split: option.splits)

declare dispatch_loop.simps [simp del]

text \<open>
  Induction over the loop: the rounds are a waiter whose future is done, one that cannot be served,
  and one that is.
\<close>

lemma dispatch_loop_induct [case_names Nil Done Defer Serve]:
  assumes "\<And>d s. waiters s = [] \<Longrightarrow> dispatch_loop now d s = (d, s) \<Longrightarrow> P d s"
    and "\<And>d s w ws. waiters s = w # ws \<Longrightarrow> future_of (w_seq w) s \<noteq> Pending \<Longrightarrow>
        dispatch_loop now d s = dispatch_loop now d (s\<lparr>waiters := ws\<rparr>) \<Longrightarrow> P d (s\<lparr>waiters := ws\<rparr>) \<Longrightarrow> P d s"
    and "\<And>d s w ws. waiters s = w # ws \<Longrightarrow> future_of (w_seq w) s = Pending \<Longrightarrow> pick now (w_model w) (reg s) = None \<Longrightarrow>
        dispatch_loop now d s = dispatch_loop now (d @ [w]) (s\<lparr>waiters := ws\<rparr>) \<Longrightarrow> P (d @ [w]) (s\<lparr>waiters := ws\<rparr>) \<Longrightarrow> P d s"
    and "\<And>d s w ws p. waiters s = w # ws \<Longrightarrow> future_of (w_seq w) s = Pending \<Longrightarrow> pick now (w_model w) (reg s) = Some p \<Longrightarrow>
        dispatch_loop now d s = dispatch_loop now d (serve now w ws p s) \<Longrightarrow> P d (serve now w ws p s) \<Longrightarrow> P d s"
  shows "P d s"
proof (induction "waiters s" arbitrary: d s)
  case Nil
  then show ?case by (intro assms(1)) (simp_all add: dispatch_loop_Nil)
next
  case (Cons w ws)
  have IH: "P d' s'" if "waiters s' = ws" for d' s' using that by (intro Cons.hyps(1)) simp
  note eq = Cons.hyps(2) [symmetric]
  consider (finished) "future_of (w_seq w) s \<noteq> Pending"
    | (wait) "future_of (w_seq w) s = Pending" "pick now (w_model w) (reg s) = None"
    | (served) p where "future_of (w_seq w) s = Pending" "pick now (w_model w) (reg s) = Some p" by blast
  then show ?case
  proof cases
    case finished
    then show ?thesis by (intro assms(2) [OF eq] IH) (simp_all add: dispatch_loop_Cons [OF eq])
  next
    case wait
    then show ?thesis by (intro assms(3) [OF eq] IH) (simp_all add: dispatch_loop_Cons [OF eq])
  next
    case served
    have "waiters (serve now w ws p s) = ws" by (simp add: serve_def Let_def)
    with served show ?thesis by (intro assms(4) [OF eq served] IH) (simp_all add: dispatch_loop_Cons [OF eq])
  qed
qed

lemma future_of_waiters [simp]: "future_of n (s\<lparr>waiters := ws\<rparr>) = future_of n s"
  by (simp add: future_of_def)

lemma serve_simps [simp]:
  "waiters (serve now w ws p s) = ws" "reg (serve now w ws p s) = acquire_slot (p_id p) (reg s)"
  "same_config s (serve now w ws p s)" "redeemed (serve now w ws p s) = redeemed s"
  "future_of n (serve now w ws p s) =
     (if n = w_seq w then Granted (fst (issue now (w_member w) p s)) else future_of n s)"
  by (simp_all add: serve_def Let_def same_config_def future_of_def alist.lookup_store issue_def)

lemma serve_ok:
  assumes "leases_ok s" "pick now m (reg s) = Some p" shows "leases_ok (serve now w ws p s)"
proof -
  have "leases_ok (snd (issue now (w_member w) p (s\<lparr>waiters := ws\<rparr>)))"
    using assms by (intro issue_ok [where m = m and now' = now]) (simp_all cong: leases_ok_cong)
  then show ?thesis by (subst leases_ok_cong) (simp_all add: serve_def Let_def)
qed

text \<open>What the loop leaves: no queue, the configuration, and waiters that were there.\<close>

lemma dispatch_loop_frame:
  "let (d', s') = dispatch_loop now d s in waiters s' = [] \<and> same_config s s' \<and> redeemed s' = redeemed s
     \<and> mset d' \<subseteq># mset d + mset (waiters s) \<and> set d \<subseteq> set d'"
proof (induction d s rule: dispatch_loop_induct [where now = now])
  case (Nil d s)
  then show ?case by (simp add: same_config_def)
next
  case (Done d s w ws)
  then show ?case by (auto simp: same_config_def subset_mset.add_increasing2 intro: subset_mset.order_trans split: prod.splits)
next
  case (Defer d s w ws)
  then show ?case by (auto simp: same_config_def split: prod.splits)
next
  case (Serve d s w ws p)
  then show ?case
    using same_config_trans [OF serve_simps(3)]
    by (auto intro: subset_mset.order_trans split: prod.splits)
qed

lemma dispatch_loop_leases_ok: "leases_ok s \<Longrightarrow> leases_ok (snd (dispatch_loop now d s))"
proof (induction d s rule: dispatch_loop_induct [where now = now])
  case (Serve d s w ws p)
  from serve_ok [OF Serve.prems Serve.hyps(3)] Serve show ?case by simp
qed (simp_all cong: leases_ok_cong)

text \<open>Nothing set aside can be served when the loop ends.\<close>

lemma dispatch_loop_starved:
  "\<forall>w \<in> set d. pick now (w_model w) (reg s) = None \<Longrightarrow>
     let (d', s') = dispatch_loop now d s in \<forall>w \<in> set d'. pick now (w_model w) (reg s') = None"
proof (induction d s rule: dispatch_loop_induct [where now = now])
  case (Serve d s w ws p)
  then show ?case by (simp add: pick_None_slot)
qed (auto split: prod.splits)

lemma dispatch_loop_other_futures:
  "n \<notin> w_seq ` set (waiters s) \<Longrightarrow> future_of n (snd (dispatch_loop now d s)) = future_of n s"
  by (induction d s rule: dispatch_loop_induct [where now = now]) auto

lemma dispatch_loop_pending:
  "distinct (map w_seq (waiters s)) \<Longrightarrow> w_seq ` set d \<inter> w_seq ` set (waiters s) = {} \<Longrightarrow>
     \<forall>w \<in> set d. future_of (w_seq w) s = Pending \<Longrightarrow>
     let (d', s') = dispatch_loop now d s in \<forall>w \<in> set d'. future_of (w_seq w) s' = Pending"
proof (induction d s rule: dispatch_loop_induct [where now = now])
  case (Serve d s w ws p)
  have "w_seq w \<notin> w_seq ` set d" using Serve.prems(2) Serve.hyps(1) by auto
  then have "\<forall>x \<in> set d. future_of (w_seq x) (serve now w ws p s) = Pending"
    using Serve.prems(3) by simp (metis imageI)
  moreover have "w_seq ` set d \<inter> w_seq ` set ws = {}" "distinct (map w_seq ws)"
    using Serve.prems(1,2) Serve.hyps(1) by auto
  ultimately show ?case using Serve.IH Serve.hyps(4) by simp
next
  case (Defer d s w ws)
  have "w_seq ` set (d @ [w]) \<inter> w_seq ` set ws = {}" "distinct (map w_seq ws)"
    using Defer.prems(1,2) Defer.hyps(1) by auto
  with Defer show ?case by simp
next
  case (Done d s w ws)
  have "w_seq ` set d \<inter> w_seq ` set ws = {}" "distinct (map w_seq ws)"
    using Done.prems(1,2) Done.hyps(1) by auto
  with Done show ?case by simp
qed simp

text \<open>
  Priority: a waiter set aside stays ahead of nobody it outranks. Whoever was granted a slot in this
  loop for the same model comes before every waiter the loop sets aside.
\<close>

lemma dispatch_loop_priority:
  "sorted (map w_key (waiters s)) \<Longrightarrow> distinct (map w_seq (waiters s)) \<Longrightarrow>
     \<forall>w \<in> set d. pick now (w_model w) (reg s) = None \<Longrightarrow>
     v \<in> set (waiters s) \<Longrightarrow> future_of (w_seq v) s = Pending \<Longrightarrow>
     future_of (w_seq v) (snd (dispatch_loop now d s)) \<noteq> Pending \<Longrightarrow>
     w \<in> set (fst (dispatch_loop now d s)) \<Longrightarrow> w_model w = w_model v \<Longrightarrow> w \<notin> set d \<and> w_key v \<le> w_key w"
proof (induction d s rule: dispatch_loop_induct [where now = now])
  case (Nil d s)
  then show ?case by simp
next
  case (Done d s u ws)
  then show ?case by (auto split: prod.splits)
next
  case (Defer d s u ws)
  show ?case
  proof (cases "v = u")
    case True
    have "u \<notin> set ws \<and> w_seq u \<notin> w_seq ` set ws" using Defer.prems(2) Defer.hyps(1) by auto
    with dispatch_loop_other_futures [of "w_seq u" "s\<lparr>waiters := ws\<rparr>" now "d @ [u]"] Defer True
    show ?thesis by simp
  next
    case False
    with Defer have "w \<notin> set (d @ [u]) \<and> w_key v \<le> w_key w" by (intro Defer.IH) auto
    then show ?thesis by simp
  qed
next
  case (Serve d s u ws p)
  have starved: "\<forall>w \<in> set d. pick now (w_model w) (reg (serve now u ws p s)) = None"
    using Serve.prems(3) by (simp add: pick_None_slot)
  show ?case
  proof (cases "v = u")
    case True
    from dispatch_loop_frame [of now d "serve now u ws p s"] Serve.hyps(4) Serve.prems(7)
    have "w \<in> set d \<or> w \<in> set ws" by (auto split: prod.splits dest: mset_subset_eqD)
    moreover have "w \<notin> set d" using Serve.prems(3,8) Serve.hyps(3) True by auto
    ultimately show ?thesis using Serve.prems(1) Serve.hyps(1) True by auto
  next
    case False
    then have "v \<in> set ws" "w_seq u \<notin> w_seq ` set ws" using Serve.prems(2,4) Serve.hyps(1) by auto
    then have "w_seq v \<noteq> w_seq u" by (metis imageI)
    with False Serve starved show ?thesis by (intro Serve.IH) auto
  qed
qed

section \<open>Every operation keeps the invariant\<close>

definition sched_ok :: "scheduler \<Rightarrow> bool" where
  "sched_ok s \<longleftrightarrow> leases_ok s \<and> queue_ok s"

lemma fold_heappush: "mset (fold heappush d ws) = mset d + mset ws"
  by (induction d arbitrary: ws) (simp_all add: heap.items_push)

lemma sorted_fold_heappush: "sorted (map w_key ws) \<Longrightarrow> sorted (map w_key (fold heappush d ws))"
  by (induction d arbitrary: ws) (simp_all add: heap.valid_push)

lemma set_fold_heappush [simp]: "set (fold heappush d ws) = set d \<union> set ws"
  by (metis fold_heappush set_mset_mset set_mset_union)

lemma queue_ok_sub:
  assumes "queue_ok s" "mset (waiters s') \<subseteq># mset (waiters s)" "sorted (map w_key (waiters s'))"
    "max_queue s' = max_queue s" "next_seq s \<le> next_seq s'"
  shows "queue_ok s'"
proof -
  have "length (waiters s') \<le> length (waiters s)" using size_mset_mono [OF assms(2)] by simp
  moreover have "set (waiters s') \<subseteq> set (waiters s)" using set_mset_mono [OF assms(2)] by simp
  moreover have "distinct (map w_seq (waiters s'))" using assms(1,2) distinct_sub_mset by (auto simp: queue_ok_def)
  ultimately show ?thesis using assms by (force simp: queue_ok_def)
qed

lemma dispatch_eq:
  "dispatch now s = (snd (dispatch_loop now [] s))\<lparr>waiters := fold heappush (fst (dispatch_loop now [] s)) []\<rparr>"
  using dispatch_loop_frame [of now "[]" s] by (simp add: dispatch_def case_prod_unfold Let_def)

lemma dispatch_frame:
  "same_config s (dispatch now s) \<and> redeemed (dispatch now s) = redeemed s
   \<and> mset (waiters (dispatch now s)) \<subseteq># mset (waiters s)"
  using dispatch_loop_frame [of now "[]" s]
  by (simp add: dispatch_eq case_prod_unfold Let_def fold_heappush same_config_def)

lemma dispatch_ok:
  assumes "leases_ok s" "queue_ok s" shows "sched_ok (dispatch now s)"
proof -
  have "leases_ok (dispatch now s)"
    unfolding dispatch_eq using dispatch_loop_leases_ok [OF assms(1)] by (simp cong: leases_ok_cong)
  moreover have "queue_ok (dispatch now s)"
    using dispatch_frame [of s now] by (intro queue_ok_sub [OF assms(2)]) (auto simp: dispatch_eq same_config_def sorted_fold_heappush)
  ultimately show ?thesis by (simp add: sched_ok_def)
qed

lemma release_slots_ok:
  assumes ok: "leases_ok s" and l: "map_of (leases s) rid = Some l"
  shows "leases_ok (s\<lparr>leases := AList.delete rid (leases s), redeemed := redeemed s - {rid},
    reg := release_slot (p_id (l_peer l)) (reg s)\<rparr>)"
proof -
  obtain d1 d2 where d: "leases s = d1 @ (rid, l) # d2" and del: "AList.delete rid (leases s) = d1 @ d2"
    using delete_split [OF _ l] ok by (auto simp: leases_ok_def)
  have "slots.held (reg s) (holders d1 @ p_id (l_peer l) # holders d2)"
    using ok by (simp add: leases_ok_def d holders_def)
  then have "slots.held (release_slot (p_id (l_peer l)) (reg s)) (holders (d1 @ d2))"
    using slots.held_give by (simp add: holders_def)
  moreover have "load (release_slot (p_id (l_peer l)) (reg s)) k \<le> load (reg s) k" for k
    using ok registry_ok_load [of "reg s" k] by (auto simp: load_release leases_ok_def)
  moreover have "redeemed s - {rid} \<subseteq> set (keys (d1 @ d2))" using ok by (auto simp: leases_ok_def d)
  moreover have "dict_distinct (d1 @ d2)" "\<forall>(k, l') \<in> set (d1 @ d2). lease_ok s k l'"
    using ok by (auto simp: leases_ok_def d)
  moreover have "registry_ok (release_slot (p_id (l_peer l)) (reg s))" using ok by (auto simp: leases_ok_def)
  moreover have "\<forall>pid p. map_of (peers (reg_roster (reg s))) pid = Some p \<longrightarrow>
      load (release_slot (p_id (l_peer l)) (reg s)) pid \<le> p_max_concurrent p"
    using ok calculation(2) by (meson leases_ok_def order_trans)
  ultimately show ?thesis
    using ok unfolding del by (simp add: leases_ok_def lease_ok_def)
qed

lemma release_absent_ok:
  assumes ok: "leases_ok s" and l: "map_of (leases s) rid = None"
  shows "leases_ok (s\<lparr>leases := AList.delete rid (leases s), redeemed := redeemed s - {rid}\<rparr>)"
proof -
  have "rid \<notin> fst ` set (leases s)" using l by (simp add: map_of_eq_None_iff)
  then have "AList.delete rid (leases s) = leases s" by simp
  with ok \<open>rid \<notin> _\<close> show ?thesis by (auto simp: leases_ok_def lease_ok_def)
qed

lemma release_ok:
  assumes "sched_ok s" shows "sched_ok (release now rid s)"
proof (cases "map_of (leases s) rid")
  case None
  have "queue_ok (s\<lparr>leases := AList.delete rid (leases s), redeemed := redeemed s - {rid}\<rparr>)"
    using assms by (simp add: sched_ok_def queue_ok_def)
  from dispatch_ok [OF release_absent_ok [OF _ None] this] assms None show ?thesis
    by (simp add: release_def Let_def sched_ok_def)
next
  case (Some l)
  have "queue_ok (s\<lparr>leases := AList.delete rid (leases s), redeemed := redeemed s - {rid},
      reg := release_slot (p_id (l_peer l)) (reg s)\<rparr>)"
    using assms by (simp add: sched_ok_def queue_ok_def)
  from dispatch_ok [OF release_slots_ok [OF _ Some] this] assms Some show ?thesis
    by (simp add: release_def Let_def sched_ok_def)
qed

lemma expire_ok: "sched_ok s \<Longrightarrow> sched_ok (snd (expire_stale now s))"
  unfolding expire_stale_def snd_conv by (rule fold_invariant) (auto intro: release_ok)

lemma redeem_ok:
  assumes "sched_ok s" shows "sched_ok (snd (redeem now rid mid s))"
proof -
  have "sched_ok (s\<lparr>redeemed := insert rid (redeemed s)\<rparr>)" if "map_of (leases s) rid = Some l" for l
  proof -
    have "rid \<in> set (keys (leases s))" using map_of_SomeD [OF that] by force
    with assms show ?thesis by (simp add: sched_ok_def queue_ok_def leases_ok_def lease_ok_def)
  qed
  with assms release_ok show ?thesis by (auto simp: redeem_def split: option.splits)
qed

lemma acquire_ok:
  assumes "sched_ok s" shows "sched_ok (snd (acquire now mid m s))"
proof (cases "pick now m (reg s)")
  case (Some p)
  have "queue_ok (snd (issue now mid p s))" using assms by (simp add: sched_ok_def queue_ok_def)
  with assms Some issue_ok show ?thesis by (auto simp: acquire_def sql_balance_def Let_def case_prod_unfold sched_ok_def)
next
  case None
  let ?w = "\<lparr>neg_score = - score (balance_of (reg_ledger (reg s)) mid), w_seq = next_seq s, w_member = mid, w_model = m\<rparr>"
  have "mset (heappush ?w (waiters s)) = add_mset ?w (mset (waiters s))" by (rule heap.items_push)
  then have set: "set (heappush ?w (waiters s)) = insert ?w (set (waiters s))"
    and len: "length (heappush ?w (waiters s)) = length (waiters s) + 1"
    by (metis set_mset_add_mset_insert set_mset_mset, metis Suc_eq_plus1 size_add_mset size_mset)
  have "mset (map w_seq (heappush ?w (waiters s))) = mset (next_seq s # map w_seq (waiters s))"
    by (simp add: heap.items_push)
  from mset_eq_imp_distinct_iff [OF this] have "distinct (map w_seq (heappush ?w (waiters s)))"
    using assms by (auto simp: sched_ok_def queue_ok_def)
  with set len assms None show ?thesis
    by (auto simp: acquire_def sql_balance_def Let_def sched_ok_def queue_ok_def heap.valid_push less_Suc_eq cong: leases_ok_cong)
qed

section \<open>Runs of the scheduler\<close>

text \<open>
  What the coordinator does to a scheduler: the handlers' calls, the end of a wait, and the registry
  operations other than the slot changes, which only the scheduler makes.
\<close>

datatype sched_op =
    Acquire rat string string
  | Release rat string
  | Redeem rat string string
  | ExpireStale rat
  | CancelWait nat
  | DropWaiter nat
  | RegistryOp registry_op

fun no_slot_op :: "registry_op \<Rightarrow> bool" where
  "no_slot_op (AcquireSlot p) = False"
| "no_slot_op (ReleaseSlot p) = False"
| "no_slot_op a = True"

fun sched_step :: "sched_op \<Rightarrow> scheduler \<Rightarrow> scheduler" where
  "sched_step (Acquire now mid m) s = snd (acquire now mid m s)"
| "sched_step (Release now rid) s = release now rid s"
| "sched_step (Redeem now rid mid) s = snd (redeem now rid mid s)"
| "sched_step (ExpireStale now) s = snd (expire_stale now s)"
| "sched_step (CancelWait n) s = cancel_wait n s"
| "sched_step (DropWaiter n) s = drop_waiter n s"
| "sched_step (RegistryOp a) s = (if no_slot_op a then s\<lparr>reg := registry_step a (reg s)\<rparr> else s)"

lemma heartbeat_frame:
  assumes "heartbeat now now' pid gb up det r = Inr r'"
  shows "reg_roster r' = reg_roster r \<and> (\<forall>k. load r' k = load r k)"
proof -
  from assms obtain p where p: "map_of (peers (reg_roster r)) pid = Some p"
    by (auto simp: heartbeat_def rbind_Inr_iff)
  have owner: "reg_roster r2 = reg_roster r1 \<and> states r2 = states r1" if "attest_owner now' q g r1 = Inr r2" for q g r1 r2
    using that by (auto simp: attest_owner_def split: if_splits elim: attest_Inr)
  show ?thesis
  proof (cases "map_of (states r) pid")
    case None
    with assms p show ?thesis by (auto simp: heartbeat_def Let_def load_def dest: owner)
  next
    case (Some st)
    with assms p show ?thesis by (auto simp: heartbeat_def Let_def load_def dest!: owner split: if_splits)
  qed
qed

lemma registry_step_frame:
  "no_slot_op a \<Longrightarrow> reg_roster (registry_step a r) = reg_roster r \<and> (\<forall>k. load (registry_step a r) k = load r k)"
proof (cases a)
  case (Beat now now' pid gb up det)
  then show ?thesis by (auto simp: keep_def heartbeat_frame split: sum.splits)
next
  case (Attest now pid mid gb)
  then show ?thesis by (auto simp: keep_def load_def split: sum.splits elim: attest_Inr)
next
  case (Failure pid)
  then show ?thesis by (auto simp: mark_failure_def Let_def load_def split: option.splits)
next
  case (Consume row)
  then show ?thesis by (simp add: load_def)
qed simp_all

lemma sched_step_ok: assumes "sched_ok s" shows "sched_ok (sched_step a s)"
proof (cases a)
  case (CancelWait n)
  with assms show ?thesis by (simp add: cancel_wait_def sched_ok_def queue_ok_def cong: leases_ok_cong)
next
  case (DropWaiter n)
  have q: "queue_ok s" using assms by (simp add: sched_ok_def)
  then have "sorted (map w_key (waiters s))" by (simp add: queue_ok_def)
  then have "sorted (map w_key (waiters (drop_waiter n s)))" unfolding drop_waiter_def by (simp add: sorted_filter)
  moreover have "mset (waiters (drop_waiter n s)) \<subseteq># mset (waiters s)" by (simp add: drop_waiter_def)
  ultimately have "queue_ok (drop_waiter n s)" by (intro queue_ok_sub [OF q]) (simp_all add: drop_waiter_def)
  with assms DropWaiter show ?thesis by (simp add: sched_ok_def drop_waiter_def cong: leases_ok_cong)
next
  case (RegistryOp b)
  show ?thesis
  proof (cases "no_slot_op b")
    case True
    have "slots.held (registry_step b (reg s)) ks = slots.held (reg s) ks" for ks
      using registry_step_frame [OF True] by (intro slots.held_cong) simp
    with registry_step_frame [OF True, of "reg s"] registry_step_ok [of "reg s" b] assms
    have "leases_ok (s\<lparr>reg := registry_step b (reg s)\<rparr>)"
      by (simp add: sched_ok_def leases_ok_def lease_ok_def)
    with assms True RegistryOp show ?thesis by (simp add: sched_ok_def queue_ok_def)
  qed (use assms RegistryOp in simp)
qed (use assms in \<open>simp_all add: acquire_ok release_ok redeem_ok expire_ok\<close>)

interpretation sched: step_invariant sched_step sched_ok
  by unfold_locales (rule sched_step_ok)

text \<open>The ledger: only registry operations write to it, and contributions only as the roster backs them.\<close>

lemma dispatch_loop_ledger: "reg_ledger (reg (snd (dispatch_loop now d s))) = reg_ledger (reg s)"
  by (induction d s rule: dispatch_loop_induct [where now = now]) simp_all

lemma release_ledger [simp]: "reg_ledger (reg (release now rid s)) = reg_ledger (reg s)"
  by (auto simp: release_def Let_def dispatch_eq dispatch_loop_ledger split: option.splits)

lemma releases_ledger [simp]: "reg_ledger (reg (fold (release now) rids s)) = reg_ledger (reg s)"
  by (induction rids arbitrary: s) simp_all

lemma release_roster [simp]: "reg_roster (reg (release now rid s)) = reg_roster (reg s)"
  using dispatch_frame [of _ now] by (auto simp: release_def Let_def same_config_def split: option.splits)

lemma releases_roster [simp]: "reg_roster (reg (fold (release now) rids s)) = reg_roster (reg s)"
  by (induction rids arbitrary: s) simp_all

lemma sched_step_rows: assumes "sched_ok s" shows "adds_rows (reg s) (reg (sched_step a s))"
proof (cases a)
  case (RegistryOp b)
  have "registry_ok (reg s)" using assms by (simp add: sched_ok_def leases_ok_def)
  with adds_rows_step RegistryOp show ?thesis by (simp add: adds_rows_same)
next
  case (Acquire now mid m)
  then show ?thesis
    by (auto simp: acquire_def Let_def case_prod_unfold intro!: adds_rows_same split: option.splits sum.splits)
next
  case (Redeem now rid mid)
  then show ?thesis by (auto simp: redeem_def intro!: adds_rows_same split: option.splits)
qed (auto simp: expire_stale_def cancel_wait_def drop_waiter_def intro!: adds_rows_same)

lemma sched_run_rows: "sched_ok s \<Longrightarrow> adds_rows (reg s) (reg (fold sched_step ops s))"
proof (induction ops arbitrary: s)
  case (Cons a ops)
  from adds_rows_trans [OF sched_step_rows [OF Cons.prems] Cons.IH [OF sched_step_ok [OF Cons.prems]]] show ?case by simp
qed (simp add: adds_rows_same)

lemma sched_ok_new: "roster_ok ro \<Longrightarrow> inj toks \<Longrightarrow> sched_ok (new_scheduler (new_registry ro) toks)"
  using registry_ok_new [of ro]
  by (auto simp: sched_ok_def leases_ok_def queue_ok_def new_scheduler_def slots.held_def holders_def
      load_def DEFAULT_MAX_QUEUE_def)
     (auto simp: new_registry_def roster_ok_def peer_ok_def dest!: map_of_SomeD)

section \<open>A redeemed lease stays spent\<close>

definition spent :: "string \<Rightarrow> scheduler \<Rightarrow> bool" where
  "spent rid s \<longleftrightarrow> inj (tokens s) \<and> rid \<in> tokens s ` {..<next_token s} \<and> (rid \<in> redeemed s \<or> map_of (leases s) rid = None)"

lemma spent_serve: "spent rid s \<Longrightarrow> spent rid (serve now w ws p s)"
  by (auto simp: spent_def serve_def Let_def issue_def alist.lookup_store inj_eq)

lemma spent_cong:
  assumes "tokens s' = tokens s" "next_token s' = next_token s" "redeemed s' = redeemed s" "leases s' = leases s"
  shows "spent rid s' = spent rid s"
  using assms by (simp add: spent_def)

lemma spent_dispatch_loop: "spent rid s \<Longrightarrow> spent rid (snd (dispatch_loop now d s))"
proof (induction d s rule: dispatch_loop_induct [where now = now])
  case (Serve d s w ws p)
  from spent_serve [OF Serve.prems] Serve show ?case by simp
qed (simp_all cong: spent_cong)

lemma spent_dispatch: "spent rid s \<Longrightarrow> spent rid (dispatch now s)"
  unfolding dispatch_eq using spent_dispatch_loop by (simp cong: spent_cong)

lemma spent_release:
  assumes "spent rid s" shows "spent rid (release now rid' s)"
proof -
  have one: "spent rid (s\<lparr>leases := AList.delete rid' (leases s), redeemed := redeemed s - {rid'}\<rparr>)"
    using assms by (auto simp: spent_def alist.lookup_remove)
  then have "spent rid (s\<lparr>leases := AList.delete rid' (leases s), redeemed := redeemed s - {rid'}, reg := r\<rparr>)" for r
    by (simp add: spent_def)
  with spent_dispatch one show ?thesis by (auto simp: release_def Let_def split: option.splits)
qed

lemma spent_step: assumes "spent rid s" shows "spent rid (sched_step a s)"
proof (cases a)
  case (Acquire now mid m)
  have "spent rid (snd (issue now mid p s))" for p
    using assms by (auto simp: spent_def issue_def Let_def alist.lookup_store inj_eq)
  with assms Acquire show ?thesis
    by (auto simp: acquire_def sql_balance_def Let_def case_prod_unfold spent_def split: option.splits)
next
  case (Redeem now rid' mid)
  with assms spent_release [OF assms] show ?thesis by (auto simp: redeem_def spent_def split: option.splits)
next
  case (ExpireStale now)
  have "spent rid (fold (release now) xs s)" for xs
    using assms by (induction xs arbitrary: s) (simp_all add: spent_release)
  with ExpireStale show ?thesis by (simp add: expire_stale_def)
next
  case (Release now rid')
  with spent_release [OF assms] show ?thesis by simp
qed (use assms in \<open>auto simp: cancel_wait_def drop_waiter_def spent_def\<close>)

section \<open>No waiter is lost\<close>

text \<open>Where a waiter can be after the loop: still set aside, or granted a lease of its own.\<close>

definition served_ok :: "scheduler \<Rightarrow> waiter \<Rightarrow> bool" where
  "served_ok s w \<longleftrightarrow> (\<exists>l. future_of (w_seq w) s = Granted l \<and> map_of (leases s) (l_request_id l) = Some l
     \<and> l_member l = w_member w \<and> (w_model w \<noteq> [] \<longrightarrow> p_model (l_peer l) = w_model w))"

lemma served_ok_serve:
  assumes "leases_ok s" "served_ok s v" "w_seq v \<noteq> w_seq w" shows "served_ok (serve now w ws p s) v"
proof -
  from assms(2) obtain l where l: "future_of (w_seq v) s = Granted l" "map_of (leases s) (l_request_id l) = Some l"
    "l_member l = w_member v \<and> (w_model v \<noteq> [] \<longrightarrow> p_model (l_peer l) = w_model v)"
    by (auto simp: served_ok_def)
  have "l_request_id l \<noteq> tokens s (next_token s)" using token_fresh [OF assms(1)] l(2) by auto
  with l assms(3) show ?thesis
    by (auto simp: served_ok_def serve_def Let_def issue_def alist.lookup_store future_of_def)
qed

lemma served_ok_new:
  assumes "leases_ok s" "pick now (w_model w) (reg s) = Some p" shows "served_ok (serve now w ws p s) w"
proof -
  have "w_model w \<noteq> [] \<longrightarrow> p_model p = w_model w"
    using pick_Some [OF _ assms(2)] assms(1) by (simp add: leases_ok_def registry_ok_def)
  then show ?thesis by (simp add: served_ok_def serve_def Let_def issue_def alist.lookup_store future_of_def)
qed

lemma dispatch_loop_served:
  "leases_ok s \<Longrightarrow> served_ok s v \<Longrightarrow> w_seq v \<notin> w_seq ` set (waiters s) \<Longrightarrow> served_ok (snd (dispatch_loop now d s)) v"
proof (induction d s rule: dispatch_loop_induct [where now = now])
  case (Serve d s w ws p)
  then have "w_seq v \<noteq> w_seq w" "w_seq v \<notin> w_seq ` set ws" by auto
  with Serve served_ok_serve [of s v w now ws p] serve_ok [of s now "w_model w" p w ws] show ?case by simp
qed (simp_all add: served_ok_def cong: leases_ok_cong)

lemma dispatch_loop_no_loss:
  "leases_ok s \<Longrightarrow> distinct (map w_seq (waiters s)) \<Longrightarrow> v \<in> set (waiters s) \<Longrightarrow> future_of (w_seq v) s = Pending \<Longrightarrow>
     v \<in> set (fst (dispatch_loop now d s)) \<or> served_ok (snd (dispatch_loop now d s)) v"
proof (induction d s rule: dispatch_loop_induct [where now = now])
  case (Nil d s)
  then show ?case by simp
next
  case (Done d s w ws)
  then show ?case by (auto cong: leases_ok_cong)
next
  case (Defer d s w ws)
  have "set (d @ [w]) \<subseteq> set (fst (dispatch_loop now d s))"
    using dispatch_loop_frame [of now "d @ [w]" "s\<lparr>waiters := ws\<rparr>"] Defer.hyps(4) by (auto split: prod.splits)
  with Defer show ?case by (cases "v = w") (auto cong: leases_ok_cong)
next
  case (Serve d s w ws p)
  have ok: "leases_ok (serve now w ws p s)" using Serve serve_ok by blast
  have fresh: "w_seq w \<notin> w_seq ` set ws" using Serve.prems(2) Serve.hyps(1) by auto
  show ?case
  proof (cases "v = w")
    case True
    with dispatch_loop_served [OF ok served_ok_new [OF Serve.prems(1) Serve.hyps(3)]] fresh Serve.hyps(4)
    show ?thesis by simp
  next
    case False
    then have v: "v \<in> set ws" using Serve.prems(3) Serve.hyps(1) by simp
    then have "w_seq v \<noteq> w_seq w" using fresh by (metis imageI)
    with v ok Serve show ?thesis by auto
  qed
qed

section \<open>Expiry\<close>

definition all_fresh :: "rat \<Rightarrow> string set \<Rightarrow> scheduler \<Rightarrow> bool" where
  "all_fresh now R s \<longleftrightarrow> (\<forall>rid l. map_of (leases s) rid = Some l \<longrightarrow> l_expires_at l < now \<longrightarrow> rid \<in> R)"

lemma all_fresh_cong: "leases s' = leases s \<Longrightarrow> all_fresh now R s' = all_fresh now R s"
  by (simp add: all_fresh_def)

lemma all_fresh_dispatch_loop:
  "0 \<le> lease_ttl s \<Longrightarrow> all_fresh now R s \<Longrightarrow> all_fresh now R (snd (dispatch_loop now d s))"
proof (induction d s rule: dispatch_loop_induct [where now = now])
  case (Serve d s w ws p)
  have "all_fresh now R (serve now w ws p s)"
    using Serve.prems by (auto simp: all_fresh_def serve_def Let_def issue_def alist.lookup_store)
  moreover have "0 \<le> lease_ttl (serve now w ws p s)"
    using Serve.prems(1) serve_simps(3) [of s now w ws p] by (simp add: same_config_def)
  ultimately show ?case using Serve by simp
qed (simp_all cong: all_fresh_cong)

lemma all_fresh_release:
  assumes "0 \<le> lease_ttl s" "all_fresh now (insert rid R) s"
  shows "all_fresh now R (release now rid s) \<and> lease_ttl (release now rid s) = lease_ttl s"
proof -
  define s1 where "s1 = (case map_of (leases s) rid of
      None \<Rightarrow> s\<lparr>leases := AList.delete rid (leases s), redeemed := redeemed s - {rid}\<rparr>
    | Some l \<Rightarrow> s\<lparr>leases := AList.delete rid (leases s), redeemed := redeemed s - {rid},
        reg := release_slot (p_id (l_peer l)) (reg s)\<rparr>)"
  have s1: "all_fresh now R s1" "lease_ttl s1 = lease_ttl s"
    using assms(2) by (auto simp: s1_def all_fresh_def alist.lookup_remove split: option.splits)
  have "release now rid s = dispatch now s1" by (auto simp: release_def Let_def s1_def split: option.splits)
  moreover have "all_fresh now R (dispatch now s1)"
    unfolding dispatch_eq using all_fresh_dispatch_loop [of s1 now R "[]"] s1 assms(1) by (simp cong: all_fresh_cong)
  moreover have "lease_ttl (dispatch now s1) = lease_ttl s1" using dispatch_frame by (simp add: same_config_def)
  ultimately show ?thesis using s1(2) by simp
qed

lemma all_fresh_releases:
  "0 \<le> lease_ttl s \<Longrightarrow> all_fresh now (set rids) s \<Longrightarrow> all_fresh now {} (fold (release now) rids s)"
  by (induction rids arbitrary: s) (auto simp: all_fresh_release)

section \<open>Properties\<close>

text \<open>
  C14: capacity is respected: after any sequence of acquires, releases, redemptions, expiries, cancelled
  waits, heartbeats, attestations and failures, the slots taken of a peer are exactly its active leases and
  never more than the batch capacity its roster entry declares, only active leases are redeemed, and the
  wait queue is within its bound.
\<close>
theorem capacity_respected:
  assumes "roster_ok ro" "inj toks" "s = fold sched_step ops (new_scheduler (new_registry ro) toks)"
    "map_of (peers (reg_roster (reg s))) pid = Some p"
  shows "load (reg s) pid = int (length (filter (\<lambda>(rid, l). p_id (l_peer l) = pid) (leases s)))
    \<and> load (reg s) pid \<le> p_max_concurrent p \<and> redeemed s \<subseteq> set (keys (leases s))
    \<and> int (queue_depth s) \<le> max_queue s"
proof -
  have ok: "sched_ok s" unfolding assms(3) by (rule sched.run_inv) (rule sched_ok_new [OF assms(1,2)])
  then have "load (reg s) pid = int (count_list (holders (leases s)) pid)"
    by (intro slots.held_load) (simp add: sched_ok_def leases_ok_def)
  also have "count_list (holders d) pid = length (filter (\<lambda>(rid, l). p_id (l_peer l) = pid) d)" for d
    by (induction d) (auto simp: holders_def)
  finally have "load (reg s) pid = int (length (filter (\<lambda>(rid, l). p_id (l_peer l) = pid) (leases s)))" .
  moreover have "load (reg s) pid \<le> p_max_concurrent p" using ok assms(4) unfolding sched_ok_def leases_ok_def by blast
  ultimately show ?thesis using ok by (simp add: sched_ok_def leases_ok_def queue_ok_def queue_depth_def)
qed

text \<open>
  C12: a lease is redeemed at most once: after a redemption succeeds, no later sequence of operations makes
  the same request id redeemable again, by its owner or by anyone else.
\<close>
theorem redeem_at_most_once:
  assumes "sched_ok s" "redeem now rid mid s = (Inr l, s1)"
  shows "\<exists>e. fst (redeem now' rid mid' (fold sched_step ops s1)) = Inl e"
proof -
  from assms(2) have l: "map_of (leases s) rid = Some l" and s1: "s1 = s\<lparr>redeemed := insert rid (redeemed s)\<rparr>"
    by (auto simp: redeem_def split: option.splits if_splits)
  from map_of_SomeD [OF l] assms(1) have "spent rid s1"
    by (auto simp: s1 spent_def sched_ok_def leases_ok_def lease_ok_def)
  then have "spent rid (fold sched_step ops s1)"
    by (induction ops arbitrary: s1) (simp_all add: spent_step)
  then show ?thesis by (auto simp: redeem_def spent_def split: option.splits)
qed

text \<open>
  what a successful redemption guarantees: the lease is active, issued to this very member, not past
  its time to live and on a peer of the roster; and redeeming changes nothing but the redeemed set.
\<close>
theorem redeem_sound:
  assumes "sched_ok s" "redeem now rid mid s = (Inr l, s1)"
  shows "map_of (leases s) rid = Some l \<and> l_request_id l = rid \<and> l_member l = mid \<and> now \<le> l_expires_at l
    \<and> rid \<notin> redeemed s \<and> map_of (peers (reg_roster (reg s))) (p_id (l_peer l)) = Some (l_peer l)
    \<and> s1 = s\<lparr>redeemed := insert rid (redeemed s)\<rparr>"
proof -
  from assms(2) have l: "map_of (leases s) rid = Some l"
    by (auto simp: redeem_def split: option.splits if_splits)
  from map_of_SomeD [OF l] assms(1) have "lease_ok s rid l" by (auto simp: sched_ok_def leases_ok_def)
  with assms(2) l show ?thesis by (auto simp: redeem_def lease_ok_def split: if_splits)
qed

text \<open>
  \<open>acquire\<close> by cases: it fails for want of a live peer exactly when none serves the model, leases the
  least-loaded live peer with a free slot when there is one, and otherwise waits in the queue or, when
  the queue is at its bound or the database cannot sum the member's balance, is refused.
\<close>
theorem acquire_outcome:
  "case fst (acquire now mid m s) of
     Inl e \<Rightarrow> (e = NoCapacity \<and> live_peers now m (reg s) = [])
       \<or> (e = QueueFull \<and> live_peers now m (reg s) \<noteq> [] \<and> pick now m (reg s) = None \<and> max_queue s \<le> int (queue_depth s))
       \<or> (e = BalanceOverflow \<and> pick now m (reg s) = None \<and> sql_balance (reg_ledger (reg s)) mid = Inl IntegerOverflow)
   | Inr (Leased l) \<Rightarrow> l_member l = mid \<and> l_peer l \<in> set (live_peers now m (reg s))
       \<and> load (reg s) (p_id (l_peer l)) < p_max_concurrent (l_peer l)
       \<and> (\<forall>q \<in> set (live_peers now m (reg s)). load (reg s) (p_id q) < p_max_concurrent q \<longrightarrow>
            load (reg s) (p_id (l_peer l)) \<le> load (reg s) (p_id q))
       \<and> map_of (leases (snd (acquire now mid m s))) (l_request_id l) = Some l
   | Inr (Waiting n) \<Rightarrow> n = next_seq s \<and> pick now m (reg s) = None \<and> int (queue_depth s) < max_queue s
       \<and> queue_depth (snd (acquire now mid m s)) = queue_depth s + 1"
proof (cases "pick now m (reg s)")
  case None
  have "length (heappush w ws) = length ws + 1" for w ws
    using heap.items_push [of w ws] by (metis Suc_eq_plus1 size_add_mset size_mset)
  with None show ?thesis by (auto simp: acquire_def sql_balance_def Let_def queue_depth_def)
next
  case (Some p)
  then have "p \<in> set (filter (\<lambda>p. has_capacity now p (reg s)) (live_peers now m (reg s)))"
    unfolding pick_def by (rule min_by_mem)
  then have "p \<in> set (live_peers now m (reg s))" "load (reg s) (p_id p) < p_max_concurrent p"
    by (auto simp: has_capacity_iff)
  moreover from this(1) have "live_peers now m (reg s) \<noteq> []" by auto
  moreover have "load (reg s) (p_id p) \<le> load (reg s) (p_id q)"
    if "q \<in> set (live_peers now m (reg s))" "load (reg s) (p_id q) < p_max_concurrent q" for q
    using pick_least [OF Some that] by (auto simp: less_eq_prod_def)
  ultimately show ?thesis using Some
    by (auto simp: acquire_def sql_balance_def Let_def case_prod_unfold alist.lookup_store)
qed

text \<open>
  C15: dispatching is work-conserving: when it ends, no waiter left in the queue could be served by any
  live peer with a free slot.
\<close>
theorem dispatch_work_conserving:
  "list_all (\<lambda>w. pick now (w_model w) (reg (dispatch now s)) = None) (waiters (dispatch now s))"
  using dispatch_loop_starved [of "[]" now s] by (simp add: dispatch_eq list_all_iff case_prod_unfold Let_def)

text \<open>
  C38: dispatching follows fair-share priority: a waiter it grants a slot comes, by score and then by
  arrival, before every waiter for the same model it leaves in the queue.
\<close>
theorem dispatch_priority:
  assumes "queue_ok s" "v \<in> set (waiters s)" "future_of (w_seq v) s = Pending"
    "future_of (w_seq v) (dispatch now s) \<noteq> Pending" "w \<in> set (waiters (dispatch now s))" "w_model w = w_model v"
  shows "v < w"
proof -
  have w: "w \<in> set (fst (dispatch_loop now [] s))" and v: "future_of (w_seq v) (snd (dispatch_loop now [] s)) \<noteq> Pending"
    using assms(4,5) by (simp_all add: dispatch_eq)
  then have "future_of (w_seq w) (snd (dispatch_loop now [] s)) = Pending"
    using dispatch_loop_pending [of s "[]" now] assms(1) by (auto simp: queue_ok_def)
  with v have "w_seq v \<noteq> w_seq w" by metis
  moreover have "w_key v \<le> w_key w" using dispatch_loop_priority [of s "[]" now v w] w v assms by (simp add: queue_ok_def)
  ultimately show ?thesis by (simp add: waiter_less_iff)
qed

text \<open>
  no waiter is lost: after a dispatch every waiter that was still waiting is either in the queue or has
  been granted an active lease that is its own, on a peer that serves its model.
\<close>
theorem dispatch_no_lost_waiter:
  assumes "sched_ok s" "w \<in> set (waiters s)" "future_of (w_seq w) s = Pending"
  shows "w \<in> set (waiters (dispatch now s)) \<or> served_ok (dispatch now s) w"
  using dispatch_loop_no_loss [of s w now "[]"] assms
  by (auto simp: dispatch_eq sched_ok_def queue_ok_def served_ok_def future_of_def)

text \<open>
  \<open>expire_stale\<close> leaves no lease past its time to live, whatever the dispatches in between granted.
\<close>
theorem expire_stale_complete:
  assumes "0 \<le> lease_ttl s" "map_of (leases (snd (expire_stale now s))) rid = Some l"
  shows "now \<le> l_expires_at l"
proof -
  have "rid \<in> set (stale_leases now s)" if "map_of (leases s) rid = Some l" "l_expires_at l < now" for rid l
    using map_of_SomeD [OF that(1)] that(2) by (force simp: stale_leases_def)
  then have "all_fresh now (set (stale_leases now s)) s" by (auto simp: all_fresh_def)
  from all_fresh_releases [OF assms(1) this] assms(2) show ?thesis
    by (force simp: expire_stale_def all_fresh_def)
qed

section \<open>Witnesses\<close>

definition demo_tokens :: "nat \<Rightarrow> string" where
  "demo_tokens n = replicate (Suc n) CHR ''t''"

lemma demo_tokens_inj: "inj demo_tokens"
  by (rule injI) (metis demo_tokens_def length_replicate Suc_inject)

definition demo_beat :: "rat \<Rightarrow> sched_op" where
  "demo_beat t = RegistryOp (Beat t t ''g'' 8 True (JStr []))"

definition demo_sched :: "sched_op list \<Rightarrow> scheduler" where
  "demo_sched ops = fold sched_step ([demo_beat 1000, demo_beat 1060] @ ops) (new_scheduler (new_registry demo_roster) demo_tokens)"

lemma demo_sched_ok: "sched_ok (demo_sched ops)"
  unfolding demo_sched_def by (rule sched.run_inv) (rule sched_ok_new [OF demo_roster_ok demo_tokens_inj])

text \<open>One lease is out and two members wait; the peer fails, the lease is released, the peer comes back.\<close>

definition demo_queue :: "sched_op list" where
  "demo_queue = [Acquire 1061 ''c'' ''m'', Acquire 1062 ''b'' ''m'', Acquire 1063 ''c'' ''m'']"

definition demo_stalled :: scheduler where
  "demo_stalled = demo_sched (demo_queue @ [RegistryOp (Failure ''g''), RegistryOp (Failure ''g''),
     Release 1064 ''t'', demo_beat 1065])"

theorem capacity_respected_witness:
  "load (reg (demo_sched demo_queue)) ''g'' = 1 \<and> load (reg (demo_sched demo_queue)) ''g'' \<le> p_max_concurrent demo_peer"
proof -
  have p: "map_of (peers (reg_roster (reg (demo_sched demo_queue)))) ''g'' = Some demo_peer" by code_simp
  have "length (filter (\<lambda>(rid, l). p_id (l_peer l) = ''g'') (leases (demo_sched demo_queue))) = 1" by code_simp
  with capacity_respected [OF demo_roster_ok demo_tokens_inj _ p] show ?thesis unfolding demo_sched_def by fastforce
qed

definition demo_lease :: lease where
  "demo_lease = \<lparr>l_request_id = ''t'', l_member = ''c'', l_peer = demo_peer, l_expires_at = 1361\<rparr>"

lemma demo_redeem:
  "redeem 1064 ''t'' ''c'' (demo_sched demo_queue) =
     (Inr demo_lease, snd (redeem 1064 ''t'' ''c'' (demo_sched demo_queue)))"
  by (rule prod_eqI) (simp_all, code_simp)

theorem redeem_at_most_once_witness:
  "\<exists>e. fst (redeem 1070 ''t'' ''c'' (snd (redeem 1064 ''t'' ''c'' (demo_sched demo_queue)))) = Inl e"
  using redeem_at_most_once [OF demo_sched_ok demo_redeem, of 1070 "''c''" "[]"] by simp

theorem redeem_sound_witness: "l_member demo_lease = ''c'' \<and> 1064 \<le> l_expires_at demo_lease"
  using redeem_sound [OF demo_sched_ok demo_redeem] by blast

definition demo_waiter :: "nat \<Rightarrow> waiter" where
  "demo_waiter i = waiters demo_stalled ! i"

theorem dispatch_priority_witness: "demo_waiter 0 < demo_waiter 1"
proof (rule dispatch_priority [of demo_stalled _ 1066])
  show "queue_ok demo_stalled" using demo_sched_ok by (simp add: demo_stalled_def sched_ok_def)
qed code_simp+

theorem dispatch_no_lost_waiter_witness:
  "demo_waiter 0 \<in> set (waiters (dispatch 1066 demo_stalled)) \<or> served_ok (dispatch 1066 demo_stalled) (demo_waiter 0)"
proof (rule dispatch_no_lost_waiter)
  show "sched_ok demo_stalled" unfolding demo_stalled_def by (rule demo_sched_ok)
qed code_simp+

theorem expire_stale_complete_witness:
  "1362 \<le> l_expires_at \<lparr>l_request_id = ''tt'', l_member = ''b'', l_peer = demo_peer, l_expires_at = 1662\<rparr>"
proof (rule expire_stale_complete [of "demo_sched (demo_queue @ [demo_beat 1300])" _ "''tt''"])
qed code_simp+

definition demo_grant :: lease where
  "demo_grant = \<lparr>l_request_id = ''tt'', l_member = ''c'', l_peer = demo_peer, l_expires_at = 1366\<rparr>"

theorem acquire_outcome_witness: "load (reg demo_stalled) ''g'' < p_max_concurrent demo_peer"
proof -
  have "fst (acquire 1066 ''c'' ''m'' demo_stalled) = Inr (Leased demo_grant)" by code_simp
  with acquire_outcome [where now = 1066 and mid = "''c''" and m = "''m''" and s = demo_stalled] show ?thesis
    by (simp add: demo_grant_def demo_peer_def)
qed

section \<open>What the queue does not promise\<close>

text \<open>
  a peer that comes back to life is not offered to the waiters: no heartbeat dispatches, so while the
  highest-scored member waits for the idle peer, a member with a lower score who asks now is leased it.
\<close>
theorem newcomer_overtakes_waiter:
  "map w_member (waiters demo_stalled) = [''b'', ''c'']
   \<and> score (balance_of (reg_ledger (reg demo_stalled)) ''c'') < score (balance_of (reg_ledger (reg demo_stalled)) ''b'')
   \<and> (case fst (acquire 1066 ''c'' ''m'' demo_stalled) of Inr (Leased l) \<Rightarrow> l_member l = ''c'' | _ \<Rightarrow> False)"
  by code_simp

text \<open>
  \<open>expire_stale\<close> also reclaims a lease that was redeemed and whose stream has not ended: past its time
  to live the peer, which declared one slot, is leased to the next member while the first is still being served.
\<close>
theorem expiry_reclaims_redeemed:
  "let s1 = snd (redeem 1064 ''t'' ''c'' (demo_sched demo_queue));
       s2 = sched_step (demo_beat 1300) s1;
       s3 = snd (expire_stale 1362 s2)
   in redeemed s2 = {''t''} \<and> map_of (leases s3) ''t'' = None \<and> p_max_concurrent demo_peer = 1
      \<and> map_option l_member (map_of (leases s3) ''tt'') = Some ''b''"
  by code_simp

end
