(* ===== verification/Measure.thy ===== *)
theory Measure
  imports Prelude
begin

text \<open>
  \<open>measure.py\<close>: the log of lease, start and end events and the report over it. Rows are a list; the
  report sorts the start events by concurrency, as the query does, and reads percentiles by index.
  The hour of an event is computed from its time in microseconds since the epoch, to which
  \<open>datetime.fromtimestamp\<close> rounds half to even.
\<close>

record arrival =
  ar_member :: string
  ar_model :: string
  ar_event :: string
  ar_in_flight :: int
  ar_queue_depth :: int
  ar_at :: rat

record concurrency_report =
  samples :: nat
  mean_in_flight :: rat
  p50 :: int
  p95 :: int
  max_in_flight :: int
  mean_queue_depth :: rat
  span_hours :: rat

datatype verdict_kind = Insufficient nat | LowConcurrency int | ModerateConcurrency int | HighConcurrency int

definition record_event :: "arrival \<Rightarrow> arrival list \<Rightarrow> arrival list" where
  "record_event row rows = rows @ [row]"

definition starts :: "arrival list \<Rightarrow> arrival list" where
  "starts rows = filter (\<lambda>r. ar_event r = ''start'') rows"

definition rat_max :: "rat list \<Rightarrow> rat" where
  "rat_max xs = fold max (tl xs) (hd xs)"

definition rat_min :: "rat list \<Rightarrow> rat" where
  "rat_min xs = fold min (tl xs) (hd xs)"

definition concurrency_report_of :: "arrival list \<Rightarrow> concurrency_report" where
  "concurrency_report_of rows =
     (let rs = sort_key ar_in_flight (starts rows);
          flights = map ar_in_flight rs;
          queues = map ar_queue_depth rs;
          times = map ar_at rs;
          n = length flights
      in if rs = [] then \<lparr>samples = 0, mean_in_flight = 0, p50 = 0, p95 = 0, max_in_flight = 0, mean_queue_depth = 0, span_hours = 0\<rparr>
         else \<lparr>samples = n, mean_in_flight = of_int (sum_list flights) / of_nat n,
           p50 = flights ! (n * 50 div 100), p95 = flights ! min (n * 95 div 100) (n - 1),
           max_in_flight = last flights, mean_queue_depth = of_int (sum_list queues) / of_nat n,
           span_hours = (rat_max times - rat_min times) / 3600\<rparr>)"

definition report_verdict :: "concurrency_report \<Rightarrow> verdict_kind" where
  "report_verdict r =
     (if samples r < 100 then Insufficient (samples r)
      else if p95 r \<le> 3 then LowConcurrency (p95 r)
      else if p95 r \<le> 8 then ModerateConcurrency (p95 r)
      else HighConcurrency (p95 r))"

definition round_half_even :: "rat \<Rightarrow> int" where
  "round_half_even y =
     (let n = \<lfloor>y\<rfloor>; d = y - of_int n in if d < 1 / 2 \<or> (d = 1 / 2 \<and> even n) then n else n + 1)"

text \<open>\<open>round(x, 2)\<close>, as the coordinator reports the figures that are not whole.\<close>

definition round2 :: "rat \<Rightarrow> rat" where
  "round2 x = of_int (round_half_even (100 * x)) / 100"

definition rounded_report :: "concurrency_report \<Rightarrow> concurrency_report" where
  "rounded_report r = r\<lparr>span_hours := round2 (span_hours r), mean_in_flight := round2 (mean_in_flight r),
     mean_queue_depth := round2 (mean_queue_depth r)\<rparr>"

definition utc_hour :: "rat \<Rightarrow> int" where
  "utc_hour t = (round_half_even (t * 1000000) div 3600000000) mod 24"

definition bump :: "int \<Rightarrow> (int, nat) dict \<Rightarrow> (int, nat) dict" where
  "bump h d = AList.update h ((case map_of d h of None \<Rightarrow> 0 | Some n \<Rightarrow> n) + 1) d"

definition hourly_histogram :: "arrival list \<Rightarrow> (int, nat) dict" where
  "hourly_histogram rows = sort_key fst (fold (\<lambda>r. bump (utc_hour (ar_at r))) (starts rows) [])"

section \<open>Percentiles\<close>

lemma sorted_count_le:
  assumes "sorted xs" "i < length xs"
  shows "i < length (filter (\<lambda>x. x \<le> xs ! i) xs)"
proof -
  have "\<forall>x \<in> set (take (Suc i) xs). x \<le> xs ! i"
    using assms by (auto simp: in_set_conv_nth sorted_iff_nth_mono)
  then have "filter (\<lambda>x. x \<le> xs ! i) (take (Suc i) xs) = take (Suc i) xs" by (simp add: filter_id_conv)
  moreover have "length (filter (\<lambda>x. x \<le> xs ! i) xs) =
      length (filter (\<lambda>x. x \<le> xs ! i) (take (Suc i) xs)) + length (filter (\<lambda>x. x \<le> xs ! i) (drop (Suc i) xs))"
    by (metis append_take_drop_id filter_append length_append)
  ultimately show ?thesis using assms(2) by simp
qed

lemma bump_lookup: "map_of (bump h d) k = (if k = h then Some ((case map_of d h of None \<Rightarrow> 0 | Some n \<Rightarrow> n) + 1) else map_of d k)"
  by (simp add: bump_def alist.lookup_store)

lemma bump_distinct: "dict_distinct d \<Longrightarrow> dict_distinct (bump h d)"
  unfolding bump_def by (rule alist.ok_store)

lemma bump_total:
  assumes "dict_distinct d" shows "sum_list (map snd (bump h d)) = sum_list (map snd d) + 1"
proof (cases "map_of d h")
  case None
  then show ?thesis by (simp add: bump_def update_new)
next
  case (Some n)
  have "sum_list (map snd (AList.update h (n + 1) e)) = sum_list (map snd e) + 1"
    if "map_of e h = Some n" "dict_distinct e" for e :: "(int, nat) dict"
    using that
  proof (induction e)
    case (Cons p e)
    then show ?case by (cases p) (auto simp: map_of_eq_None_iff)
  qed simp
  with Some assms show ?thesis by (simp add: bump_def)
qed

lemma histogram_fold:
  assumes "dict_distinct d"
  shows "dict_distinct (fold (\<lambda>r. bump (utc_hour (ar_at r))) rs d)
    \<and> sum_list (map snd (fold (\<lambda>r. bump (utc_hour (ar_at r))) rs d)) = sum_list (map snd d) + length rs"
  using assms
proof (induction rs arbitrary: d)
  case (Cons r rs)
  from Cons.IH [OF bump_distinct [OF Cons.prems]] bump_total [OF Cons.prems] show ?case by simp
qed simp

lemma histogram_keys: "k \<in> set (keys (fold (\<lambda>r. bump (utc_hour (ar_at r))) rs d)) \<Longrightarrow>
    k \<in> set (keys d) \<or> (\<exists>r \<in> set rs. k = utc_hour (ar_at r))"
proof (induction rs arbitrary: d)
  case (Cons r rs)
  have keys: "set (keys (bump h d)) = insert h (set (keys d))" for h
    by (simp add: bump_def AList.dom_update)
  from Cons.prems have "k \<in> set (keys (bump (utc_hour (ar_at r)) d)) \<or> (\<exists>r \<in> set rs. k = utc_hour (ar_at r))"
    by (intro Cons.IH) simp
  then show ?case unfolding keys by auto
qed simp

lemma utc_hour_range: "0 \<le> utc_hour t \<and> utc_hour t < 24"
  by (simp add: utc_hour_def)

section \<open>Properties\<close>

text \<open>
  the report is ordered and means what it says: the median is at most the 95th percentile, which is at
  most the maximum; no observed concurrency exceeds the maximum; and more than the stated share of the
  samples lie at or below each percentile.
\<close>
theorem report_percentiles:
  assumes "starts rows \<noteq> []"
  defines "r \<equiv> concurrency_report_of rows" and "flights \<equiv> map ar_in_flight (starts rows)"
  shows "p50 r \<le> p95 r \<and> p95 r \<le> max_in_flight r \<and> list_all (\<lambda>x. x \<le> max_in_flight r) flights
    \<and> samples r = length flights
    \<and> samples r * 50 div 100 < length (filter (\<lambda>x. x \<le> p50 r) flights)
    \<and> min (samples r * 95 div 100) (samples r - 1) < length (filter (\<lambda>x. x \<le> p95 r) flights)"
proof -
  define rs where "rs = sort_key ar_in_flight (starts rows)"
  define xs where "xs = map ar_in_flight rs"
  let ?n = "length xs"
  have sorted: "sorted xs" by (simp add: xs_def rs_def)
  have m: "mset xs = mset flights" by (simp add: xs_def rs_def flights_def)
  then have len: "?n = length flights" and set: "set xs = set flights"
    by (metis size_mset, metis set_mset_mset)
  have "length rs = length (starts rows)" by (simp add: rs_def)
  with assms(1) have ne: "rs \<noteq> []" "0 < ?n" by (auto simp: xs_def)
  have filt: "length (filter P xs) = length (filter P flights)" for P
    using m by (metis mset_filter size_mset)
  have r: "samples r = ?n" "p50 r = xs ! (?n * 50 div 100)" "p95 r = xs ! min (?n * 95 div 100) (?n - 1)" "max_in_flight r = last xs"
    using ne by (simp_all add: r_def concurrency_report_of_def Let_def flip: rs_def xs_def)
  have "m * 50 div 100 \<le> m - 1" if "0 < m" for m :: nat
    using that div_mult_mult2 [of 50 m 2] by simp
  moreover have "?n * 50 div 100 \<le> ?n * 95 div 100" by (rule div_le_mono) simp
  ultimately have i: "?n * 50 div 100 \<le> min (?n * 95 div 100) (?n - 1)" "min (?n * 95 div 100) (?n - 1) < ?n"
    using ne(2) by (metis min.bounded_iff, metis diff_less min.strict_coboundedI2 zero_less_one)
  have last: "last xs = xs ! (?n - 1)" using ne by (simp add: last_conv_nth)
  have "x \<le> last xs" if "x \<in> set xs" for x
    using that sorted unfolding last by (auto simp: in_set_conv_nth intro!: sorted_nth_mono)
  moreover have "p50 r \<le> p95 r" unfolding r by (rule sorted_nth_mono [OF sorted i])
  moreover have "p95 r \<le> max_in_flight r" unfolding r last by (rule sorted_nth_mono [OF sorted]) (use ne in auto)
  ultimately show ?thesis
    using sorted_count_le [OF sorted le_less_trans [OF i]] sorted_count_le [OF sorted i(2)] i
    unfolding r filt [symmetric] by (simp add: list_all_iff len set)
qed

definition demo_arrival :: "int \<Rightarrow> arrival" where
  "demo_arrival k = \<lparr>ar_member = ''a'', ar_model = ''m'', ar_event = ''start'', ar_in_flight = k, ar_queue_depth = 0, ar_at = 3600\<rparr>"

theorem report_percentiles_witness:
  "p50 (concurrency_report_of (map demo_arrival [2, 1, 7])) \<le> p95 (concurrency_report_of (map demo_arrival [2, 1, 7]))"
  using report_percentiles [of "map demo_arrival [2, 1, 7]"] by (simp add: starts_def demo_arrival_def)

text \<open>
  The hourly histogram counts every start event exactly once, under an hour from 0 to 23, in order.
\<close>
theorem histogram_counts_starts:
  "sum_list (map snd (hourly_histogram rows)) = length (starts rows) \<and> dict_distinct (hourly_histogram rows)
   \<and> sorted (keys (hourly_histogram rows)) \<and> list_all (\<lambda>h. 0 \<le> h \<and> h < 24) (keys (hourly_histogram rows))"
proof -
  let ?d = "fold (\<lambda>r. bump (utc_hour (ar_at r))) (starts rows) []"
  have d: "dict_distinct ?d" "sum_list (map snd ?d) = length (starts rows)" using histogram_fold [of "[]" "starts rows"] by simp_all
  have "mset (map snd (sort_key fst ?d)) = mset (map snd ?d)" and keys: "mset (keys (sort_key fst ?d)) = mset (keys ?d)"
    by simp_all
  from this(1) have "sum_list (map snd (sort_key fst ?d)) = sum_list (map snd ?d)" by (metis sum_mset_sum_list)
  moreover from keys have "distinct (keys (sort_key fst ?d))" using d by (metis mset_eq_imp_distinct_iff)
  moreover have "set (keys (sort_key fst ?d)) = set (keys ?d)" by simp
  moreover have "0 \<le> h \<and> h < 24" if "h \<in> set (keys ?d)" for h
    using histogram_keys [OF that] utc_hour_range by auto
  ultimately show ?thesis using d by (simp add: hourly_histogram_def list_all_iff)
qed

end
