(* ===== verification/Numbers.thy ===== *)
theory Numbers
  imports Canonical Sanitise
begin

text \<open>
  \<open>int(s)\<close> and \<open>float(s)\<close> of Python for the code points a \<open>string\<close> holds, with the limit of 4300 digits and
  with correct rounding to a double: the engine specification, the parameters of a request, the command line
  and \<open>json.loads\<close> read numbers with them.
\<close>

section \<open>Digits\<close>

text \<open>\<open>sys.int_info.default_max_str_digits\<close>\<close>

definition MAX_STR_DIGITS :: nat where "MAX_STR_DIGITS = 4300"

text \<open>What the number parsers strip: not all of \<open>str.isspace\<close>.\<close>

definition num_space :: "char \<Rightarrow> bool" where
  "num_space c \<longleftrightarrow> (let n = of_char c :: nat in 9 \<le> n \<and> n \<le> 13 \<or> n = 32 \<or> n = 133 \<or> n = 160)"

definition num_strip :: "string \<Rightarrow> string" where
  "num_strip s = rev (dropWhile num_space (rev (dropWhile num_space s)))"

text \<open>Underscores are dropped; each has to stand between two digits.\<close>

fun ungroup :: "char \<Rightarrow> string \<Rightarrow> string option" where
  "ungroup prev [] = Some []"
| "ungroup prev (c # cs) =
     (if c = CHR ''_'' then
        (if is_digit prev \<and> cs \<noteq> [] \<and> is_digit (hd cs) then ungroup c cs else None)
      else map_option (Cons c) (ungroup c cs))"

definition sign_split :: "string \<Rightarrow> bool \<times> string" where
  "sign_split s =
     (case s of
        [] \<Rightarrow> (False, [])
      | c # cs \<Rightarrow> if c = CHR ''-'' then (True, cs) else if c = CHR ''+'' then (False, cs) else (False, s))"

definition with_sign :: "bool \<Rightarrow> int \<Rightarrow> int" where
  "with_sign neg n = (if neg then - n else n)"

definition int_of_str :: "string \<Rightarrow> int option" where
  "int_of_str s =
     (case ungroup CHR 0x00 (num_strip s) of
        None \<Rightarrow> None
      | Some u \<Rightarrow>
          (let (neg, ds) = sign_split u
           in if ds \<noteq> [] \<and> list_all is_digit ds \<and> length ds \<le> MAX_STR_DIGITS then Some (with_sign neg (int (read_nat ds))) else None))"

section \<open>Rounding to a double\<close>

fun bit_len :: "nat \<Rightarrow> nat" where
  "bit_len n = (if n = 0 then 0 else Suc (bit_len (n div 2)))"

declare bit_len.simps [simp del]

definition pow2 :: "int \<Rightarrow> rat" where
  "pow2 e = (if 0 \<le> e then 2 ^ nat e else 1 / 2 ^ nat (- e))"

text \<open>The exponent of the leading binary digit of a positive rational.\<close>

definition log2_floor :: "rat \<Rightarrow> int" where
  "log2_floor r =
     (let (p, q) = quotient_of r; k = int (bit_len (nat p)) - int (bit_len (nat q))
      in if pow2 k \<le> r then k else k - 1)"

definition half_even :: "rat \<Rightarrow> int" where
  "half_even r =
     (let n = \<lfloor>r\<rfloor>; d = r - of_int n
      in if d < 1 / 2 then n else if 1 / 2 < d then n + 1 else if even n then n else n + 1)"

text \<open>The exponent of the last place of a double near \<open>r\<close>, and the nearest double, ties to even.\<close>

definition ulp_exp :: "rat \<Rightarrow> int" where
  "ulp_exp r = max (log2_floor r - 52) (- 1074)"

definition to_double :: "rat \<Rightarrow> pynum" where
  "to_double r =
     (if r = 0 then Flt 0
      else (let e = ulp_exp \<bar>r\<bar>; v = of_int (half_even (\<bar>r\<bar> / pow2 e)) * pow2 e
            in if 2 ^ 1024 \<le> v then Inf (0 < r) else Flt (if 0 < r then v else - v)))"

section \<open>Floats\<close>

definition ascii_lower :: "char \<Rightarrow> char" where
  "ascii_lower c = (let n = of_char c :: nat in if 65 \<le> n \<and> n \<le> 90 then char_of (n + 32) else c)"

definition pow10 :: "int \<Rightarrow> rat" where
  "pow10 e = (if 0 \<le> e then 10 ^ nat e else 1 / 10 ^ nat (- e))"

text \<open>Integral digits, fractional digits and exponent.\<close>

definition decimal_value :: "string \<Rightarrow> string \<Rightarrow> int \<Rightarrow> rat" where
  "decimal_value ip fp ex = of_nat (read_nat (ip @ fp)) * pow10 (ex - int (length fp))"

text \<open>An exponent with at least one digit, and what follows; \<open>None\<close> where there is none.\<close>

definition scan_exponent :: "string \<Rightarrow> (int \<times> string) option" where
  "scan_exponent s =
     (case s of
        [] \<Rightarrow> None
      | c # cs \<Rightarrow>
          if c = CHR ''e'' \<or> c = CHR ''E'' then
            (let (neg, t) = sign_split cs; ds = takeWhile is_digit t
             in if ds = [] then None else Some (with_sign neg (int (read_nat ds)), dropWhile is_digit t))
          else None)"

definition scan_fraction :: "string \<Rightarrow> string \<times> string" where
  "scan_fraction s = (case s of c # cs \<Rightarrow> if c = CHR ''.'' then (takeWhile is_digit cs, dropWhile is_digit cs) else ([], s) | [] \<Rightarrow> ([], []))"

definition unsigned_float :: "string \<Rightarrow> rat option" where
  "unsigned_float s =
     (let ip = takeWhile is_digit s; (fp, t) = scan_fraction (dropWhile is_digit s)
      in if ip @ fp = [] then None
         else if t = [] then Some (decimal_value ip fp 0)
         else (case scan_exponent t of Some (ex, []) \<Rightarrow> Some (decimal_value ip fp ex) | _ \<Rightarrow> None))"

definition float_of_str :: "string \<Rightarrow> pynum option" where
  "float_of_str s =
     (case ungroup CHR 0x00 (num_strip s) of
        None \<Rightarrow> None
      | Some u \<Rightarrow>
          (let (neg, w) = sign_split u; name = map ascii_lower w
           in if name = ''inf'' \<or> name = ''infinity'' then Some (Inf (\<not> neg))
              else if name = ''nan'' then Some NaN
              else map_option (\<lambda>r. to_double (if neg then - r else r)) (unsigned_float w)))"

section \<open>Reading a printed int\<close>

text \<open>The ints that Python converts to text and back.\<close>

definition short_int :: "int \<Rightarrow> bool" where
  "short_int n \<longleftrightarrow> length (show_nat (nat \<bar>n\<bar>)) \<le> MAX_STR_DIGITS"

lemma show_nat_length: "n < 10 ^ Suc k \<Longrightarrow> length (show_nat n) \<le> Suc k"
proof (induction k arbitrary: n)
  case (Suc k)
  then have "n div 10 < 10 ^ Suc k" by (simp add: less_mult_imp_div_less mult.commute)
  with Suc.IH [of "n div 10"] show ?case by (simp add: show_nat.simps [of n])
qed (simp add: show_nat.simps)

lemma short_intI: "0 \<le> n \<Longrightarrow> n < 2 ^ 96 \<Longrightarrow> short_int n"
  using show_nat_length [of "nat n" 28] by (simp add: short_int_def MAX_STR_DIGITS_def nat_less_iff)

lemma dropWhile_none: "(\<And>c. c \<in> set s \<Longrightarrow> \<not> P c) \<Longrightarrow> dropWhile P s = s"
  by (cases s) simp_all

lemma num_strip_id: "(\<And>c. c \<in> set s \<Longrightarrow> \<not> num_space c) \<Longrightarrow> num_strip s = s"
  using dropWhile_none [of s num_space] dropWhile_none [of "rev s" num_space] by (simp add: num_strip_def)

lemma ungroup_id: "CHR ''_'' \<notin> set s \<Longrightarrow> ungroup c s = Some s"
  by (induction c s rule: ungroup.induct) auto

lemma show_int_clean: "c \<in> set (show_int n) \<Longrightarrow> \<not> num_space c" "CHR ''_'' \<notin> set (show_int n)"
proof -
  have "\<not> num_space c" if "is_digit c" for c using that by (auto simp: num_space_def is_digit_def Let_def)
  moreover have "\<not> num_space CHR ''-''" "\<not> is_digit CHR ''_''" by (simp_all add: num_space_def is_digit_def)
  ultimately show "c \<in> set (show_int n) \<Longrightarrow> \<not> num_space c" "CHR ''_'' \<notin> set (show_int n)"
    using show_int_chars by blast+
qed

lemma sign_split_digit: "is_digit (hd s) \<Longrightarrow> sign_split s = (False, s)"
  by (cases s) (auto simp: sign_split_def is_digit_def)

lemma sign_split_show_int: "sign_split (show_int n) = (n < 0, show_nat (nat \<bar>n\<bar>))"
  by (simp add: show_int_def sign_split_digit show_nat_hd) (simp add: sign_split_def)

lemma int_of_str_show: "short_int n \<Longrightarrow> int_of_str (show_int n) = Some n"
  using show_nat_digits [of _ "nat \<bar>n\<bar>"]
  by (simp add: int_of_str_def num_strip_id show_int_clean ungroup_id sign_split_show_int short_int_def
      show_nat_nonempty list_all_iff read_show_nat with_sign_def)

end
