(* ===== verification/Coordinator.thy ===== *)
theory Coordinator
  imports Auth Scheduler Measure Numbers
begin

text \<open>
  \<open>coordinator/relay.py\<close> and \<open>coordinator/app.py\<close>: relaying a peer's stream and the request handlers.
  A handler is a function from the decoded request body (\<open>None\<close> when it is not JSON) and the state to
  the response and the new state. The clocks are arguments: \<open>w\<close> is \<open>time.time()\<close>, \<open>t\<close> the monotonic
  clock. A handler that awaits is cut where it awaits: a lease request that has to queue and its
  completion, and the start, the events and the end of a relayed stream, are separate operations.
\<close>

section \<open>The relay\<close>

datatype relay_event = GotReceipt receipt | YieldLine wire_line | RelayCrash \<comment> \<open>the \<open>ValueError\<close> of an overlong line\<close>

datatype relay_error = PeerReturned int string | PeerUnreachable string

definition sniff_receipt :: "wire_line \<Rightarrow> receipt option" where
  "sniff_receipt l =
     (case l of
        Json (JObj d) \<Rightarrow>
          if obj_get d ''kind'' \<noteq> JStr KIND_RECEIPT then None
          else (case receipt_from_dict (JObj d) of Inl e \<Rightarrow> None | Inr r \<Rightarrow> Some r)
      | _ \<Rightarrow> None)"

definition relay_line :: "wire_line \<Rightarrow> relay_event list" where
  "relay_line l =
     (if l = Blank then []
      else (case sniff_receipt l of None \<Rightarrow> [] | Some r \<Rightarrow> [GotReceipt r]) @ [YieldLine l])"

text \<open>\<open>_sniff_receipt\<close> catches \<open>JSONDecodeError\<close> only, so an overlong line ends the loop.\<close>

fun relay_lines :: "wire_line list \<Rightarrow> relay_event list" where
  "relay_lines [] = []"
| "relay_lines (l # ls) = (if l = Overlong then [RelayCrash] else relay_line l @ relay_lines ls)"

text \<open>The callbacks and lines of \<open>relay_to_peer\<close> in order, and the \<open>RelayError\<close> that ends it.\<close>

definition relay_to_peer :: "peer_answer \<Rightarrow> relay_event list \<times> relay_error option" where
  "relay_to_peer ans =
     (case ans of
        Unreachable e \<Rightarrow> ([], Some (PeerUnreachable e))
      | HttpStatus code detail \<Rightarrow> ([], Some (PeerReturned code (take 400 detail)))
      | PeerStream lines broken \<Rightarrow>
          (relay_lines lines, if Overlong \<in> set lines then None else map_option PeerUnreachable broken))"

section \<open>State and responses\<close>

record coordinator =
  sched :: scheduler
  nonces :: nonce_cache
  concurrency :: "arrival list"

abbreviation roster_of :: "coordinator \<Rightarrow> roster" where
  "roster_of c \<equiv> reg_roster (reg (sched c))"

definition new_coordinator :: "roster \<Rightarrow> (nat \<Rightarrow> string) \<Rightarrow> coordinator" where
  "new_coordinator ro toks = \<lparr>sched = new_scheduler (new_registry ro) toks, nonces = new_cache, concurrency = []\<rparr>"

datatype response =
    ErrorReply nat string
  | Health string int
  | RosterDoc json
  | Stats "peer_view list" nat nat totals "(string, rat) dict"
  | Concurrency concurrency_report "(int, nat) dict" verdict_kind
  | BeatReply string string
  | LeaseReply json
  | Queued nat
  | Streaming envelope lease
  | ServerError crash \<comment> \<open>an exception no handler catches: 500\<close>
  | InfiniteClaim \<comment> \<open>an infinity from a peer without declared capacity: not modelled further\<close>

definition put_reg :: "registry \<Rightarrow> coordinator \<Rightarrow> coordinator" where
  "put_reg r c = c\<lparr>sched := (sched c)\<lparr>reg := r\<rparr>\<rparr>"

text \<open>\<open>observe\<close> sums the slots taken over the roster's peers, with the entries \<open>state\<close> makes up.\<close>

definition touch_all :: "string list \<Rightarrow> registry \<Rightarrow> registry" where
  "touch_all pids r = fold (\<lambda>pid r. snd (state_of pid r)) pids r"

definition observe :: "rat \<Rightarrow> string \<Rightarrow> string \<Rightarrow> string \<Rightarrow> coordinator \<Rightarrow> coordinator" where
  "observe w event mid m c =
     (let pids = keys (peers (roster_of c));
          r = touch_all pids (reg (sched c));
          row = \<lparr>ar_member = mid, ar_model = m, ar_event = event,
             ar_in_flight = sum_list (map (load r) pids), ar_queue_depth = int (queue_depth (sched c)), ar_at = w\<rparr>
      in (put_reg r c)\<lparr>concurrency := record_event row (concurrency c)\<rparr>)"

section \<open>Reads\<close>

definition health :: "coordinator \<Rightarrow> response" where
  "health c = Health (federation_id (roster_of c)) (roster_version (roster_of c))"

text \<open>\<open>except (AuthError, ValueError)\<close>: 401; another exception is a 500.\<close>

definition refuse :: "auth_error \<Rightarrow> response" where
  "refuse e =
     (case e of
        AuthError r \<Rightarrow> ErrorReply 401 ''unauthorized''
      | AuthEscape (ValueError v) \<Rightarrow> ErrorReply 401 ''unauthorized''
      | AuthEscape x \<Rightarrow> ServerError x)"

text \<open>The signature check every handler but \<open>health\<close> and \<open>infer\<close> starts with.\<close>

definition signed :: "crypto \<Rightarrow> rat \<Rightarrow> json option \<Rightarrow> coordinator
    \<Rightarrow> (string \<Rightarrow> (string \<times> json) list \<Rightarrow> coordinator \<Rightarrow> response \<times> coordinator) \<Rightarrow> response \<times> coordinator" where
  "signed K w rq c handler =
     (case rq of
        None \<Rightarrow> (ErrorReply 401 ''unauthorized'', c)
      | Some doc \<Rightarrow>
          (case verify_signed_request K w (roster_of c) doc (nonces c) of
             (Inl e, n) \<Rightarrow> (refuse e, c\<lparr>nonces := n\<rparr>)
           | (Inr (mid, body), n) \<Rightarrow> handler mid body (c\<lparr>nonces := n\<rparr>)))"

definition get_roster :: "crypto \<Rightarrow> rat \<Rightarrow> json option \<Rightarrow> coordinator \<Rightarrow> response \<times> coordinator" where
  "get_roster K w rq c = signed K w rq c (\<lambda>mid body c. (RosterDoc (roster_to_dict (roster_of c)), c))"

definition stats :: "crypto \<Rightarrow> rat \<Rightarrow> rat \<Rightarrow> json option \<Rightarrow> coordinator \<Rightarrow> response \<times> coordinator" where
  "stats K w t rq c = signed K w rq c (\<lambda>mid body c.
     let (rows, r) = snapshot t (reg (sched c)); c1 = put_reg r c
     in (case rbind (sql_totals (reg_ledger r)) (\<lambda>tot.
              rbind (sql_fair_share (reg_ledger r) (keys (members (roster_of c1)))) (\<lambda>fs. Inr (tot, fs))) of
           Inl e \<Rightarrow> (ServerError OperationalError, c1)
         | Inr (tot, fs) \<Rightarrow> (Stats rows (queue_depth (sched c1)) (active_leases (sched c1)) tot fs, c1)))"

definition concurrency_stats :: "crypto \<Rightarrow> rat \<Rightarrow> json option \<Rightarrow> coordinator \<Rightarrow> response \<times> coordinator" where
  "concurrency_stats K w rq c = signed K w rq c (\<lambda>mid body c.
     let rep = concurrency_report_of (concurrency c)
     in (Concurrency (rounded_report rep) (hourly_histogram (concurrency c)) (report_verdict rep), c))"

section \<open>Heartbeats\<close>

text \<open>
  \<open>float(body.get("resident_gb", 0.0))\<close>; \<open>None\<close> is the infinity
  that nothing caps; NaN and the negative infinity end as 0 in both uses.
\<close>

fun num_gb :: "peer \<Rightarrow> pynum \<Rightarrow> crash + rat option" where
  "num_gb p (IntN n) = (if float_overflows n then Inl OverflowError else Inr (Some (of_int n)))"
| "num_gb p (Flt q) = Inr (Some q)"
| "num_gb p (Inf True) =
     (if 0 < p_capacity_gb p then Inr (Some (p_capacity_gb p + total_gb (p_contributors p))) else Inr None)"
| "num_gb p (Inf False) = Inr (Some 0)"
| "num_gb p NaN = Inr (Some 0)"

definition to_gb :: "peer \<Rightarrow> json \<Rightarrow> crash + rat option" where
  "to_gb p v =
     (case v of
        JNum x \<Rightarrow> num_gb p x
      | JBool b \<Rightarrow> Inr (Some (if b then 1 else 0))
      | JStr s \<Rightarrow> (case float_of_str s of None \<Rightarrow> Inl (ValueError BadFloat) | Some x \<Rightarrow> num_gb p x)
      | JNull \<Rightarrow> Inl TypeError
      | JList xs \<Rightarrow> Inl TypeError
      | JObj d \<Rightarrow> Inl TypeError)"

definition heartbeat_body :: "rat \<Rightarrow> rat \<Rightarrow> string \<Rightarrow> (string \<times> json) list \<Rightarrow> coordinator
    \<Rightarrow> response \<times> coordinator" where
  "heartbeat_body t t' mid body c =
     (case as_str (obj_get body ''peer_id'') of
        None \<Rightarrow> (ErrorReply 400 ''bad_request'', c)
      | Some pid \<Rightarrow>
          (case roster_peer (roster_of c) pid of
             Inl e \<Rightarrow> (ErrorReply 404 ''unknown_peer'', c)
           | Inr p \<Rightarrow>
               if p_owner p \<noteq> mid \<and> mid \<notin> con_member ` set (p_contributors p) then (ErrorReply 403 ''forbidden'', c)
               else (case to_gb p (obj_get_or body ''resident_gb'' (JNum (Flt 0))) of
                   Inl x \<Rightarrow> (ServerError x, c)
                 | Inr None \<Rightarrow> (InfiniteClaim, c)
                 | Inr (Some gb) \<Rightarrow>
                     if p_owner p = mid then
                       (case heartbeat t t' pid gb (truthy (obj_get_or body ''healthy'' (JBool True)))
                               (obj_get_or body ''detail'' (JStr [])) (reg (sched c)) of
                          Inl e \<Rightarrow> (ServerError AttributeError, c)
                        | Inr r \<Rightarrow> (BeatReply pid ''owner'', put_reg r c))
                     else
                       (case attest t pid mid gb (reg (sched c)) of
                          Inl e \<Rightarrow> (ServerError AttributeError, c)
                        | Inr r \<Rightarrow> (BeatReply pid ''contributor'', put_reg r c)))))"

definition heartbeat_handler :: "crypto \<Rightarrow> rat \<Rightarrow> rat \<Rightarrow> rat \<Rightarrow> json option \<Rightarrow> coordinator
    \<Rightarrow> response \<times> coordinator" where
  "heartbeat_handler K w t t' rq c = signed K w rq c (heartbeat_body t t')"

section \<open>Leases\<close>

definition put_sched :: "scheduler \<Rightarrow> coordinator \<Rightarrow> coordinator" where
  "put_sched s c = c\<lparr>sched := s\<rparr>"

definition lease_body :: "rat \<Rightarrow> rat \<Rightarrow> string \<Rightarrow> (string \<times> json) list \<Rightarrow> coordinator \<Rightarrow> response \<times> coordinator" where
  "lease_body w t mid body c =
     (case nonempty_str (obj_get body ''model'') of
        None \<Rightarrow> (ErrorReply 400 ''bad_request'', c)
      | Some m \<Rightarrow>
          (let s1 = snd (expire_stale t (sched c)) in
           case acquire t mid m s1 of
             (Inl NoCapacity, s2) \<Rightarrow> (ErrorReply 503 ''no_capacity'', put_sched s2 c)
           | (Inl BalanceOverflow, s2) \<Rightarrow> (ServerError OperationalError, put_sched s2 c)
           | (Inl e, s2) \<Rightarrow> (ErrorReply 429 ''queue_full'', put_sched s2 c)
           | (Inr (Leased l), s2) \<Rightarrow> (LeaseReply (lease_to_dict l), observe w ''lease'' mid m (put_sched s2 c))
           | (Inr (Waiting n), s2) \<Rightarrow> (Queued n, put_sched s2 c)))"

definition lease_handler :: "crypto \<Rightarrow> rat \<Rightarrow> rat \<Rightarrow> json option \<Rightarrow> coordinator \<Rightarrow> response \<times> coordinator" where
  "lease_handler K w t rq c = signed K w rq c (lease_body w t)"

text \<open>The waiting task wakes: its future was granted, or the wait was given up.\<close>

definition lease_resume :: "rat \<Rightarrow> nat \<Rightarrow> string \<Rightarrow> string \<Rightarrow> coordinator \<Rightarrow> response \<times> coordinator" where
  "lease_resume w n mid m c =
     (case future_of n (sched c) of
        Granted l \<Rightarrow> (LeaseReply (lease_to_dict l), observe w ''lease'' mid m c)
      | _ \<Rightarrow> (Queued n, c))"

definition lease_timeout :: "nat \<Rightarrow> coordinator \<Rightarrow> response \<times> coordinator" where
  "lease_timeout n c = (ErrorReply 429 ''queue_full'', put_sched (drop_waiter n (cancel_wait n (sched c))) c)"

section \<open>Inference\<close>

definition infer_begin :: "crypto \<Rightarrow> rat \<Rightarrow> rat \<Rightarrow> json option \<Rightarrow> coordinator \<Rightarrow> response \<times> coordinator" where
  "infer_begin K w t rq c =
     (case rq of
        None \<Rightarrow> (ErrorReply 400 ''bad_envelope'', c)
      | Some doc \<Rightarrow>
          (case envelope_from_dict doc of
             Inl e \<Rightarrow> (ErrorReply 400 ''bad_envelope'', c)
           | Inr env \<Rightarrow>
               (case roster_member (roster_of c) (sender env) of
                  Inl e \<Rightarrow> (ErrorReply 401 ''unauthorized'', c)
                | Inr m \<Rightarrow>
                    (case unb64 (m_sign_pub m) of
                       Inl v \<Rightarrow> (ServerError (ValueError v), c)
                     | Inr key \<Rightarrow>
                         (case verify_envelope K env key of
                            Inl e \<Rightarrow> (ErrorReply 401 ''unauthorized'', c)
                          | Inr u \<Rightarrow>
                              (case check_fresh (ts env) w DEFAULT_MAX_AGE of
                                 Inl FloatOverflow \<Rightarrow> (ServerError OverflowError, c)
                               | Inl e \<Rightarrow> (ErrorReply 401 ''unauthorized'', c)
                               | Inr u \<Rightarrow>
                                   (case redeem t (request_id env) (sender env) (sched c) of
                                      (Inl e, s1) \<Rightarrow> (ErrorReply 409 ''no_lease'', put_sched s1 c)
                                    | (Inr l, s1) \<Rightarrow>
                                        (Streaming env l,
                                         observe w ''start'' (sender env) (p_model (l_peer l)) (put_sched s1 c)))))))))"

definition or_else :: "json \<Rightarrow> json \<Rightarrow> json" where
  "or_else a b = (if truthy a then a else b)"

definition consumption_of :: "envelope \<Rightarrow> lease \<Rightarrow> receipt \<Rightarrow> consumption_row" where
  "consumption_of env l r =
     \<lparr>co_member = sender env, co_request = request_id env, co_peer = p_id (l_peer l),
      co_prompt = prompt_tokens r, co_completion = completion_tokens r,
      co_engine = or_else (r_engine r) (p_engine (l_peer l)),
      co_engine_version = or_else (r_engine_version r) (p_engine_version (l_peer l)),
      co_hw_class = or_else (r_hw_class r) (p_hw_class (l_peer l))\<rparr>"

datatype stream_item = Line wire_line | ErrorFrame string string

text \<open>
  The body of \<open>stream()\<close> over the relay's events: a receipt is metered, and a row SQLite cannot bind raises
  through the stream, as does an overlong line. \<open>True\<close> says the events were all consumed.
\<close>

fun stream_events :: "envelope \<Rightarrow> lease \<Rightarrow> relay_event list \<Rightarrow> coordinator \<Rightarrow> stream_item list \<times> bool \<times> coordinator" where
  "stream_events env l [] c = ([], True, c)"
| "stream_events env l (YieldLine x # evs) c =
     (let (items, ok, c') = stream_events env l evs c in (Line x # items, ok, c'))"
| "stream_events env l (RelayCrash # evs) c = ([], False, c)"
| "stream_events env l (GotReceipt r # evs) c =
     (let row = consumption_of env l r in
      if sql_error row then ([], False, c)
      else stream_events env l evs
        (put_reg ((reg (sched c))\<lparr>reg_ledger := record_consumption row (reg_ledger (reg (sched c)))\<rparr>) c))"

definition relay_message :: "string \<Rightarrow> relay_error \<Rightarrow> string" where
  "relay_message endpoint e =
     (case e of
        PeerReturned code detail \<Rightarrow> ''peer returned '' @ show_int code @ '': '' @ detail
      | PeerUnreachable detail \<Rightarrow> ''peer unreachable at '' @ endpoint @ '': '' @ detail)"

text \<open>The \<open>except RelayError\<close> and the \<open>finally\<close> of the generator.\<close>

definition stream_fail :: "lease \<Rightarrow> coordinator \<Rightarrow> coordinator" where
  "stream_fail l c = put_reg (mark_failure (p_id (l_peer l)) (reg (sched c))) c"

definition stream_end :: "rat \<Rightarrow> rat \<Rightarrow> envelope \<Rightarrow> lease \<Rightarrow> coordinator \<Rightarrow> coordinator" where
  "stream_end w t env l c =
     observe w ''end'' (sender env) (p_model (l_peer l)) (put_sched (release t (request_id env) (sched c)) c)"

text \<open>
  The whole generator: the client may stop reading after \<open>n\<close> events, which skips the rest but not the
  \<open>finally\<close>; a relay error marks the peer and ends the stream with a sanitised error frame.
\<close>

definition infer_stream :: "rat \<Rightarrow> rat \<Rightarrow> envelope \<Rightarrow> lease \<Rightarrow> peer_answer \<Rightarrow> nat option \<Rightarrow> coordinator
    \<Rightarrow> stream_item list \<times> coordinator" where
  "infer_stream w t env l ans stop c =
     (let (evs, err) = relay_to_peer ans;
          evs1 = (case stop of None \<Rightarrow> evs | Some n \<Rightarrow> take n evs);
          (items, ok, c1) = stream_events env l evs1 c;
          (items2, c2) =
            (case (stop, ok, err) of
               (None, True, Some e) \<Rightarrow>
                 (items @ [ErrorFrame (request_id env) (sanitise_message (JStr (relay_message (p_endpoint (l_peer l)) e)))], stream_fail l c1)
             | _ \<Rightarrow> (items, c1))
      in (items2, stream_end w t env l c2))"

section \<open>What each helper leaves alone\<close>

lemma put_simps [simp]:
  "sched (put_reg r c) = (sched c)\<lparr>reg := r\<rparr>" "sched (put_sched s c) = s"
  "nonces (put_reg r c) = nonces c" "concurrency (put_reg r c) = concurrency c"
  "nonces (put_sched s c) = nonces c" "concurrency (put_sched s c) = concurrency c"
  by (simp_all add: put_reg_def put_sched_def)

lemma touch_all_frame [simp]:
  "reg_roster (touch_all pids r) = reg_roster r" "reg_ledger (touch_all pids r) = reg_ledger r"
  "load (touch_all pids r) k = load r k"
  by (induction pids arbitrary: r) (simp_all add: touch_all_def)

lemma touch_all_ok: "registry_ok r \<Longrightarrow> registry_ok (touch_all pids r)"
  by (induction pids arbitrary: r) (simp_all add: touch_all_def registry_ok_state_of)

lemma observe_frame [simp]:
  "nonces (observe w e m md c) = nonces c" "leases (sched (observe w e m md c)) = leases (sched c)"
  "redeemed (sched (observe w e m md c)) = redeemed (sched c)" "tokens (sched (observe w e m md c)) = tokens (sched c)"
  "next_token (sched (observe w e m md c)) = next_token (sched c)" "waiters (sched (observe w e m md c)) = waiters (sched c)"
  "reg_roster (reg (sched (observe w e m md c))) = roster_of c"
  "reg_ledger (reg (sched (observe w e m md c))) = reg_ledger (reg (sched c))"
  by (simp_all add: observe_def Let_def)

text \<open>A new registry that keeps the roster and the loads keeps the scheduler's invariant.\<close>

lemma sched_ok_reg:
  assumes "sched_ok s" "registry_ok r" "reg_roster r = reg_roster (reg s)" "\<And>k. load r k = load (reg s) k"
  shows "sched_ok (s\<lparr>reg := r\<rparr>)"
proof -
  have "slots.held r ks = slots.held (reg s) ks" for ks using assms(4) by (rule slots.held_cong)
  with assms show ?thesis by (simp add: sched_ok_def leases_ok_def lease_ok_def queue_ok_def)
qed

lemma sched_registry_ok: "sched_ok s \<Longrightarrow> registry_ok (reg s)"
  by (simp add: sched_ok_def leases_ok_def)

definition coord_ok :: "coordinator \<Rightarrow> bool" where
  "coord_ok c \<longleftrightarrow> sched_ok (sched c)"

lemma coord_ok_put_sched [simp]: "coord_ok (put_sched s c) = sched_ok s"
  by (simp add: coord_ok_def)

lemma coord_ok_nonces [simp]: "coord_ok (c\<lparr>nonces := n\<rparr>) = coord_ok c"
  by (simp add: coord_ok_def)

lemma coord_ok_put_reg:
  assumes "coord_ok c" "registry_ok r" "reg_roster r = roster_of c" "\<And>k. load r k = load (reg (sched c)) k"
  shows "coord_ok (put_reg r c)"
  using sched_ok_reg assms by (simp add: coord_ok_def)

lemma coord_ok_observe [intro]: "coord_ok c \<Longrightarrow> coord_ok (observe w e m md c)"
  using coord_ok_put_reg [of c "touch_all (keys (peers (roster_of c))) (reg (sched c))"]
  by (simp add: observe_def Let_def coord_ok_def touch_all_ok sched_registry_ok)

lemma coord_ok_step: "coord_ok c \<Longrightarrow> no_slot_op a \<Longrightarrow> coord_ok (put_reg (registry_step a (reg (sched c))) c)"
  using registry_step_frame by (intro coord_ok_put_reg) (auto simp: coord_ok_def intro: registry_step_ok sched_registry_ok)

lemma signed_ok:
  assumes "coord_ok c" "\<And>mid body c'. coord_ok c' \<Longrightarrow> coord_ok (snd (handler mid body c'))"
  shows "coord_ok (snd (signed K w rq c handler))"
  using assms by (auto simp: signed_def split: option.splits sum.splits prod.splits)

lemma snapshot_frame:
  "registry_ok r \<Longrightarrow> registry_ok (snd (snapshot_rows t ps r)) \<and> reg_roster (snd (snapshot_rows t ps r)) = reg_roster r
     \<and> (\<forall>k. load (snd (snapshot_rows t ps r)) k = load r k)"
proof (induction ps arbitrary: r)
  case (Cons p ps)
  have "snd (peer_row t p r) = snd (state_of (p_id p) r)" by (simp add: peer_row_def case_prod_unfold Let_def)
  with Cons.IH [of "snd (peer_row t p r)"] registry_ok_state_of [OF Cons.prems] show ?case
    by (simp add: case_prod_unfold Let_def)
qed simp

lemma stats_ok: "coord_ok c \<Longrightarrow> coord_ok (snd (stats K w t rq c))"
  unfolding stats_def
proof (rule signed_ok)
  fix mid body c' assume ok: "coord_ok c'"
  have "coord_ok (put_reg (snd (snapshot t (reg (sched c')))) c')"
    using snapshot_frame [of "reg (sched c')"] ok
    by (intro coord_ok_put_reg) (auto simp: snapshot_def coord_ok_def sched_registry_ok)
  then show "coord_ok (snd (let (rows, r) = snapshot t (reg (sched c')); c1 = put_reg r c'
     in (case rbind (sql_totals (reg_ledger r)) (\<lambda>tot.
              rbind (sql_fair_share (reg_ledger r) (keys (members (roster_of c1)))) (\<lambda>fs. Inr (tot, fs))) of
           Inl e \<Rightarrow> (ServerError OperationalError, c1)
         | Inr (tot, fs) \<Rightarrow> (Stats rows (queue_depth (sched c1)) (active_leases (sched c1)) tot fs, c1))))"
    by (simp add: case_prod_unfold Let_def split: sum.split)
qed

lemma heartbeat_body_cases:
  obtains (same) "snd (heartbeat_body t t' mid body c) = c"
  | (beat) pid p gb up det r where "obj_get body ''peer_id'' = JStr pid" "map_of (peers (roster_of c)) pid = Some p" "p_owner p = mid"
      "heartbeat t t' pid gb up det (reg (sched c)) = Inr r" "heartbeat_body t t' mid body c = (BeatReply pid ''owner'', put_reg r c)"
  | (attest) pid gb r where "obj_get body ''peer_id'' = JStr pid" "attest t pid mid gb (reg (sched c)) = Inr r"
      "heartbeat_body t t' mid body c = (BeatReply pid ''contributor'', put_reg r c)"
proof (cases "as_str (obj_get body ''peer_id'')")
  case None
  then show ?thesis by (intro same) (simp add: heartbeat_body_def)
next
  case (Some pid)
  then have pid: "obj_get body ''peer_id'' = JStr pid" by simp
  show ?thesis
  proof (cases "map_of (peers (roster_of c)) pid")
    case None
    with Some show ?thesis by (intro same) (simp add: heartbeat_body_def roster_peer_def)
  next
    case (Some p)
    let ?gb = "to_gb p (obj_get_or body ''resident_gb'' (JNum (Flt 0)))"
    note eq = heartbeat_body_def [of t t' mid body c, unfolded pid as_str.simps option.case roster_peer_known [OF Some] sum.case]
    have "(\<exists>x. ?gb = Inl x) \<or> ?gb = Inr None \<or> (\<exists>gb. ?gb = Inr (Some gb))" by (metis sum.exhaust option.exhaust)
    then consider (no) "p_owner p \<noteq> mid \<and> mid \<notin> con_member ` set (p_contributors p)"
      | (bad) x where "?gb = Inl x" | (inf) "?gb = Inr None"
      | (gb) gb where "?gb = Inr (Some gb)" "\<not> (p_owner p \<noteq> mid \<and> mid \<notin> con_member ` set (p_contributors p))"
      by blast
    then show ?thesis
    proof cases
      case no
      then show ?thesis by (intro same) (simp add: eq)
    next
      case bad
      then show ?thesis by (intro same) (simp add: eq)
    next
      case inf
      then show ?thesis by (intro same) (simp add: eq)
    next
      case (gb gb)
      let ?beat = "heartbeat t t' pid gb (truthy (obj_get_or body ''healthy'' (JBool True))) (obj_get_or body ''detail'' (JStr [])) (reg (sched c))"
      show ?thesis
      proof (cases "p_owner p = mid")
        case True
        show ?thesis
        proof (cases ?beat)
          case (Inl e)
          with gb True show ?thesis by (intro same) (simp add: eq)
        next
          case (Inr r)
          with gb True show ?thesis by (intro beat [OF pid Some True Inr]) (simp add: eq)
        qed
      next
        case False
        show ?thesis
        proof (cases "attest t pid mid gb (reg (sched c))")
          case (Inl e)
          with gb False show ?thesis by (intro same) (simp add: eq)
        next
          case (Inr r)
          with gb False show ?thesis by (intro attest [OF pid Inr]) (simp add: eq)
        qed
      qed
    qed
  qed
qed

lemma heartbeat_body_ok: assumes "coord_ok c" shows "coord_ok (snd (heartbeat_body t t' mid body c))"
proof (cases rule: heartbeat_body_cases [where t = t and t' = t' and mid = mid and body = body and c = c])
  case same
  with assms show ?thesis by simp
next
  case (beat pid p gb up det r)
  from coord_ok_step [OF assms, of "Beat t t' pid gb up det"] beat show ?thesis by (simp add: keep_def)
next
  case (attest pid gb r)
  from coord_ok_step [OF assms, of "Attest t pid mid gb"] attest show ?thesis by (simp add: keep_def)
qed

lemma lease_body_ok: "coord_ok c \<Longrightarrow> coord_ok (snd (lease_body w t mid body c))"
proof -
  assume ok: "coord_ok c"
  have "sched_ok (snd (acquire t mid m (snd (expire_stale t (sched c)))))" for m
    using ok by (intro acquire_ok expire_ok) (simp add: coord_ok_def)
  then have "coord_ok (put_sched s2 c)" if "acquire t mid m (snd (expire_stale t (sched c))) = (res, s2)" for m res s2
    using that by (metis coord_ok_put_sched snd_conv)
  with ok coord_ok_observe show ?thesis
    by (auto simp: lease_body_def Let_def split: option.splits prod.splits sum.splits sched_error.splits acquired.splits)
qed

lemma infer_begin_ok: "coord_ok c \<Longrightarrow> coord_ok (snd (infer_begin K w t rq c))"
proof -
  assume ok: "coord_ok c"
  have "coord_ok (put_sched s1 c)" if "redeem t rid mid (sched c) = (res, s1)" for rid mid res s1
    using that redeem_ok [of "sched c" t rid mid] ok by (simp add: coord_ok_def)
  with ok coord_ok_observe show ?thesis
    by (auto simp: infer_begin_def split: option.splits prod.splits sum.splits replay_error.splits)
qed

lemma stream_events_ok: "coord_ok c \<Longrightarrow> coord_ok (snd (snd (stream_events env l evs c)))"
proof (induction env l evs c rule: stream_events.induct)
  case (4 env l r evs c)
  then show ?case
    using coord_ok_step [of c "Consume (consumption_of env l r)"] by (simp add: Let_def)
qed (auto simp: case_prod_unfold Let_def)

lemma stream_fail_ok: "coord_ok c \<Longrightarrow> coord_ok (stream_fail l c)"
  using coord_ok_step [of c "Failure (p_id (l_peer l))"] by (simp add: stream_fail_def)

lemma stream_end_ok: "coord_ok c \<Longrightarrow> coord_ok (stream_end w t env l c)"
  unfolding stream_end_def by (rule coord_ok_observe) (simp add: coord_ok_def release_ok)

section \<open>Reachable coordinators\<close>

text \<open>
  One atomic step of the process between two awaits. The events of the relayed streams interleave
  freely with the other requests.
\<close>

inductive coord_step :: "crypto \<Rightarrow> coordinator \<Rightarrow> coordinator \<Rightarrow> bool" for K where
  Roster: "coord_step K c (snd (get_roster K w rq c))"
| Stats: "coord_step K c (snd (stats K w t rq c))"
| Concurrency: "coord_step K c (snd (concurrency_stats K w rq c))"
| Heartbeat: "coord_step K c (snd (heartbeat_handler K w t t' rq c))"
| Lease: "coord_step K c (snd (lease_handler K w t rq c))"
| Resume: "coord_step K c (snd (lease_resume w n mid m c))"
| GiveUp: "coord_step K c (snd (lease_timeout n c))"
| Infer: "coord_step K c (snd (infer_begin K w t rq c))"
| Event: "coord_step K c (snd (snd (stream_events env l [ev] c)))"
| Fail: "coord_step K c (stream_fail l c)"
| End: "coord_step K c (stream_end w t env l c)"

inductive reachable :: "crypto \<Rightarrow> coordinator \<Rightarrow> bool" for K where
  init: "roster_ok ro \<Longrightarrow> inj toks \<Longrightarrow> reachable K (new_coordinator ro toks)"
| step: "reachable K c \<Longrightarrow> coord_step K c c' \<Longrightarrow> reachable K c'"

inductive_cases coord_stepE: "coord_step K c c'"

lemma coord_step_ok: "coord_step K c c' \<Longrightarrow> coord_ok c \<Longrightarrow> coord_ok c'"
proof (induction rule: coord_step.induct)
  case (GiveUp c n)
  then show ?case
    using sched_step_ok [of "cancel_wait n (sched c)" "DropWaiter n"] sched_step_ok [of "sched c" "CancelWait n"]
    by (simp add: lease_timeout_def coord_ok_def)
next
  case (Resume c w n mid m)
  then show ?case by (auto simp: lease_resume_def split: future.splits)
qed (auto simp: get_roster_def concurrency_stats_def heartbeat_handler_def lease_handler_def Let_def
    intro: signed_ok stats_ok heartbeat_body_ok lease_body_ok infer_begin_ok stream_events_ok stream_fail_ok stream_end_ok)

section \<open>What a step does to the scheduler\<close>

text \<open>
  Every step of the coordinator is a run of scheduler operations. All are calm about how peers are routed to, except a
  beat, which only a heartbeat the peer's owner signed brings, and the failure of a relay to the peer.
\<close>

fun calm :: "sched_op \<Rightarrow> bool" where
  "calm (RegistryOp (Beat now now' pid gb up det)) = False"
| "calm (RegistryOp (Failure pid)) = False"
| "calm _ = True"

definition calm_run :: "scheduler \<Rightarrow> scheduler \<Rightarrow> bool" where
  "calm_run s s' \<longleftrightarrow> (\<exists>ops. s' = fold sched_step ops s \<and> list_all calm ops)"

definition owner_beat :: "crypto \<Rightarrow> coordinator \<Rightarrow> string \<Rightarrow> coordinator \<Rightarrow> bool" where
  "owner_beat K c pid c' \<longleftrightarrow> (\<exists>w t t' doc mid body p. heartbeat_handler K w t t' (Some doc) c = (BeatReply pid ''owner'', c')
     \<and> fst (verify_signed_request K w (roster_of c) doc (nonces c)) = Inr (mid, body)
     \<and> obj_get body ''peer_id'' = JStr pid \<and> map_of (peers (roster_of c)) pid = Some p \<and> p_owner p = mid)"

definition relay_failure :: "coordinator \<Rightarrow> string \<Rightarrow> coordinator \<Rightarrow> bool" where
  "relay_failure c pid c' \<longleftrightarrow> (\<exists>l. c' = stream_fail l c \<and> p_id (l_peer l) = pid)"

lemma calm_run_refl [simp]: "calm_run s s"
  unfolding calm_run_def by (rule exI [of _ "[]"]) simp

lemma calm_run_step: "calm a \<Longrightarrow> calm_run s (sched_step a s)"
  unfolding calm_run_def by (rule exI [of _ "[a]"]) simp

lemma calm_run_trans: "calm_run s t \<Longrightarrow> calm_run t u \<Longrightarrow> calm_run s u"
  unfolding calm_run_def by (metis comp_apply fold_append list_all_append)

lemma calm_run_touch: "calm_run s (s\<lparr>reg := touch_all pids (reg s)\<rparr>)"
proof (induction pids arbitrary: s)
  case (Cons pid pids)
  from calm_run_trans [OF calm_run_step [of "RegistryOp (ReadState pid)" s] Cons.IH [of "sched_step (RegistryOp (ReadState pid)) s"]]
  show ?case by (simp add: touch_all_def)
qed (simp add: touch_all_def)

lemma snapshot_reads: "snd (snapshot t r) = touch_all (map p_id (map snd (peers (reg_roster r)))) r"
proof -
  have "snd (snapshot_rows t ps r) = touch_all (map p_id ps) r" for ps r
    by (induction ps arbitrary: r) (simp_all add: touch_all_def peer_row_def case_prod_unfold Let_def)
  then show ?thesis by (simp add: snapshot_def)
qed

lemma calm_run_observe: "calm_run s (sched c) \<Longrightarrow> calm_run s (sched (observe w e m md c))"
  by (simp add: observe_def Let_def calm_run_trans [OF _ calm_run_touch])

lemma calm_run_signed:
  assumes "\<And>mid body c'. calm_run (sched c') (sched (snd (handler mid body c')))"
  shows "calm_run (sched c) (sched (snd (signed K w rq c handler)))"
proof -
  have "calm_run (sched c) (sched (snd (handler mid body (c\<lparr>nonces := n\<rparr>))))" for mid body n
    using assms [of "c\<lparr>nonces := n\<rparr>"] by simp
  then show ?thesis by (auto simp: signed_def split: option.splits sum.splits prod.splits)
qed

lemma stats_calm: "calm_run (sched c) (sched (snd (stats K w t rq c)))"
  unfolding stats_def
  by (rule calm_run_signed) (simp add: case_prod_unfold Let_def snapshot_reads calm_run_touch split: sum.split)

lemma lease_body_calm: "calm_run (sched c) (sched (snd (lease_body w t mid body c)))"
proof -
  have "calm_run (sched c) (snd (acquire t mid m (snd (expire_stale t (sched c)))))" for m
    using calm_run_trans [OF calm_run_step [of "ExpireStale t"] calm_run_step [of "Acquire t mid m"]] by simp
  then have "calm_run (sched c) s2" if "acquire t mid m (snd (expire_stale t (sched c))) = (res, s2)" for m res s2
    using that by (metis snd_conv)
  then show ?thesis
    by (auto simp: lease_body_def Let_def intro!: calm_run_observe
        split: option.splits prod.splits sum.splits sched_error.splits acquired.splits)
qed

lemma infer_begin_calm: "calm_run (sched c) (sched (snd (infer_begin K w t rq c)))"
proof -
  have "calm_run (sched c) s1" if "redeem t rid mid (sched c) = (res, s1)" for rid mid res s1
    using that calm_run_step [of "Redeem t rid mid" "sched c"] by simp
  then show ?thesis
    by (auto simp: infer_begin_def intro!: calm_run_observe split: option.splits prod.splits sum.splits replay_error.splits)
qed

lemma heartbeat_steps:
  "calm_run (sched c) (sched (snd (heartbeat_handler K w t t' rq c)))
   \<or> (\<exists>pid gb up det. sched (snd (heartbeat_handler K w t t' rq c)) = sched_step (RegistryOp (Beat t t' pid gb up det)) (sched c)
       \<and> owner_beat K c pid (snd (heartbeat_handler K w t t' rq c)))"
proof (cases "\<exists>doc mid body n. rq = Some doc \<and> verify_signed_request K w (roster_of c) doc (nonces c) = (Inr (mid, body), n)")
  case True
  then obtain doc mid body n where rq: "rq = Some doc"
    and v: "verify_signed_request K w (roster_of c) doc (nonces c) = (Inr (mid, body), n)" by blast
  have eq: "heartbeat_handler K w t t' rq c = heartbeat_body t t' mid body (c\<lparr>nonces := n\<rparr>)"
    by (simp add: heartbeat_handler_def signed_def rq v)
  show ?thesis
  proof (cases rule: heartbeat_body_cases [where t = t and t' = t' and mid = mid and body = body and c = "c\<lparr>nonces := n\<rparr>"])
    case same
    then show ?thesis by (simp add: eq)
  next
    case (beat pid p gb up det r)
    have "owner_beat K c pid (snd (heartbeat_handler K w t t' rq c))"
      unfolding owner_beat_def using beat eq rq v
      by (intro exI [of _ w] exI [of _ t] exI [of _ t'] exI [of _ doc] exI [of _ mid] exI [of _ body] exI [of _ p]) simp
    moreover have "sched (snd (heartbeat_handler K w t t' rq c)) = sched_step (RegistryOp (Beat t t' pid gb up det)) (sched c)"
      using beat by (simp add: eq keep_def)
    ultimately show ?thesis by blast
  next
    case (attest pid gb r)
    with calm_run_step [of "RegistryOp (Attest t pid mid gb)" "sched c"] show ?thesis by (simp add: eq keep_def)
  qed
next
  case False
  then show ?thesis
    by (auto simp: heartbeat_handler_def signed_def split: option.splits sum.splits prod.splits)
qed

lemma stream_event_calm: "calm_run (sched c) (sched (snd (snd (stream_events env l evs c))))"
proof (induction env l evs c rule: stream_events.induct)
  case (4 env l r evs c)
  have "calm_run (sched c) (sched_step (RegistryOp (Consume (consumption_of env l r))) (sched c))" by (rule calm_run_step) simp
  with 4 show ?case by (auto simp: Let_def intro: calm_run_trans)
qed (auto simp: case_prod_unfold Let_def)

lemma coord_step_cases:
  "coord_step K c c' \<Longrightarrow> calm_run (sched c) (sched c')
    \<or> (\<exists>t t' pid gb up det. sched c' = sched_step (RegistryOp (Beat t t' pid gb up det)) (sched c) \<and> owner_beat K c pid c')
    \<or> (\<exists>pid. sched c' = sched_step (RegistryOp (Failure pid)) (sched c) \<and> relay_failure c pid c')"
proof (induction rule: coord_step.induct)
  case (Heartbeat c w t t' rq)
  show ?case using heartbeat_steps [of c K w t t' rq] by blast
next
  case (Lease c w t rq)
  show ?case unfolding lease_handler_def by (intro disjI1 calm_run_signed lease_body_calm)
next
  case (Resume c w n mid m)
  show ?case by (auto simp: lease_resume_def intro: calm_run_observe split: future.splits)
next
  case (GiveUp c n)
  from calm_run_trans [OF calm_run_step [of "CancelWait n"] calm_run_step [of "DropWaiter n"]]
  show ?case by (simp add: lease_timeout_def)
next
  case (Fail c l)
  have "relay_failure c (p_id (l_peer l)) (stream_fail l c)" by (auto simp: relay_failure_def)
  then show ?case by (intro disjI2) (auto simp: stream_fail_def)
next
  case (End c w t env l)
  from calm_run_step [of "Release t (request_id env)" "sched c"]
  show ?case unfolding stream_end_def by (intro disjI1 calm_run_observe) simp
qed (simp_all add: get_roster_def concurrency_stats_def Let_def calm_run_signed stats_calm infer_begin_calm stream_event_calm)

lemma coord_step_run: "coord_step K c c' \<Longrightarrow> \<exists>ops. sched c' = fold sched_step ops (sched c)"
  using coord_step_cases [of K c c'] unfolding calm_run_def by (metis fold_simps)

text \<open>Any number of steps: the invariant, and the ledger's contributions, which only grow by rows the roster backs.\<close>

lemma coord_run:
  assumes "(coord_step K)\<^sup>*\<^sup>* c c'" "coord_ok c"
  shows "coord_ok c' \<and> (\<exists>ops. sched c' = fold sched_step ops (sched c)) \<and> adds_rows (reg (sched c)) (reg (sched c'))"
proof -
  from assms(1) have "\<exists>ops. sched c' = fold sched_step ops (sched c)"
  proof (induction rule: rtranclp_induct)
    case base
    show ?case by (rule exI [of _ "[]"]) simp
  next
    case (step y z)
    then show ?case using coord_step_run by (metis comp_apply fold_append)
  qed
  moreover have "sched_ok (sched c)" using assms(2) by (simp add: coord_ok_def)
  ultimately show ?thesis using sched_run_rows sched.run_inv by (metis coord_ok_def)
qed

lemma reachable_run: "reachable K c \<Longrightarrow> \<exists>ro toks. roster_ok ro \<and> inj toks \<and> (coord_step K)\<^sup>*\<^sup>* (new_coordinator ro toks) c"
  by (induction rule: reachable.induct) (auto intro: rtranclp.rtrancl_into_rtrancl)

lemma reachable_rows: assumes "reachable K c" shows "list_all (row_ok (roster_of c)) (contributions (reg_ledger (reg (sched c))))"
proof -
  obtain ro toks where new: "roster_ok ro" "inj toks" "(coord_step K)\<^sup>*\<^sup>* (new_coordinator ro toks) c"
    using reachable_run [OF assms] by blast
  then have "coord_ok (new_coordinator ro toks)" by (simp add: coord_ok_def new_coordinator_def sched_ok_new)
  with coord_run [OF new(3)] have "adds_rows (reg (sched (new_coordinator ro toks))) (reg (sched c))" by simp
  then show ?thesis by (simp add: adds_rows_def new_coordinator_def new_scheduler_def new_registry_def empty_ledger_def)
qed

lemma reachable_ok: "reachable K c \<Longrightarrow> coord_ok c"
  by (induction rule: reachable.induct) (auto simp: coord_ok_def new_coordinator_def sched_ok_new dest: coord_step_ok)

section \<open>Spent leases\<close>

lemma released_gone:
  assumes "sched_ok s" "map_of (leases s) rid = Some l"
  shows "map_of (leases (release now rid s)) rid = None"
proof -
  define s1 where "s1 = s\<lparr>leases := AList.delete rid (leases s), redeemed := redeemed s - {rid},
    reg := release_slot (p_id (l_peer l)) (reg s)\<rparr>"
  have "lease_ok s rid l" using assms(1) map_of_SomeD [OF assms(2)] by (auto simp: sched_ok_def leases_ok_def)
  then have "spent rid s1"
    using assms(1) by (auto simp: s1_def spent_def lease_ok_def sched_ok_def leases_ok_def alist.lookup_remove)
  from spent_dispatch [OF this] have "spent rid (dispatch now s1)" .
  moreover have "rid \<notin> redeemed (dispatch now s1)" using dispatch_frame [of s1 now] by (simp add: s1_def)
  moreover have "release now rid s = dispatch now s1" using assms(2) by (simp add: release_def Let_def s1_def)
  ultimately show ?thesis by (simp add: spent_def)
qed

lemma stream_events_leases [simp]: "leases (sched (snd (snd (stream_events env l evs c)))) = leases (sched c)"
  by (induction env l evs c rule: stream_events.induct) (auto simp: case_prod_unfold Let_def)

lemma stream_events_rows:
  "contributions (reg_ledger (reg (sched (snd (snd (stream_events env l evs c)))))) = contributions (reg_ledger (reg (sched c)))"
  by (induction env l evs c rule: stream_events.induct) (auto simp: case_prod_unfold Let_def record_consumption_def)

lemma stream_fail_leases [simp]: "leases (sched (stream_fail l c)) = leases (sched c)"
  by (simp add: stream_fail_def)

section \<open>Metering\<close>

abbreviation consumed :: "coordinator \<Rightarrow> consumption_row list" where
  "consumed c \<equiv> consumptions (reg_ledger (reg (sched c)))"

definition metered :: "envelope \<Rightarrow> lease \<Rightarrow> relay_event list \<Rightarrow> coordinator \<Rightarrow> coordinator \<Rightarrow> bool" where
  "metered env l evs c c' \<longleftrightarrow> consumed c' = consumed c
     \<or> (request_id env \<notin> co_request ` set (consumed c)
        \<and> (\<exists>r. GotReceipt r \<in> set evs \<and> consumed c' = consumed c @ [consumption_of env l r]))"

lemma stream_events_metered: "metered env l evs c (snd (snd (stream_events env l evs c)))"
proof (induction env l evs c rule: stream_events.induct)
  case (4 env l r evs c)
  let ?row = "consumption_of env l r"
  show ?case
  proof (cases "sql_error ?row")
    case True
    then show ?thesis by (simp add: metered_def Let_def)
  next
    case False
    have rid: "co_request ?row = request_id env" by (simp add: consumption_of_def)
    from 4 [OF refl False] False show ?thesis
      by (auto simp: metered_def Let_def record_consumption_def rid split: if_splits)
  qed
qed (auto simp: metered_def case_prod_unfold Let_def)

lemma stream_end_consumed [simp]: "consumed (stream_end w t env l c) = consumed c"
  by (simp add: stream_end_def)

lemma stream_fail_consumed [simp]: "consumed (stream_fail l c) = consumed c"
  by (simp add: stream_fail_def mark_failure_def Let_def split: option.splits)

lemma infer_stream_state:
  obtains evs c1 where "set evs \<subseteq> set (fst (relay_to_peer ans))" "c1 = snd (snd (stream_events env l evs c))"
    "snd (infer_stream w t env l ans stop c) = stream_end w t env l c1
     \<or> snd (infer_stream w t env l ans stop c) = stream_end w t env l (stream_fail l c1)"
proof -
  define evs where "evs = (case stop of None \<Rightarrow> fst (relay_to_peer ans) | Some n \<Rightarrow> take n (fst (relay_to_peer ans)))"
  have "set evs \<subseteq> set (fst (relay_to_peer ans))" by (auto simp: evs_def dest: in_set_takeD split: option.splits)
  then show ?thesis
    by (rule that [OF _ refl]) (simp add: infer_stream_def case_prod_unfold Let_def evs_def split: option.splits bool.splits)
qed

section \<open>Properties\<close>

text \<open>
  C4: in every state the coordinator can reach, through any interleaving of requests and stream events, the
  slots taken of a peer are its active leases and within its declared batch capacity, the queue is bounded,
  every credited row is backed by the roster, and no request id is metered twice.
\<close>
theorem reachable_safe:
  assumes "reachable K c" "map_of (peers (roster_of c)) pid = Some p"
  shows "load (reg (sched c)) pid = int (count_list (holders (leases (sched c))) pid)
    \<and> load (reg (sched c)) pid \<le> p_max_concurrent p
    \<and> int (queue_depth (sched c)) \<le> max_queue (sched c)
    \<and> list_all (row_ok (roster_of c)) (contributions (reg_ledger (reg (sched c))))
    \<and> distinct (map co_request (consumed c))"
proof -
  from reachable_ok [OF assms(1)] have ok: "leases_ok (sched c)" "queue_ok (sched c)"
    by (simp_all add: coord_ok_def sched_ok_def)
  then have r: "registry_ok (reg (sched c))" and h: "slots.held (reg (sched c)) (holders (leases (sched c)))"
    by (simp_all add: leases_ok_def)
  have rows: "list_all (row_ok (roster_of c)) (contributions (reg_ledger (reg (sched c))))"
    by (rule reachable_rows [OF assms(1)])
  have "load (reg (sched c)) pid \<le> p_max_concurrent p" using ok(1) assms(2) unfolding leases_ok_def by blast
  with ok r rows slots.held_load [OF h, of pid] show ?thesis
    by (simp add: queue_ok_def queue_depth_def registry_ok_def ledger_ok_def)
qed

text \<open>
  a request that is not authentic gets an error and changes nothing but the memory of seen nonces: no
  heartbeat is recorded, no lease issued or expired, nothing reported.
\<close>
theorem unauthentic_changes_nothing:
  assumes "rq = None \<or> (\<exists>doc e. rq = Some doc \<and> fst (verify_signed_request K w (roster_of c) doc (nonces c)) = Inl e)"
    and "res \<in> {get_roster K w rq c, stats K w t rq c, concurrency_stats K w rq c,
      heartbeat_handler K w t t' rq c, lease_handler K w t rq c}"
  shows "sched (snd res) = sched c \<and> concurrency (snd res) = concurrency c
    \<and> (fst res = ErrorReply 401 ''unauthorized'' \<or> (\<exists>x. fst res = ServerError x))"
proof -
  have "sched (snd (signed K w rq c h)) = sched c \<and> concurrency (snd (signed K w rq c h)) = concurrency c
    \<and> (fst (signed K w rq c h) = ErrorReply 401 ''unauthorized'' \<or> (\<exists>x. fst (signed K w rq c h) = ServerError x))" for h
    using assms(1) by (auto simp: signed_def refuse_def split: option.splits sum.splits prod.splits auth_error.splits crash.splits)
  with assms(2) show ?thesis
    by (auto simp: get_roster_def stats_def concurrency_stats_def heartbeat_handler_def lease_handler_def)
qed

text \<open>How a peer is routed to: its entry, less the slots the scheduler takes of it.\<close>

definition routed_as :: "string \<Rightarrow> registry \<Rightarrow> peer_state" where
  "routed_as k r = (case map_of (states r) k of None \<Rightarrow> absent_state | Some st \<Rightarrow> st\<lparr>in_flight := 0\<rparr>)"


lemma routed_as_slot [simp]:
  "routed_as k (acquire_slot pid r) = routed_as k r" "routed_as k (release_slot pid r) = routed_as k r"
  "routed_as k (snd (state_of pid r)) = routed_as k r"
  by (auto simp: routed_as_def acquire_slot_def release_slot_def state_of_def absent_state_def split: option.splits)



lemma routed_as_dispatch_loop: "routed_as k (reg (snd (dispatch_loop now d s))) = routed_as k (reg s)"
  by (induction d s rule: dispatch_loop_induct [where now = now]) simp_all

lemma routed_as_release [simp]: "routed_as k (reg (release now rid s)) = routed_as k (reg s)"
  by (auto simp: release_def Let_def dispatch_eq routed_as_dispatch_loop split: option.splits)







text \<open>
  C6: a relayed inference is authorised: when streaming starts, the envelope parses, its sender is a member
  whose roster key verifies the signature over it, it is fresh, and an active lease for this very request
  id was issued to this sender on a peer of the roster and is thereby spent.
\<close>
theorem infer_begin_sound:
  assumes "coord_ok c" "infer_begin K w t rq c = (Streaming env l, c')"
  shows "\<exists>doc m key. rq = Some doc \<and> envelope_from_dict doc = Inr env \<and> map_of (members (roster_of c)) (sender env) = Some m
    \<and> unb64 (m_sign_pub m) = Inr key \<and> verify_envelope K env key = Inr ()
    \<and> check_fresh (ts env) w DEFAULT_MAX_AGE = Inr () \<and> map_of (leases (sched c)) (request_id env) = Some l
    \<and> l_member l = sender env \<and> t \<le> l_expires_at l \<and> request_id env \<notin> redeemed (sched c)
    \<and> request_id env \<in> redeemed (sched c') \<and> map_of (peers (roster_of c)) (p_id (l_peer l)) = Some (l_peer l)"
proof -
  from assms(2) obtain doc m key s1 where *: "rq = Some doc" "envelope_from_dict doc = Inr env"
      "map_of (members (roster_of c)) (sender env) = Some m" "unb64 (m_sign_pub m) = Inr key"
      "verify_envelope K env key = Inr ()" "check_fresh (ts env) w DEFAULT_MAX_AGE = Inr ()"
    and red: "redeem t (request_id env) (sender env) (sched c) = (Inr l, s1)"
    and c': "c' = observe w ''start'' (sender env) (p_model (l_peer l)) (put_sched s1 c)"
    by (auto simp: infer_begin_def split: option.splits sum.splits prod.splits replay_error.splits)
  from red have l: "map_of (leases (sched c)) (request_id env) = Some l" "l_member l = sender env" "t \<le> l_expires_at l"
      "request_id env \<notin> redeemed (sched c)" "s1 = (sched c)\<lparr>redeemed := insert (request_id env) (redeemed (sched c))\<rparr>"
    by (auto simp: redeem_def split: option.splits if_splits)
  have "lease_ok (sched c) (request_id env) l"
    using assms(1) map_of_SomeD [OF l(1)] by (auto simp: coord_ok_def sched_ok_def leases_ok_def)
  with * l c' show ?thesis by (simp add: lease_ok_def)
qed

definition yielded :: "relay_event list \<Rightarrow> wire_line list" where
  "yielded evs = concat (map (\<lambda>e. case e of YieldLine x \<Rightarrow> [x] | _ \<Rightarrow> []) evs)"

definition receipts :: "relay_event list \<Rightarrow> receipt list" where
  "receipts evs = concat (map (\<lambda>e. case e of GotReceipt r \<Rightarrow> [r] | _ \<Rightarrow> []) evs)"

lemma yielded_rows: "yielded (relay_lines xs) = filter (\<lambda>x. x \<noteq> Blank) (takeWhile (\<lambda>x. x \<noteq> Overlong) xs)"
  by (induction xs) (auto simp: yielded_def relay_line_def split: option.splits)

text \<open>
  What a line must say to be metered, key by key: an object of kind receipt and version 1 that names a request and
  gives counts that are not negative; a missing count is 0, and the rest is as it comes.
\<close>

inductive meters :: "wire_line \<Rightarrow> receipt \<Rightarrow> bool" where
  "obj_get d ''kind'' = JStr ''receipt'' \<Longrightarrow> obj_get d ''v'' = JInt 1 \<Longrightarrow>
   obj_get d ''request_id'' = JStr (r_request_id r) \<Longrightarrow> r_request_id r \<noteq> [] \<Longrightarrow>
   obj_get_or d ''prompt_tokens'' (JInt 0) = JInt (prompt_tokens r) \<Longrightarrow> 0 \<le> prompt_tokens r \<Longrightarrow>
   obj_get_or d ''completion_tokens'' (JInt 0) = JInt (completion_tokens r) \<Longrightarrow> 0 \<le> completion_tokens r \<Longrightarrow>
   r_engine r = obj_get_or d ''engine'' (JStr []) \<Longrightarrow> r_engine_version r = obj_get_or d ''engine_version'' (JStr []) \<Longrightarrow>
   r_hw_class r = obj_get_or d ''hw_class'' (JStr []) \<Longrightarrow>
   obj_get d ''finish_reason'' = JStr (finish_reason r)
     \<or> (finish_reason r = [] \<and> (\<forall>s. obj_get d ''finish_reason'' \<noteq> JStr s)) \<Longrightarrow>
   r_v r = 1 \<Longrightarrow> meters (Json (JObj d)) r"

definition receipt_line :: "wire_line \<Rightarrow> bool" where
  "receipt_line x \<longleftrightarrow> (\<exists>r. meters x r)"

lemma sniff_meters: "sniff_receipt x = Some r \<longleftrightarrow> meters x r"
proof (cases "\<exists>d. x = Json (JObj d)")
  case True
  then obtain d where x: "x = Json (JObj d)" by blast
  have fr: "(case as_str j of None \<Rightarrow> [] | Some s \<Rightarrow> s) = s \<longleftrightarrow> j = JStr s \<or> (s = [] \<and> (\<forall>s'. j \<noteq> JStr s'))" for j s
    by (cases j) auto
  have "receipt_from_dict (JObj d) = Inr r \<longleftrightarrow> meters x r" if "obj_get d ''kind'' = JStr ''receipt''"
    using that by (cases r) (auto simp: meters.simps receipt_from_dict_def rbind_Inr_iff x fr [symmetric])
  moreover have "obj_get d ''kind'' = JStr ''receipt''" if "meters x r" using that by (simp add: meters.simps x)
  ultimately show ?thesis by (auto simp: x sniff_receipt_def KIND_RECEIPT_def split: sum.splits)
next
  case False
  then show ?thesis by (auto simp: meters.simps sniff_receipt_def split: wire_line.splits json.splits)
qed

lemma metered_lines:
  "list_all2 meters (filter receipt_line xs) rs \<longleftrightarrow> rs = List.map_filter sniff_receipt xs"
proof (induction xs arbitrary: rs)
  case (Cons x xs)
  show ?case
  proof (cases "sniff_receipt x")
    case None
    then have "\<not> receipt_line x" using sniff_meters [of x] by (simp add: receipt_line_def)
    with Cons.IH None show ?thesis by (simp add: List.map_filter_simps)
  next
    case (Some r)
    then have "meters x r' \<longleftrightarrow> r' = r" for r' using sniff_meters [of x r'] by auto
    moreover from this have "receipt_line x" by (auto simp: receipt_line_def)
    ultimately show ?thesis using Cons.IH Some by (auto simp: List.map_filter_simps list_all2_Cons1)
  qed
qed (simp add: List.map_filter_simps)

text \<open>
  C30: the relay is verbatim: whatever the peer's lines are, well formed or not, the client gets every
  non-blank one unchanged and in order, and the metering callback gets a receipt for each of the lines that say
  one, with what that line says and in their order, and for no other line, up to the first line with a number of
  too many digits, the only one that makes the relay raise.
\<close>
theorem relay_verbatim:
  assumes "relay_to_peer (PeerStream xs broken) = (evs, err)" "good = takeWhile (\<lambda>x. x \<noteq> Overlong) xs"
  shows "yielded evs = filter (\<lambda>x. x \<noteq> Blank) good
    \<and> list_all2 meters (filter receipt_line good) (receipts evs)
    \<and> (RelayCrash \<in> set evs \<longleftrightarrow> Overlong \<in> set xs) \<and> (err = None \<longleftrightarrow> broken = None \<or> Overlong \<in> set xs)"
proof -
  have evs: "evs = relay_lines xs" and err: "err = (if Overlong \<in> set xs then None else map_option PeerUnreachable broken)"
    using assms(1) by (simp_all add: relay_to_peer_def)
  have "yielded (relay_lines xs) = filter (\<lambda>x. x \<noteq> Blank) (takeWhile (\<lambda>x. x \<noteq> Overlong) xs)"
    by (rule yielded_rows)
  moreover have "receipts (relay_lines xs) = List.map_filter sniff_receipt (takeWhile (\<lambda>x. x \<noteq> Overlong) xs)"
    by (induction xs) (auto simp: receipts_def relay_line_def sniff_receipt_def List.map_filter_def split: option.splits)
  moreover have "RelayCrash \<in> set (relay_lines xs) \<longleftrightarrow> Overlong \<in> set xs"
    by (induction xs) (auto simp: relay_line_def split: option.splits if_splits)
  ultimately show ?thesis by (simp add: evs err assms(2) metered_lines)
qed

definition demo_metered_line :: wire_line where
  "demo_metered_line = Json (JObj [(''kind'', JStr ''receipt''), (''v'', JInt 1), (''request_id'', JStr ''t''), (''completion_tokens'', JInt 9)])"

definition demo_metered :: receipt where
  "demo_metered = \<lparr>r_request_id = ''t'', prompt_tokens = 0, completion_tokens = 9, r_engine = JStr [], r_engine_version = JStr [],
     r_hw_class = JStr [], finish_reason = [], r_v = 1\<rparr>"

theorem relay_verbatim_witness:
  "\<exists>evs. relay_to_peer (PeerStream [Garbage ''x'', demo_metered_line, Blank, Overlong, demo_metered_line] None) = (evs, None)
     \<and> yielded evs = [Garbage ''x'', demo_metered_line] \<and> receipts evs = [demo_metered] \<and> RelayCrash \<in> set evs"
proof -
  let ?xs = "[Garbage ''x'', demo_metered_line, Blank, Overlong, demo_metered_line]"
  have m: "meters demo_metered_line r \<longleftrightarrow> r = demo_metered" for r
    by (cases r) (auto simp: meters.simps demo_metered_line_def demo_metered_def obj_get_def obj_get_or_def)
  then have rl: "receipt_line demo_metered_line" "\<not> receipt_line (Garbage ''x'')" "\<not> receipt_line Blank"
    by (auto simp: receipt_line_def meters.simps)
  have ne: "demo_metered_line \<noteq> Overlong" "demo_metered_line \<noteq> Blank" by (simp_all add: demo_metered_line_def)
  obtain evs err where run: "relay_to_peer (PeerStream ?xs None) = (evs, err)" by fastforce
  from relay_verbatim [OF run refl] have "yielded evs = [Garbage ''x'', demo_metered_line]" "receipts evs = [demo_metered]"
      "RelayCrash \<in> set evs" "err = None"
    by (auto simp: m rl ne list_all2_Cons1)
  with run show ?thesis by blast
qed

text \<open>
  C31: however a stream ends, with the peer's last line, a transport error, a row that cannot be stored or a
  client that stopped reading, its lease is gone, so its slot is free for the next waiter; the invariant
  holds, and no contribution was credited on the way.
\<close>
theorem stream_releases_lease:
  assumes "coord_ok c" "map_of (leases (sched c)) (request_id env) = Some l"
  shows "map_of (leases (sched (snd (infer_stream w t env l ans stop c)))) (request_id env) = None
    \<and> coord_ok (snd (infer_stream w t env l ans stop c))
    \<and> contributions (reg_ledger (reg (sched (snd (infer_stream w t env l ans stop c))))) = contributions (reg_ledger (reg (sched c)))"
proof (rule infer_stream_state [where ans = ans and env = env and l = l and c = c and w = w and t = t and stop = stop])
  fix evs c1 assume c1: "c1 = snd (snd (stream_events env l evs c))"
    and out: "snd (infer_stream w t env l ans stop c) = stream_end w t env l c1
     \<or> snd (infer_stream w t env l ans stop c) = stream_end w t env l (stream_fail l c1)"
  have ok: "coord_ok c1" "coord_ok (stream_fail l c1)" using assms(1) by (simp_all add: c1 stream_events_ok stream_fail_ok)
  have "map_of (leases (sched c1)) (request_id env) = Some l" using assms(2) by (simp add: c1)
  then have "map_of (leases (sched (stream_end w t env l c2))) (request_id env) = None" if "c2 = c1 \<or> c2 = stream_fail l c1" for c2
    using that ok released_gone by (auto simp: stream_end_def coord_ok_def)
  moreover have "contributions (reg_ledger (reg (sched (stream_end w t env l c2)))) = contributions (reg_ledger (reg (sched c)))"
    if "c2 = c1 \<or> c2 = stream_fail l c1" for c2
    using that by (auto simp: stream_end_def stream_fail_def c1 stream_events_rows mark_failure_def Let_def split: option.splits)
  ultimately show ?thesis using out ok stream_end_ok by metis
qed

text \<open>
  A relayed stream is metered at most once, against the member who signed the envelope and under its
  request id, and only for a receipt the peer sent; whatever else was metered stays.
\<close>
theorem stream_metered_once:
  "\<exists>evs. metered env l evs c (snd (infer_stream w t env l ans stop c))
     \<and> set evs \<subseteq> set (fst (relay_to_peer ans))"
proof (rule infer_stream_state [where ans = ans and env = env and l = l and c = c and w = w and t = t and stop = stop])
  fix evs c1 assume "set evs \<subseteq> set (fst (relay_to_peer ans))" and c1: "c1 = snd (snd (stream_events env l evs c))"
    and out: "snd (infer_stream w t env l ans stop c) = stream_end w t env l c1
     \<or> snd (infer_stream w t env l ans stop c) = stream_end w t env l (stream_fail l c1)"
  moreover have "metered env l evs c c1" unfolding c1 by (rule stream_events_metered)
  then have "metered env l evs c (snd (infer_stream w t env l ans stop c))"
    using out by (auto simp: metered_def)
  ultimately show ?thesis by (intro exI [of _ evs]) auto
qed

section \<open>Witnesses\<close>

text \<open>The base64 of \<open>demo_key\<close>, written out.\<close>

definition demo_pub :: string where
  "demo_pub = ''BwcHBwcHBwcHBwcHBwcHBwcHBwcHBwcHBwcHBwcHBwc=''"

lemma demo_pub_eq: "unb64 demo_pub = Inr demo_key"
proof -
  have "demo_pub = b64 demo_key" by code_simp
  then show ?thesis by (metis unb64_b64)
qed

definition demo_full_roster :: roster where
  "demo_full_roster = demo_roster\<lparr>members := [(''a'', demo_member ''a''), (''b'', (demo_member ''b'')\<lparr>m_sign_pub := demo_pub\<rparr>)]\<rparr>"

lemma demo_full_roster_ok: "roster_ok demo_full_roster"
  using demo_roster_ok by (simp add: roster_ok_def demo_full_roster_def demo_roster_def demo_member_def)

definition demo_busy :: scheduler where
  "demo_busy = fold sched_step [demo_beat 1000, Acquire 1001 ''b'' ''m''] (new_scheduler (new_registry demo_full_roster) demo_tokens)"

definition demo_cache :: nonce_cache where
  "demo_cache = \<lparr>ttl = 240, max_entries = 2, seen = []\<rparr>"

definition demo_coord :: coordinator where
  "demo_coord = \<lparr>sched = demo_busy, nonces = demo_cache, concurrency = []\<rparr>"

lemma demo_coord_ok: "coord_ok demo_coord"
proof -
  have "sched_ok demo_busy" unfolding demo_busy_def
    by (rule sched.run_inv) (rule sched_ok_new [OF demo_full_roster_ok demo_tokens_inj])
  then show ?thesis by (simp add: coord_ok_def demo_coord_def)
qed

definition demo_env :: envelope where
  "demo_env = \<lparr>request_id = ''t'', sealed_key = ''k'', iv = ''i'', ciphertext = ''c'', sender = ''b'', ts = IntN 1002,
     sig = None, proto_v = 1\<rparr>"

definition demo_env_signed :: envelope where
  "demo_env_signed = (case sign_envelope demo_crypto demo_env demo_key of Inl e \<Rightarrow> demo_env | Inr e \<Rightarrow> e)"

lemma demo_env_signed: "sign_envelope demo_crypto demo_env demo_key = Inr demo_env_signed"
  by (simp add: demo_env_signed_def sign_envelope_def signed_bytes_def canonical_def demo_env_def envelope_fields_def)

lemma demo_env_signed_eq: "demo_env_signed = demo_env\<lparr>sig := sig demo_env_signed\<rparr>"
proof -
  obtain x where "demo_env_signed = demo_env\<lparr>sig := x\<rparr>"
    using demo_env_signed by (auto simp: sign_envelope_def rbind_Inr_iff dest: sym)
  moreover from this have "sig demo_env_signed = x" by (metis envelope.select_convs(7) envelope.update_convs(7) envelope.cases)
  ultimately show ?thesis by metis
qed

lemma demo_env_fields:
  "request_id demo_env_signed = ''t''" "sender demo_env_signed = ''b''" "ts demo_env_signed = IntN 1002"
  "envelope_ok demo_env_signed"
  by (subst demo_env_signed_eq, simp add: demo_env_def envelope_ok_def)+

definition demo_lease_b :: lease where
  "demo_lease_b = \<lparr>l_request_id = ''t'', l_member = ''b'', l_peer = demo_peer, l_expires_at = 1301\<rparr>"

lemma demo_lease_b: "map_of (leases (sched demo_coord)) ''t'' = Some demo_lease_b"
  by code_simp

lemma demo_infer:
  "infer_begin demo_crypto 1002 1003 (Some (envelope_to_dict demo_env_signed)) demo_coord =
     (Streaming demo_env_signed demo_lease_b,
      snd (infer_begin demo_crypto 1002 1003 (Some (envelope_to_dict demo_env_signed)) demo_coord))"
proof -
  have m: "map_of (members (roster_of demo_coord)) ''b'' = Some ((demo_member ''b'')\<lparr>m_sign_pub := demo_pub\<rparr>)" by code_simp
  have v: "verify_envelope demo_crypto demo_env_signed demo_key = Inr ()"
    using verify_sign_envelope [OF demo_crypto_laws demo_env_signed] by (simp add: demo_crypto_def)
  have f: "check_fresh (IntN 1002) 1002 DEFAULT_MAX_AGE = Inr ()" by code_simp
  have r: "fst (redeem 1003 ''t'' ''b'' (sched demo_coord)) = Inr demo_lease_b" by code_simp
  then obtain s1 where "redeem 1003 ''t'' ''b'' (sched demo_coord) = (Inr demo_lease_b, s1)" by (metis prod.collapse)
  with m v f show ?thesis
    by (simp add: infer_begin_def env_codec.dec_enc demo_env_fields roster_member_def demo_pub_eq)
qed

theorem unauthentic_changes_nothing_witness:
  "sched (snd (lease_handler demo_crypto 1002 1003 None demo_coord)) = sched demo_coord"
  using unauthentic_changes_nothing [of None demo_crypto 1002 demo_coord
    "lease_handler demo_crypto 1002 1003 None demo_coord" 1003 1003] by simp

theorem infer_begin_sound_witness: "l_member demo_lease_b = sender demo_env_signed"
  using infer_begin_sound [OF demo_coord_ok demo_infer] by blast

theorem stream_releases_lease_witness:
  "map_of (leases (sched (snd (infer_stream 1004 1005 demo_env_signed demo_lease_b (Unreachable []) None demo_coord)))) ''t'' = None"
  using stream_releases_lease [OF demo_coord_ok, of demo_env_signed demo_lease_b 1004 1005 "Unreachable []" None]
    demo_lease_b by (simp add: demo_env_fields)

text \<open>Requests of the peer's owner, signed with the key the roster lists.\<close>

definition demo_owner_roster :: roster where
  "demo_owner_roster = demo_roster\<lparr>members := [(''a'', (demo_member ''a'')\<lparr>m_sign_pub := demo_pub\<rparr>), (''b'', demo_member ''b'')]\<rparr>"

lemma demo_owner_roster_ok: "roster_ok demo_owner_roster"
  using demo_roster_ok by (simp add: roster_ok_def demo_owner_roster_def demo_roster_def demo_member_def)

definition demo_owner_request :: "string \<Rightarrow> (string \<times> json) list \<Rightarrow> json" where
  "demo_owner_request n body = (case sign_request demo_crypto ''a'' body demo_key n (IntN 1000) of
     Inl e \<Rightarrow> JNull | Inr doc \<Rightarrow> doc)"

lemma demo_checked:
  assumes "signed_payload (float_repr demo_crypto) ''a'' n (IntN 1000) body = Inr payload" "n \<noteq> []"
  shows "check_signed demo_crypto 1010 demo_owner_roster (demo_owner_request n body) = Inr (''a'', n, body)"
proof -
  have doc: "demo_owner_request n body = JObj [(''member_id'', JStr ''a''), (''nonce'', JStr n), (''ts'', JNum (IntN 1000)),
      (''body'', JObj body), (''sig'', JStr (sign_bytes demo_crypto payload demo_key))]"
    using assms by (simp add: demo_owner_request_def sign_request_def)
  have v: "verify_bytes demo_crypto payload (sign_bytes demo_crypto payload demo_key) demo_key = Inr ()"
    using verify_sign_bytes [OF demo_crypto_laws, of payload demo_key] by (simp add: demo_crypto_def)
  have ne: "sign_bytes demo_crypto payload demo_key \<noteq> []" by (simp add: sign_bytes_def demo_crypto_def demo_key_def)
  have fr: "check_fresh (IntN 1000) 1010 DEFAULT_MAX_AGE = Inr ()" by code_simp
  show ?thesis unfolding doc check_signed_Inr using assms v ne fr
    by (simp add: demo_owner_roster_def demo_pub_eq)
qed

definition demo_beat_body :: "(string \<times> json) list" where
  "demo_beat_body = [(''peer_id'', JStr ''g''), (''resident_gb'', JInt 8)]"

definition demo_ask_body :: "(string \<times> json) list" where
  "demo_ask_body = [(''model'', JStr ''m'')]"

definition demo_idle :: coordinator where
  "demo_idle = \<lparr>sched = new_scheduler (new_registry demo_owner_roster) demo_tokens, nonces = demo_cache, concurrency = []\<rparr>"

definition demo_beaten :: "nonce_cache \<Rightarrow> coordinator" where
  "demo_beaten n = snd (heartbeat_body 5 5 ''a'' demo_beat_body (demo_idle\<lparr>nonces := n\<rparr>))"

definition demo_leased :: "nonce_cache \<Rightarrow> nonce_cache \<Rightarrow> coordinator" where
  "demo_leased n n' = snd (lease_body 1010 6 ''a'' demo_ask_body ((demo_beaten n)\<lparr>nonces := n'\<rparr>))"

lemma demo_beat_accepted:
  assumes "check_and_add 1010 ''n1'' (nonces c) = (Inr (), n)" "c = demo_idle\<lparr>nonces := nonces c\<rparr>"
  shows "heartbeat_handler demo_crypto 1010 5 5 (Some (demo_owner_request ''n1'' demo_beat_body)) c = (BeatReply ''g'' ''owner'', demo_beaten n)"
proof -
  obtain payload where "signed_payload (float_repr demo_crypto) ''a'' ''n1'' (IntN 1000) demo_beat_body = Inr payload"
    by (simp add: signed_payload_def canonical_def demo_beat_body_def)
  then have "check_signed demo_crypto 1010 demo_owner_roster (demo_owner_request ''n1'' demo_beat_body) = Inr (''a'', ''n1'', demo_beat_body)"
    by (rule demo_checked) simp
  moreover have "roster_of c = demo_owner_roster"
    by (subst assms(2)) (simp add: demo_idle_def new_scheduler_def new_registry_def)
  moreover have "c\<lparr>nonces := n\<rparr> = demo_idle\<lparr>nonces := n\<rparr>" by (subst assms(2)) simp
  moreover have "fst (heartbeat_body 5 5 ''a'' demo_beat_body (demo_idle\<lparr>nonces := n\<rparr>)) = BeatReply ''g'' ''owner''" by code_simp
  then have "heartbeat_body 5 5 ''a'' demo_beat_body (demo_idle\<lparr>nonces := n\<rparr>) = (BeatReply ''g'' ''owner'', demo_beaten n)"
    by (intro prod_eqI) (simp_all add: demo_beaten_def)
  ultimately show ?thesis using assms(1)
    by (simp add: heartbeat_handler_def signed_def verify_signed_request_def)
qed

lemma demo_lease_accepted:
  assumes "check_and_add 1010 ''n2'' n = (Inr (), n')"
  shows "snd (lease_handler demo_crypto 1010 6 (Some (demo_owner_request ''n2'' demo_ask_body)) (demo_beaten n)) = demo_leased n n'"
proof -
  obtain payload where "signed_payload (float_repr demo_crypto) ''a'' ''n2'' (IntN 1000) demo_ask_body = Inr payload"
    by (simp add: signed_payload_def canonical_def demo_ask_body_def)
  then have "check_signed demo_crypto 1010 demo_owner_roster (demo_owner_request ''n2'' demo_ask_body) = Inr (''a'', ''n2'', demo_ask_body)"
    by (rule demo_checked) simp
  moreover have "roster_of (demo_beaten n) = demo_owner_roster" "nonces (demo_beaten n) = n" by code_simp+
  ultimately show ?thesis using assms
    by (simp add: lease_handler_def signed_def verify_signed_request_def demo_leased_def)
qed

text \<open>After a beat of its owner and a lease request, the demonstration peer has its one slot taken.\<close>

lemma demo_leased_reachable: obtains n n' where "reachable demo_crypto (demo_leased n n')"
proof -
  let ?c = "new_coordinator demo_owner_roster demo_tokens"
  have c: "?c = demo_idle\<lparr>nonces := nonces ?c\<rparr>" by (simp add: new_coordinator_def demo_idle_def)
  have "nonces ?c = new_cache" by (simp add: new_coordinator_def)
  moreover have "check_and_add 1010 ''n1'' new_cache = (Inr (), new_cache\<lparr>seen := [(''n1'', 1250)]\<rparr>)"
    by (simp add: check_and_add_def new_cache_def DEFAULT_MAX_ENTRIES_def DEFAULT_MAX_AGE_def)
  ultimately have beat: "heartbeat_handler demo_crypto 1010 5 5 (Some (demo_owner_request ''n1'' demo_beat_body)) ?c =
      (BeatReply ''g'' ''owner'', demo_beaten (new_cache\<lparr>seen := [(''n1'', 1250)]\<rparr>))"
    by (intro demo_beat_accepted c) simp
  have "check_and_add 1010 ''n2'' (new_cache\<lparr>seen := [(''n1'', 1250)]\<rparr>) = (Inr (), new_cache\<lparr>seen := [(''n1'', 1250), (''n2'', 1250)]\<rparr>)"
    by (simp add: check_and_add_def prune_def new_cache_def DEFAULT_MAX_ENTRIES_def DEFAULT_MAX_AGE_def)
  note lease = demo_lease_accepted [OF this]
  have "reachable demo_crypto ?c" by (rule reachable.init [OF demo_owner_roster_ok demo_tokens_inj])
  from reachable.step [OF this coord_step.Heartbeat [of _ _ 1010 5 5 "Some (demo_owner_request ''n1'' demo_beat_body)"]]
  have "reachable demo_crypto (demo_beaten (new_cache\<lparr>seen := [(''n1'', 1250)]\<rparr>))" by (simp only: beat snd_conv)
  from reachable.step [OF this coord_step.Lease [of _ _ 1010 6 "Some (demo_owner_request ''n2'' demo_ask_body)"]]
  show ?thesis unfolding lease by (rule that)
qed

theorem reachable_safe_witness:
  "\<exists>n n'. reachable demo_crypto (demo_leased n n') \<and> load (reg (sched (demo_leased n n'))) ''g'' = 1
     \<and> int (count_list (holders (leases (sched (demo_leased n n')))) ''g'') = 1 \<and> 1 \<le> p_max_concurrent demo_peer"
proof -
  obtain n n' where r: "reachable demo_crypto (demo_leased n n')" by (rule demo_leased_reachable)
  have "map_of (peers (roster_of (demo_leased n n'))) ''g'' = Some demo_peer" "load (reg (sched (demo_leased n n'))) ''g'' = 1"
    by code_simp+
  with reachable_safe [OF r this(1)] r show ?thesis by metis
qed


end
