(* ===== verification/JsonText.thy ===== *)
theory JsonText
  imports Numbers
begin

text \<open>
  The text of JSON documents: \<open>json.loads\<close> of the standard library as a scanner and an automaton over its
  tokens, and the writer \<open>json.dumps\<close> with its defaults, which the payload of a request and every frame of a
  stream go through. A string literal may hold characters the model has no \<open>char\<close> for: reading it stops with
  \<open>Unrepresented\<close>. The lemmas show that what either writer of the program prints is read back.
\<close>

section \<open>Scanning\<close>

datatype json_stop =
    Malformed \<comment> \<open>\<open>JSONDecodeError\<close>\<close>
  | DigitLimit \<comment> \<open>the \<open>ValueError\<close> of \<open>int\<close> on more than 4300 digits\<close>
  | Unrepresented

definition hex_char :: "char \<Rightarrow> nat option" where
  "hex_char c =
     (let n = of_char c :: nat
      in if 48 \<le> n \<and> n \<le> 57 then Some (n - 48) else if 97 \<le> n \<and> n \<le> 102 then Some (n - 87)
         else if 65 \<le> n \<and> n \<le> 70 then Some (n - 55) else None)"

text \<open>The code point of the four digits after \<open>\u\<close>.\<close>

definition hex4 :: "char \<Rightarrow> char \<Rightarrow> char \<Rightarrow> char \<Rightarrow> nat option" where
  "hex4 a b c d =
     (case (hex_char a, hex_char b, hex_char c, hex_char d) of
        (Some i, Some j, Some k, Some l) \<Rightarrow> Some (((i * 16 + j) * 16 + k) * 16 + l)
      | _ \<Rightarrow> None)"

definition short_escape :: "char \<Rightarrow> char option" where
  "short_escape c = map_of [(CHR 0x22, CHR 0x22), (CHR 0x5C, CHR 0x5C), (CHR ''/'', CHR ''/''), (CHR ''b'', CHR 0x08),
     (CHR ''f'', CHR 0x0C), (CHR ''n'', CHR 0x0A), (CHR ''r'', CHR 0x0D), (CHR ''t'', CHR 0x09)] c"

text \<open>The character of an escape, after the backslash, and what follows.\<close>

definition scan_escape :: "string \<Rightarrow> json_stop + char \<times> string" where
  "scan_escape s =
     (case s of
        [] \<Rightarrow> Inl Malformed
      | d # ds \<Rightarrow>
          if d = CHR ''u'' then
            (case ds of
               h1 # h2 # h3 # h4 # r \<Rightarrow>
                 (case hex4 h1 h2 h3 h4 of
                    None \<Rightarrow> Inl Malformed
                  | Some n \<Rightarrow> if n < 256 then Inr (char_of n, r) else Inl Unrepresented)
             | _ \<Rightarrow> Inl Malformed)
          else (case short_escape d of None \<Rightarrow> Inl Malformed | Some e \<Rightarrow> Inr (e, ds)))"

lemma scan_escape_shorter: "scan_escape s = Inr (c, r) \<Longrightarrow> length r < length s"
  by (auto simp: scan_escape_def split: list.splits if_splits option.splits)

text \<open>The rest of a string literal: its characters and what follows the closing quote.\<close>

function scan_string :: "string \<Rightarrow> json_stop + string \<times> string" where
  "scan_string [] = Inl Malformed"
| "scan_string (c # cs) =
     (if c = CHR 0x22 then Inr ([], cs)
      else if of_char c < (32 :: nat) then Inl Malformed
      else if c \<noteq> CHR 0x5C then rbind (scan_string cs) (\<lambda>(s, r). Inr (c # s, r))
      else case scan_escape cs of
        Inl e \<Rightarrow> Inl e
      | Inr (d, ds) \<Rightarrow> rbind (scan_string ds) (\<lambda>(s, r). Inr (d # s, r)))"
  by pat_completeness auto

termination
  by (relation "measure length") (auto dest: scan_escape_shorter)

definition after_word :: "string \<Rightarrow> string \<Rightarrow> string option" where
  "after_word w s = (if take (length w) s = w then Some (drop (length w) s) else None)"

text \<open>An int, or a float when there is a fraction or an exponent; \<open>u\<close> is what follows the integral digits.\<close>

definition number_tail :: "bool \<Rightarrow> string \<Rightarrow> string \<Rightarrow> json_stop + json \<times> string" where
  "number_tail neg ip u =
     (let (fp, v) = (if fst (scan_fraction u) = [] then ([], u) else scan_fraction u); sgn = (if neg then - 1 else 1)
      in case scan_exponent v of
           Some (ex, r) \<Rightarrow> Inr (JNum (to_double (sgn * decimal_value ip fp ex)), r)
         | None \<Rightarrow>
             if fp \<noteq> [] then Inr (JNum (to_double (sgn * decimal_value ip fp 0)), v)
             else if MAX_STR_DIGITS < length ip then Inl DigitLimit
             else Inr (JInt (with_sign neg (int (read_nat ip))), v))"

definition unsigned_number :: "bool \<Rightarrow> string \<Rightarrow> json_stop + json \<times> string" where
  "unsigned_number neg s =
     (if s = [] \<or> \<not> is_digit (hd s) then Inl Malformed
      else if hd s = CHR ''0'' then number_tail neg ''0'' (tl s)
      else number_tail neg (takeWhile is_digit s) (dropWhile is_digit s))"

definition scan_number :: "string \<Rightarrow> json_stop + json \<times> string" where
  "scan_number s = (if s \<noteq> [] \<and> hd s = CHR ''-'' then unsigned_number True (tl s) else unsigned_number False s)"

definition json_words :: "(string \<times> json) list" where
  "json_words = [(''null'', JNull), (''true'', JBool True), (''false'', JBool False), (''NaN'', JNum NaN),
     (''Infinity'', JNum (Inf True)), (''-Infinity'', JNum (Inf False))]"

fun scan_word :: "(string \<times> json) list \<Rightarrow> string \<Rightarrow> (json \<times> string) option" where
  "scan_word [] s = None"
| "scan_word ((w, v) # ws) s = (case after_word w s of Some r \<Rightarrow> Some (v, r) | None \<Rightarrow> scan_word ws s)"

definition scan_atom :: "string \<Rightarrow> json_stop + json \<times> string" where
  "scan_atom s = (case scan_word json_words s of Some p \<Rightarrow> Inr p | None \<Rightarrow> scan_number s)"

lemma scan_string_shorter: "scan_string s = Inr (t, r) \<Longrightarrow> length r < length s"
proof (induction s arbitrary: t r rule: scan_string.induct)
  case (2 c cs)
  then show ?case
    by (fastforce simp: rbind_Inr_iff split: if_splits sum.splits prod.splits dest: scan_escape_shorter)
qed simp

lemma scan_exponent_shorter: "scan_exponent s = Some (ex, r) \<Longrightarrow> length r < length s"
proof -
  assume "scan_exponent s = Some (ex, r)"
  then obtain c cs neg t where "s = c # cs" "sign_split cs = (neg, t)" "r = dropWhile is_digit t"
    by (auto simp: scan_exponent_def Let_def split: list.splits if_splits prod.splits)
  moreover have "length t \<le> length cs" if "sign_split cs = (neg, t)"
    using that by (auto simp: sign_split_def split: list.splits if_splits)
  ultimately show ?thesis using length_dropWhile_le [of is_digit t] by fastforce
qed

lemma scan_fraction_shorter: "length (snd (scan_fraction s)) \<le> length s"
  using length_dropWhile_le [of is_digit "tl s"] by (auto simp: scan_fraction_def split: list.splits)

lemma number_tail_shorter: "number_tail neg ip u = Inr (v, r) \<Longrightarrow> length r \<le> length u"
  using scan_fraction_shorter [of u]
  by (fastforce simp: number_tail_def case_prod_unfold Let_def split: if_splits option.splits dest: scan_exponent_shorter)

lemma scan_number_shorter: "scan_number s = Inr (v, r) \<Longrightarrow> length r < length s"
proof -
  have un: "length r < length t" if "unsigned_number neg t = Inr (v, r)" for neg t
  proof -
    from that obtain c cs where t: "t = c # cs" "is_digit c" by (cases t) (auto simp: unsigned_number_def split: if_splits)
    with that length_dropWhile_le [of is_digit cs] show ?thesis
      by (fastforce simp: unsigned_number_def split: if_splits dest: number_tail_shorter)
  qed
  assume "scan_number s = Inr (v, r)"
  with un show ?thesis by (cases s) (fastforce simp: scan_number_def split: if_splits)+
qed

lemma scan_word_shorter: "scan_word ws s = Some (v, r) \<Longrightarrow> [] \<notin> fst ` set ws \<Longrightarrow> length r < length s"
proof (induction ws s rule: scan_word.induct)
  case (2 w v ws s)
  show ?case
  proof (cases "after_word w s")
    case (Some r')
    with 2(3) have "take (length w) s = w" "r' = drop (length w) s" "w \<noteq> []" by (auto simp: after_word_def split: if_splits)
    then show ?thesis using 2(2) Some by (cases s) auto
  qed (use 2 in auto)
qed simp

lemma scan_atom_shorter: "scan_atom s = Inr (v, r) \<Longrightarrow> length r < length s"
  using scan_word_shorter [of json_words s v r]
  by (auto simp: scan_atom_def json_words_def split: option.splits dest: scan_number_shorter simp del: scan_word.simps)

section \<open>Tokens\<close>

datatype json_token = Punct char | AtomTok json | StrTok string | NoTok json_stop

definition json_space :: "char \<Rightarrow> bool" where
  "json_space c \<longleftrightarrow> c = CHR '' '' \<or> c = CHR 0x09 \<or> c = CHR 0x0A \<or> c = CHR 0x0D"

definition punctuation :: "char \<Rightarrow> bool" where
  "punctuation c \<longleftrightarrow> c \<in> set ''{}[]:,''"

text \<open>The tokens up to the end or to the first place where there is none.\<close>

function tokenise :: "string \<Rightarrow> json_token list" where
  "tokenise [] = []"
| "tokenise (c # cs) =
     (if json_space c then tokenise cs
      else if punctuation c then Punct c # tokenise cs
      else if c = CHR 0x22 then (case scan_string cs of Inl e \<Rightarrow> [NoTok e] | Inr (s, r) \<Rightarrow> StrTok s # tokenise r)
      else (case scan_atom (c # cs) of Inl e \<Rightarrow> [NoTok e] | Inr (v, r) \<Rightarrow> AtomTok v # tokenise r))"
  by pat_completeness auto

termination
  by (relation "measure length") (auto dest: scan_string_shorter scan_atom_shorter)

section \<open>The automaton\<close>

text \<open>
  What comes next, and the open arrays and objects, innermost first; an object whose member is being read keeps
  the member's name. A repeated name keeps its place and takes the last value, like a dict.
\<close>

datatype json_mode = WantValue | WantItem | WantMember | WantName | WantColon | Have json

datatype json_frame = ArrFrame "json list" | ObjFrame "(string \<times> json) list" | NameFrame "(string \<times> json) list" string

definition read_value :: "json_frame list \<Rightarrow> json_token \<Rightarrow> json_stop + json_mode \<times> json_frame list" where
  "read_value st t =
     (case t of
        AtomTok v \<Rightarrow> Inr (Have v, st)
      | StrTok s \<Rightarrow> Inr (Have (JStr s), st)
      | NoTok e \<Rightarrow> Inl e
      | Punct c \<Rightarrow> if c = CHR ''['' then Inr (WantItem, ArrFrame [] # st)
                    else if c = CHR ''{'' then Inr (WantMember, ObjFrame [] # st) else Inl Malformed)"

text \<open>A name is read as a string only, so a number of too many digits is not even looked at.\<close>

definition read_name :: "json_frame list \<Rightarrow> json_token \<Rightarrow> json_stop + json_mode \<times> json_frame list" where
  "read_name st t =
     (case (t, st) of
        (StrTok s, ObjFrame d # rest) \<Rightarrow> Inr (WantColon, NameFrame d s # rest)
      | (NoTok Unrepresented, _) \<Rightarrow> Inl Unrepresented
      | _ \<Rightarrow> Inl Malformed)"

definition close_frame :: "json_frame list \<Rightarrow> json_stop + json_mode \<times> json_frame list" where
  "close_frame st =
     (case st of
        ArrFrame xs # rest \<Rightarrow> Inr (Have (JList xs), rest)
      | ObjFrame d # rest \<Rightarrow> Inr (Have (JObj d), rest)
      | _ \<Rightarrow> Inl Malformed)"

text \<open>The value just read is put into the array or object around it.\<close>

definition add_value :: "json \<Rightarrow> json_frame \<Rightarrow> json_frame" where
  "add_value v f =
     (case f of
        ArrFrame xs \<Rightarrow> ArrFrame (xs @ [v])
      | NameFrame d k \<Rightarrow> ObjFrame (AList.update k v d)
      | ObjFrame d \<Rightarrow> ObjFrame d)"

definition after_value :: "json \<Rightarrow> json_frame list \<Rightarrow> json_token \<Rightarrow> json_stop + json_mode \<times> json_frame list" where
  "after_value v st t =
     (case st of
        ArrFrame xs # rest \<Rightarrow>
          if t = Punct CHR '','' then Inr (WantValue, add_value v (ArrFrame xs) # rest)
          else if t = Punct CHR '']'' then close_frame (add_value v (ArrFrame xs) # rest) else Inl Malformed
      | NameFrame d k # rest \<Rightarrow>
          if t = Punct CHR '','' then Inr (WantName, add_value v (NameFrame d k) # rest)
          else if t = Punct CHR ''}'' then close_frame (add_value v (NameFrame d k) # rest) else Inl Malformed
      | _ \<Rightarrow> Inl Malformed)"

definition json_step :: "json_mode \<Rightarrow> json_frame list \<Rightarrow> json_token \<Rightarrow> json_stop + json_mode \<times> json_frame list" where
  "json_step m st t =
     (case m of
        WantValue \<Rightarrow> read_value st t
      | WantItem \<Rightarrow> if t = Punct CHR '']'' then close_frame st else read_value st t
      | WantMember \<Rightarrow> if t = Punct CHR ''}'' then close_frame st else read_name st t
      | WantName \<Rightarrow> read_name st t
      | WantColon \<Rightarrow> if t = Punct CHR '':'' then Inr (WantValue, st) else Inl Malformed
      | Have v \<Rightarrow> after_value v st t)"

fun run_tokens :: "json_mode \<Rightarrow> json_frame list \<Rightarrow> json_token list \<Rightarrow> json_stop + json" where
  "run_tokens m st [] = (case (m, st) of (Have v, []) \<Rightarrow> Inr v | _ \<Rightarrow> Inl Malformed)"
| "run_tokens m st (t # toks) = rbind (json_step m st t) (\<lambda>(m', st'). run_tokens m' st' toks)"

definition read_json :: "string \<Rightarrow> json_stop + json" where
  "read_json s = run_tokens WantValue [] (tokenise s)"

section \<open>Writing with the defaults\<close>

text \<open>\<open>json.dumps(obj)\<close>: everything outside printable ASCII is escaped, separators are followed by a space.\<close>

definition ascii_char :: "char \<Rightarrow> string" where
  "ascii_char c =
     (let n = of_char c :: nat
      in if 32 \<le> n \<and> n \<le> 126 \<and> c \<noteq> CHR 0x22 \<and> c \<noteq> CHR 0x5C then [c]
         else if c \<in> {CHR 0x22, CHR 0x5C, CHR 0x0A, CHR 0x0D, CHR 0x09, CHR 0x0C, CHR 0x08} then esc_char c
         else [CHR 0x5C, CHR ''u'', CHR ''0'', CHR ''0'', hex_digit (n div 16), hex_digit (n mod 16)])"

definition ascii_quote :: "string \<Rightarrow> string" where
  "ascii_quote s = CHR 0x22 # concat (map ascii_char s) @ [CHR 0x22]"

fun sep_by :: "'a list \<Rightarrow> 'a list list \<Rightarrow> 'a list" where
  "sep_by s [] = []"
| "sep_by s [x] = x"
| "sep_by s (x # y # ys) = x @ s @ sep_by s (y # ys)"

fun wire_text :: "(rat \<Rightarrow> string) \<Rightarrow> json \<Rightarrow> string" where
  "wire_text frepr (JStr s) = ascii_quote s"
| "wire_text frepr (JList xs) = CHR ''['' # sep_by '', '' (map (wire_text frepr) xs) @ '']''"
| "wire_text frepr (JObj d) =
     CHR ''{'' # sep_by '', '' (map (\<lambda>p. ascii_quote (fst p) @ '': '' @ wire_text frepr (snd p)) d) @ ''}''"
| "wire_text frepr v = dumps frepr v"

section \<open>Reading strings back\<close>

lemma hex_char_digit: "n < 16 \<Longrightarrow> hex_char (hex_digit n) = Some n"
  by (simp add: hex_char_def hex_digit_def digit_def of_char_char_of_small Let_def)

lemma scan_hex_escape:
  "scan_string (CHR 0x5C # CHR ''u'' # CHR ''0'' # CHR ''0'' # hex_digit (of_char c div 16) # hex_digit (of_char c mod 16) # t)
    = rbind (scan_string t) (\<lambda>(s, r). Inr (c # s, r))"
proof -
  have n: "(of_char c :: nat) < 256" by simp
  then have "(of_char c :: nat) div 16 < 16" by (simp add: div_less_iff_less_mult)
  then have "hex4 CHR ''0'' CHR ''0'' (hex_digit (of_char c div 16)) (hex_digit (of_char c mod 16)) = Some (of_char c)"
    by (simp add: hex4_def hex_char_digit, simp add: hex_char_def)
  with n show ?thesis by (simp add: scan_escape_def)
qed

lemma scan_esc_char: "scan_string (esc_char c @ t) = rbind (scan_string t) (\<lambda>(s, r). Inr (c # s, r))"
  using scan_hex_escape [of c t] by (auto simp: esc_char_def scan_escape_def short_escape_def)

lemma scan_ascii_char: "scan_string (ascii_char c @ t) = rbind (scan_string t) (\<lambda>(s, r). Inr (c # s, r))"
  using scan_hex_escape [of c t] scan_esc_char [of c t] by (auto simp: ascii_char_def Let_def)

lemma scan_chars:
  assumes "\<And>c t. scan_string (enc c @ t) = rbind (scan_string t) (\<lambda>(s, r). Inr (c # s, r))"
  shows "scan_string (concat (map enc s) @ CHR 0x22 # r) = Inr (s, r)"
  by (induction s) (simp_all add: assms)

lemma tokenise_quote [simp]: "tokenise (quote s @ r) = StrTok s # tokenise r" "tokenise (ascii_quote s @ r) = StrTok s # tokenise r"
  by (simp_all add: quote_def ascii_quote_def json_space_def punctuation_def scan_chars scan_esc_char scan_ascii_char)

section \<open>Reading numbers back\<close>

lemma ends_not:
  assumes "ends r" shows "r = [] \<or> \<not> is_digit (hd r) \<and> hd r \<notin> {CHR ''.'', CHR ''e'', CHR ''E'', CHR ''-'', CHR ''+''}"
  using assms by (cases r) (auto simp: delim_def is_digit_def)

lemma digits_append:
  assumes "ends r"
  shows "takeWhile is_digit (u @ r) = takeWhile is_digit u" "dropWhile is_digit (u @ r) = dropWhile is_digit u @ r"
  using ends_not [OF assms] by (induction u) (cases r; auto)+

lemma scan_fraction_append: "ends r \<Longrightarrow> scan_fraction (u @ r) = (fst (scan_fraction u), snd (scan_fraction u) @ r)"
proof (cases u)
  case Nil
  assume "ends r"
  with Nil ends_not [of r] show ?thesis by (cases r) (auto simp: scan_fraction_def)
qed (auto simp: scan_fraction_def digits_append)

lemma sign_split_append: "ends r \<Longrightarrow> sign_split (u @ r) = (fst (sign_split u), snd (sign_split u) @ r)"
  using ends_not [of r] by (cases u; cases r) (auto simp: sign_split_def)

lemma scan_exponent_append: "ends r \<Longrightarrow> scan_exponent (u @ r) = map_option (\<lambda>(ex, t). (ex, t @ r)) (scan_exponent u)"
proof (cases u)
  case Nil
  assume "ends r"
  with Nil ends_not [of r] show ?thesis by (cases r) (auto simp: scan_exponent_def)
qed (auto simp: scan_exponent_def sign_split_append digits_append case_prod_unfold Let_def)

lemma number_tail_append:
  assumes "number_tail neg ip u = Inr (v, t)" "ends r" shows "number_tail neg ip (u @ r) = Inr (v, t @ r)"
proof -
  obtain fp w where fp: "(if fst (scan_fraction u) = [] then ([], u) else scan_fraction u) = (fp, w)" by fastforce
  then have "(if fst (scan_fraction (u @ r)) = [] then ([], u @ r) else scan_fraction (u @ r)) = (fp, w @ r)"
    using assms(2) by (auto simp: scan_fraction_append split: if_splits)
  with fp assms show ?thesis
    by (auto simp: number_tail_def scan_exponent_append Let_def split: option.splits if_splits)
qed

lemma unsigned_number_append:
  assumes "unsigned_number neg s = Inr (v, t)" "ends r" shows "unsigned_number neg (s @ r) = Inr (v, t @ r)"
proof -
  have "s \<noteq> []" "is_digit (hd s)" using assms(1) by (auto simp: unsigned_number_def split: if_splits)
  with assms show ?thesis by (auto simp: unsigned_number_def digits_append number_tail_append split: if_splits)
qed

lemma scan_number_append:
  assumes "scan_number s = Inr (v, t)" "ends r" shows "scan_number (s @ r) = Inr (v, t @ r)"
proof -
  have "s \<noteq> []" using assms(1) by (auto simp: scan_number_def unsigned_number_def)
  with assms show ?thesis by (auto simp: scan_number_def unsigned_number_append split: if_splits)
qed

text \<open>A number begins with a digit, perhaps after a minus sign, so it is none of the words.\<close>

lemma scan_number_start:
  "scan_number s = Inr (v, t) \<Longrightarrow> (\<exists>c cs. s = c # cs \<and> is_digit c) \<or> (\<exists>c cs. s = CHR ''-'' # c # cs \<and> is_digit c)"
  by (cases s; cases "tl s") (auto simp: scan_number_def unsigned_number_def split: if_splits)

lemma number_chars: "is_digit c \<or> c = CHR ''-'' \<Longrightarrow> \<not> json_space c \<and> \<not> punctuation c \<and> c \<noteq> CHR 0x22"
  by (auto simp: is_digit_def json_space_def punctuation_def)

lemma after_word_simps [simp]:
  "after_word [] s = Some s" "after_word (w # ws) [] = None"
  "after_word (w # ws) (c # cs) = (if c = w then after_word ws cs else None)"
  by (simp_all add: after_word_def)

lemma no_word:
  assumes "is_digit c" shows "scan_word json_words (c # cs) = None" "scan_word json_words (CHR ''-'' # c # cs) = None"
proof -
  have "c \<noteq> CHR ''n''" "c \<noteq> CHR ''t''" "c \<noteq> CHR ''f''" "c \<noteq> CHR ''N''" "c \<noteq> CHR ''I''" "c \<noteq> CHR ''-''"
    using assms by (auto simp: is_digit_def)
  then show "scan_word json_words (c # cs) = None" "scan_word json_words (CHR ''-'' # c # cs) = None"
    by (simp_all add: json_words_def)
qed

lemma tokenise_atom:
  "scan_atom (c # cs) = Inr (v, r) \<Longrightarrow> \<not> json_space c \<Longrightarrow> \<not> punctuation c \<Longrightarrow> c \<noteq> CHR 0x22 \<Longrightarrow> tokenise (c # cs) = AtomTok v # tokenise r"
  by simp

lemma tokenise_number:
  assumes "scan_number s = Inr (v, [])" "ends r" shows "tokenise (s @ r) = AtomTok v # tokenise r"
proof -
  from scan_number_start [OF assms(1)] have none: "scan_word json_words (s @ r) = None"
    by (elim disjE exE conjE) (simp_all only: append_Cons no_word)
  have atom: "scan_atom (s @ r) = Inr (v, r)" using none scan_number_append [OF assms] by (simp add: scan_atom_def)
  from scan_number_start [OF assms(1)] obtain c cs where s: "s = c # cs" and c: "is_digit c \<or> c = CHR ''-''" by blast
  from number_chars [OF c] atom show ?thesis unfolding s append_Cons by (intro tokenise_atom) blast+
qed

lemma digit_0: "n < 10 \<Longrightarrow> digit n = CHR ''0'' \<longleftrightarrow> n = 0"
proof -
  assume "n < 10"
  then have "of_char (digit n) = 48 + n" by (simp add: digit_def of_char_char_of_small)
  moreover have "digit 0 = CHR ''0''" by code_simp
  ultimately show ?thesis by auto
qed

lemma show_nat_zero: "hd (show_nat n) = CHR ''0'' \<longleftrightarrow> n = 0"
proof (induction n rule: show_nat.induct)
  case (1 n)
  show ?case
  proof (cases "n < 10")
    case True
    with digit_0 show ?thesis by (simp add: show_nat.simps [of n])
  next
    case False
    with 1 show ?thesis by (simp add: show_nat.simps [of n] show_nat_nonempty)
  qed
qed

lemma unsigned_number_show:
  "length (show_nat n) \<le> MAX_STR_DIGITS \<Longrightarrow> unsigned_number neg (show_nat n) = Inr (JInt (with_sign neg (int n)), [])"
proof -
  assume len: "length (show_nat n) \<le> MAX_STR_DIGITS"
  have tail: "number_tail neg ip [] = Inr (JInt (with_sign neg (int (read_nat ip))), [])" if "length ip \<le> MAX_STR_DIGITS" for ip
    using that by (simp add: number_tail_def scan_fraction_def scan_exponent_def)
  have all: "takeWhile is_digit (show_nat n) = show_nat n" "dropWhile is_digit (show_nat n) = []"
    using show_nat_digits by (simp_all add: takeWhile_eq_all_conv dropWhile_eq_Nil_conv)
  show ?thesis
  proof (cases "n = 0")
    case True
    then have "show_nat n = ''0''" by (simp add: show_nat.simps [of 0] digit_0)
    with True tail [of "''0''"] show ?thesis by (simp add: unsigned_number_def is_digit_def MAX_STR_DIGITS_def read_nat_def)
  next
    case False
    with len show ?thesis
      using show_nat_zero [of n] show_nat_hd [of n] by (simp add: unsigned_number_def all tail show_nat_nonempty read_show_nat)
  qed
qed

lemma scan_show_int: "short_int n \<Longrightarrow> scan_number (show_int n) = Inr (JInt n, [])"
  using unsigned_number_show [of "nat \<bar>n\<bar>"] show_nat_hd [of "nat n"]
  by (auto simp: short_int_def show_int_def scan_number_def with_sign_def)

section \<open>Reading documents back\<close>

text \<open>
  What survives printing and reading: names are distinct, as in a dict, ints have no more digits than Python
  prints, and floats print as numbers that round to them.
\<close>

fun printable :: "(rat \<Rightarrow> string) \<Rightarrow> json \<Rightarrow> bool" where
  "printable frepr (JNum (IntN n)) = short_int n"
| "printable frepr (JNum (Flt r)) = (scan_number (frepr r) = Inr (JNum (Flt r), []))"
| "printable frepr (JList xs) = (\<forall>x \<in> set xs. printable frepr x)"
| "printable frepr (JObj d) = (distinct (keys d) \<and> (\<forall>p \<in> set d. printable frepr (snd p)))"
| "printable frepr v = True"

fun doc_tokens :: "json \<Rightarrow> json_token list" where
  "doc_tokens (JStr s) = [StrTok s]"
| "doc_tokens (JList xs) = Punct CHR ''['' # sep_by [Punct CHR '',''] (map doc_tokens xs) @ [Punct CHR '']'']"
| "doc_tokens (JObj d) = Punct CHR ''{'' #
     sep_by [Punct CHR '',''] (map (\<lambda>p. StrTok (fst p) # Punct CHR '':'' # doc_tokens (snd p)) d) @ [Punct CHR ''}'']"
| "doc_tokens v = [AtomTok v]"

lemma tokenise_punct [simp]: "punctuation c \<Longrightarrow> tokenise (c # cs) = Punct c # tokenise cs"
  by (auto simp: punctuation_def json_space_def)

lemma punctuations [simp]:
  "punctuation CHR ''[''" "punctuation CHR '']''" "punctuation CHR ''{''" "punctuation CHR ''}''" "punctuation CHR '',''" "punctuation CHR '':''"
  by (simp_all add: punctuation_def)

lemma tokenise_space [simp]: "tokenise (CHR '' '' # cs) = tokenise cs"
  by (simp add: json_space_def)

declare tokenise.simps(2) [simp del]

lemmas scan_word_defs = scan_atom_def json_words_def json_space_def punctuation_def

lemma tokenise_words [simp]:
  "tokenise (CHR ''n'' # CHR ''u'' # CHR ''l'' # CHR ''l'' # r) = AtomTok JNull # tokenise r"
  "tokenise (CHR ''t'' # CHR ''r'' # CHR ''u'' # CHR ''e'' # r) = AtomTok (JBool True) # tokenise r"
  "tokenise (CHR ''f'' # CHR ''a'' # CHR ''l'' # CHR ''s'' # CHR ''e'' # r) = AtomTok (JBool False) # tokenise r"
  "tokenise (CHR ''N'' # CHR ''a'' # CHR ''N'' # r) = AtomTok (JNum NaN) # tokenise r"
  "tokenise (CHR ''I'' # CHR ''n'' # CHR ''f'' # CHR ''i'' # CHR ''n'' # CHR ''i'' # CHR ''t'' # CHR ''y'' # r) = AtomTok (JNum (Inf True)) # tokenise r"
  "tokenise (CHR ''-'' # CHR ''I'' # CHR ''n'' # CHR ''f'' # CHR ''i'' # CHR ''n'' # CHR ''i'' # CHR ''t'' # CHR ''y'' # r) = AtomTok (JNum (Inf False)) # tokenise r"
  by (rule tokenise_atom; simp add: scan_word_defs)+

lemma tokenise_number_text [simp]:
  "printable frepr (JNum x) \<Longrightarrow> ends r \<Longrightarrow> tokenise (dumps frepr (JNum x) @ r) = AtomTok (JNum x) # tokenise r"
  by (cases x) (simp_all add: tokenise_number scan_show_int)

lemma tokenise_sep:
  assumes "\<And>x r. x \<in> set xs \<Longrightarrow> ends r \<Longrightarrow> tokenise (enc x @ r) = toks x @ tokenise r"
    and sep: "\<And>t. tokenise (sep @ t) = Punct CHR '','' # tokenise t" "\<And>t. ends (sep @ t)" and "delim c"
  shows "tokenise (sep_by sep (map enc xs) @ c # r) = sep_by [Punct CHR '',''] (map toks xs) @ tokenise (c # r)"
  using assms(1)
proof (induction xs rule: induct_list012)
  case (3 x y zs)
  from 3(3) [of x] 3(2) 3(3) sep show ?case by simp
qed (use assms(4) in simp_all)

lemma commas_sep_by: "commas xs = sep_by '','' xs"
  by (induction xs rule: commas.induct) auto

lemma tokenise_wire: "printable frepr v \<Longrightarrow> ends r \<Longrightarrow> tokenise (wire_text frepr v @ r) = doc_tokens v @ tokenise r"
proof (induction frepr v arbitrary: r rule: wire_text.induct)
  case (2 frepr xs)
  from 2 show ?case
    using tokenise_sep [where enc = "wire_text frepr" and xs = xs and sep = "'', ''" and c = "CHR '']''" and toks = doc_tokens and r = r]
    by simp
next
  case (3 frepr d)
  then show ?case
    using tokenise_sep [where enc = "\<lambda>p. ascii_quote (fst p) @ '': '' @ wire_text frepr (snd p)" and xs = d and sep = "'', ''"
        and c = "CHR ''}''" and toks = "\<lambda>p. StrTok (fst p) # Punct CHR '':'' # doc_tokens (snd p)" and r = r]
    by fastforce
qed (simp_all add: tokenise_number scan_show_int)

lemma tokenise_dumps: "printable frepr v \<Longrightarrow> ends r \<Longrightarrow> tokenise (dumps frepr v @ r) = doc_tokens (norm_keys v) @ tokenise r"
proof (induction frepr v arbitrary: r rule: dumps.induct)
  case (8 frepr xs)
  then show ?case
    using tokenise_sep [where enc = "dumps frepr" and xs = xs and sep = "'',''" and c = "CHR '']''" and toks = "doc_tokens \<circ> norm_keys" and r = r]
    by (simp add: commas_sep_by)
next
  case (9 frepr d)
  then show ?case
    using tokenise_sep [where enc = "\<lambda>p. quote (fst p) @ CHR '':'' # dumps frepr (snd p)" and xs = "sort_key fst d" and sep = "'',''"
        and c = "CHR ''}''" and toks = "\<lambda>p. StrTok (fst p) # Punct CHR '':'' # doc_tokens (norm_keys (snd p))" and r = r]
    by (simp add: commas_sep_by sort_key_map_snd [of "dumps frepr"] sort_key_map_snd [of norm_keys] comp_def)
qed (simp_all add: tokenise_number scan_show_int)

definition expects_value :: "json_mode \<Rightarrow> bool" where
  "expects_value m \<longleftrightarrow> m = WantValue \<or> m = WantItem"

lemma run_step [simp]:
  "expects_value m \<Longrightarrow> run_tokens m st (AtomTok v # toks) = run_tokens (Have v) st toks"
  "expects_value m \<Longrightarrow> run_tokens m st (StrTok s # toks) = run_tokens (Have (JStr s)) st toks"
  "expects_value m \<Longrightarrow> run_tokens m st (Punct CHR ''['' # toks) = run_tokens WantItem (ArrFrame [] # st) toks"
  "expects_value m \<Longrightarrow> run_tokens m st (Punct CHR ''{'' # toks) = run_tokens WantMember (ObjFrame [] # st) toks"
  "run_tokens WantItem (ArrFrame xs # st) (Punct CHR '']'' # toks) = run_tokens (Have (JList xs)) st toks"
  "run_tokens WantMember (ObjFrame d # st) (Punct CHR ''}'' # toks) = run_tokens (Have (JObj d)) st toks"
  "run_tokens (Have v) (ArrFrame xs # st) (Punct CHR '','' # toks) = run_tokens WantValue (ArrFrame (xs @ [v]) # st) toks"
  "run_tokens (Have v) (ArrFrame xs # st) (Punct CHR '']'' # toks) = run_tokens (Have (JList (xs @ [v]))) st toks"
  "m = WantMember \<or> m = WantName \<Longrightarrow>
     run_tokens m (ObjFrame d # st) (StrTok s # Punct CHR '':'' # toks) = run_tokens WantValue (NameFrame d s # st) toks"
  "run_tokens (Have v) (NameFrame d s # st) (Punct CHR '','' # toks) = run_tokens WantName (ObjFrame (AList.update s v d) # st) toks"
  "run_tokens (Have v) (NameFrame d s # st) (Punct CHR ''}'' # toks) = run_tokens (Have (JObj (AList.update s v d))) st toks"
  by (auto simp: expects_value_def json_step_def read_value_def read_name_def close_frame_def after_value_def add_value_def)

declare run_tokens.simps(2) [simp del]

lemma expects_value_simps [simp]: "expects_value WantValue" "expects_value WantItem"
  by (simp_all add: expects_value_def)

lemma run_items:
  assumes "\<And>x m st toks. x \<in> set xs \<Longrightarrow> expects_value m \<Longrightarrow> run_tokens m st (doc_tokens x @ toks) = run_tokens (Have x) st toks"
    and "m = WantItem \<or> m = WantValue \<and> xs \<noteq> []"
  shows "run_tokens m (ArrFrame ys # st) (sep_by [Punct CHR '',''] (map doc_tokens xs) @ Punct CHR '']'' # toks)
    = run_tokens (Have (JList (ys @ xs))) st toks"
  using assms
proof (induction xs arbitrary: m ys rule: induct_list012)
  case (3 x y zs)
  have "run_tokens m (ArrFrame ys # st) (sep_by [Punct CHR '',''] (map doc_tokens (x # y # zs)) @ Punct CHR '']'' # toks)
      = run_tokens WantValue (ArrFrame (ys @ [x]) # st) (sep_by [Punct CHR '',''] (map doc_tokens (y # zs)) @ Punct CHR '']'' # toks)"
    using 3(3) [of x m] 3(4) by (auto simp: expects_value_def)
  also have "\<dots> = run_tokens (Have (JList ((ys @ [x]) @ y # zs))) st toks" using 3(2) 3(3) by simp
  finally show ?case by simp
qed (auto simp: expects_value_def)

lemma run_members:
  assumes "\<And>p st toks. p \<in> set d \<Longrightarrow> run_tokens WantValue st (doc_tokens (snd p) @ toks) = run_tokens (Have (snd p)) st toks"
    and "m = WantMember \<or> m = WantName \<and> d \<noteq> []" "distinct (keys (e @ d))"
  shows "run_tokens m (ObjFrame e # st)
      (sep_by [Punct CHR '',''] (map (\<lambda>p. StrTok (fst p) # Punct CHR '':'' # doc_tokens (snd p)) d) @ Punct CHR ''}'' # toks)
    = run_tokens (Have (JObj (e @ d))) st toks"
  using assms
proof (induction d arbitrary: m e rule: induct_list012)
  case (2 p)
  then have "AList.update (fst p) (snd p) e = e @ [p]" using update_new [of e "fst p" "snd p"] by (auto simp: map_of_eq_None_iff)
  with 2 show ?case by auto
next
  case (3 p q zs)
  have up: "AList.update (fst p) (snd p) e = e @ [p]" using 3(5) update_new [of e "fst p" "snd p"] by (auto simp: map_of_eq_None_iff)
  let ?rest = "sep_by [Punct CHR '',''] (map (\<lambda>p. StrTok (fst p) # Punct CHR '':'' # doc_tokens (snd p)) (q # zs)) @ Punct CHR ''}'' # toks"
  have "run_tokens WantName (ObjFrame (e @ [p]) # st) ?rest = run_tokens (Have (JObj ((e @ [p]) @ q # zs))) st toks"
    by (rule 3(2)) (use 3(3,5) in auto)
  with 3(3) [of p] 3(4) up show ?case by auto
qed auto

lemma run_doc: "printable frepr v \<Longrightarrow> expects_value m \<Longrightarrow> run_tokens m st (doc_tokens v @ toks) = run_tokens (Have v) st toks"
proof (induction v arbitrary: m st toks rule: doc_tokens.induct)
  case (2 xs)
  then show ?case using run_items [of xs WantItem "[]" st toks] by simp
next
  case (3 d)
  then show ?case using run_members [of d WantMember "[]" st toks] by (auto simp: prod.expand)
qed auto

lemma read_wire_text: "printable frepr v \<Longrightarrow> read_json (wire_text frepr v) = Inr v"
  using tokenise_wire [of frepr v "[]"] run_doc [of frepr v WantValue "[]" "[]"] by (simp add: read_json_def)

lemma printable_norm: "printable frepr v \<Longrightarrow> printable frepr (norm_keys v)"
proof (induction v rule: norm_keys.induct)
  case (2 d)
  have "keys (map (\<lambda>p. (fst p, norm_keys (snd p))) d) = keys d" by (simp add: comp_def)
  with 2 show ?case
    using sort_key_map_snd [of norm_keys d] by (auto simp: distinct_map inj_on_def) 
qed auto

lemma read_dumps: "printable frepr v \<Longrightarrow> read_json (dumps frepr v) = Inr (norm_keys v)"
  using tokenise_dumps [of frepr v "[]"] run_doc [OF printable_norm, of frepr v WantValue "[]" "[]"] by (simp add: read_json_def)

section \<open>One line of ASCII\<close>

text \<open>
  \<open>json.dumps\<close> with its defaults prints nothing but printable ASCII, so the document is one line however the
  reader splits lines, no byte of it is zero, and its bytes are its characters.
\<close>

definition plain_char :: "char \<Rightarrow> bool" where
  "plain_char c \<longleftrightarrow> 32 \<le> (of_char c :: nat) \<and> (of_char c :: nat) \<le> 126"

lemma digit_plain: "is_digit c \<Longrightarrow> plain_char c"
  by (simp add: is_digit_def plain_char_def)

lemma plain_consts [simp]:
  "plain_char CHR ''.''" "plain_char CHR ''e''" "plain_char CHR ''E''" "plain_char CHR ''-''" "plain_char CHR ''+''" "plain_char CHR '' ''"
  "plain_char CHR '',''" "plain_char CHR '':''" "plain_char CHR 0x22" "plain_char CHR 0x5C" "plain_char CHR ''u''" "plain_char CHR ''0''"
  "plain_char CHR ''[''" "plain_char CHR '']''" "plain_char CHR ''{''" "plain_char CHR ''}''"
  by (simp_all add: plain_char_def)

lemma takeWhile_plain: "c \<in> set s \<Longrightarrow> c \<in> set (dropWhile is_digit s) \<or> plain_char c"
  using takeWhile_dropWhile_id [of is_digit s] set_takeWhileD [of c is_digit s] digit_plain [of c] by (metis Un_iff set_append)

lemma fraction_plain: "c \<in> set s \<Longrightarrow> c \<in> set (snd (scan_fraction s)) \<or> plain_char c"
  using takeWhile_plain [of c "tl s"] by (cases s) (auto simp: scan_fraction_def split: if_splits)

lemma sign_plain: "c \<in> set s \<Longrightarrow> c \<in> set (snd (sign_split s)) \<or> plain_char c"
  by (cases s) (auto simp: sign_split_def split: if_splits)

lemma exponent_plain: "scan_exponent s = Some (ex, t) \<Longrightarrow> c \<in> set s \<Longrightarrow> c \<in> set t \<or> plain_char c"
  using sign_plain [of c "tl s"] takeWhile_plain [of c "snd (sign_split (tl s))"]
  by (cases s) (auto simp: scan_exponent_def case_prod_unfold Let_def split: if_splits)

lemma number_tail_plain: "number_tail neg ip s = Inr (v, t) \<Longrightarrow> c \<in> set s \<Longrightarrow> c \<in> set t \<or> plain_char c"
  using fraction_plain [of c s]
  by (auto simp: number_tail_def case_prod_unfold Let_def split: if_splits option.splits dest: exponent_plain)

lemma unsigned_plain: "unsigned_number neg s = Inr (v, t) \<Longrightarrow> c \<in> set s \<Longrightarrow> c \<in> set t \<or> plain_char c"
  using takeWhile_plain [of c s] digit_plain [of "hd s"] 
  by (cases s) (auto simp: unsigned_number_def split: if_splits dest: number_tail_plain)

lemma number_plain: "scan_number s = Inr (v, []) \<Longrightarrow> list_all plain_char s"
  using unsigned_plain [of True "tl s" v "[]"] unsigned_plain [of False s v "[]"]
  by (cases s) (auto simp: scan_number_def list_all_iff split: if_splits)

lemma hex_digit_plain: "n < 16 \<Longrightarrow> plain_char (hex_digit n)"
  by (simp add: hex_digit_def digit_def plain_char_def of_char_char_of_small)

lemma ascii_char_plain: "list_all plain_char (ascii_char c)"
proof -
  have "(of_char c :: nat) div 16 < 16" by (simp add: div_less_iff_less_mult)
  then show ?thesis
    by (auto simp: ascii_char_def esc_char_def Let_def hex_digit_plain) (simp_all add: plain_char_def)
qed

lemma ascii_quote_plain: "list_all plain_char (ascii_quote s)"
  using ascii_char_plain by (auto simp: ascii_quote_def list_all_iff)

lemma sep_by_plain: "list_all plain_char s \<Longrightarrow> \<forall>x \<in> set xs. list_all plain_char x \<Longrightarrow> list_all plain_char (sep_by s xs)"
  by (induction s xs rule: sep_by.induct) auto

lemma number_text_plain: "printable frepr (JNum x) \<Longrightarrow> list_all plain_char (dumps frepr (JNum x))"
  by (cases x) (auto intro: number_plain scan_show_int simp: plain_char_def)

lemma wire_text_plain: "printable frepr v \<Longrightarrow> list_all plain_char (wire_text frepr v)"
proof (induction frepr v rule: wire_text.induct)
  case (2 frepr xs)
  then show ?case by (auto intro!: sep_by_plain)
next
  case (3 frepr d)
  then show ?case by (auto intro!: sep_by_plain ascii_quote_plain)
qed (auto simp: ascii_quote_plain number_text_plain, auto simp: plain_char_def)

section \<open>Bytes\<close>

text \<open>
  Strict UTF-8 for the characters the model has; a longer sequence stops with \<open>Unrepresented\<close>, valid or not.
\<close>

fun utf8_decode :: "bytes \<Rightarrow> json_stop + string" where
  "utf8_decode [] = Inr []"
| "utf8_decode (b # bs) =
     (let n = unat b
      in if n < 128 then rbind (utf8_decode bs) (\<lambda>s. Inr (char_of n # s))
         else if n = 194 \<or> n = 195 then
           (case bs of
              [] \<Rightarrow> Inl Malformed
            | c # cs \<Rightarrow>
                if 128 \<le> unat c \<and> unat c < 192 then rbind (utf8_decode cs) (\<lambda>s. Inr (char_of ((n - 192) * 64 + (unat c - 128)) # s))
                else Inl Malformed)
         else if 195 < n \<and> n \<le> 244 then Inl Unrepresented else Inl Malformed)"

text \<open>\<open>json.detect_encoding\<close> finds something else than UTF-8 without a mark: not modelled further.\<close>

definition other_encoding :: "bytes \<Rightarrow> bool" where
  "other_encoding bs \<longleftrightarrow>
     take 2 bs = [0xFE, 0xFF] \<or> take 2 bs = [0xFF, 0xFE] \<or> take 4 bs = [0, 0, 0xFE, 0xFF] \<or> take 3 bs = [0xEF, 0xBB, 0xBF]
     \<or> (4 \<le> length bs \<or> length bs = 2) \<and> (bs ! 0 = 0 \<or> bs ! 1 = 0)"

definition read_json_bytes :: "bytes \<Rightarrow> json_stop + json" where
  "read_json_bytes bs = (if other_encoding bs then Inl Unrepresented else rbind (utf8_decode bs) read_json)"

lemma utf8_decode_char: "utf8_decode (utf8_char c @ bs) = rbind (utf8_decode bs) (\<lambda>s. Inr (c # s))"
proof (cases "(of_char c :: nat) < 128")
  case True
  then show ?thesis by (simp add: utf8_char_def unat_of_nat_byte Let_def)
next
  case False
  define n where "n = (of_char c :: nat)"
  have n: "128 \<le> n" "n < 256" using False by (simp_all add: n_def)
  then have q: "n div 64 = 2 \<or> n div 64 = 3" by auto
  define b1 b2 where "b1 = (of_nat (192 + n div 64) :: 8 word)" and "b2 = (of_nat (128 + n mod 64) :: 8 word)"
  have u: "unat b1 = 192 + n div 64" "unat b2 = 128 + n mod 64"
    unfolding b1_def b2_def by (rule unat_of_nat_byte; use q in auto)+
  have "utf8_char c = [b1, b2]"
    using False by (simp add: utf8_char_def Let_def b1_def b2_def n_def)
  moreover have "char_of ((unat b1 - 192) * 64 + (unat b2 - 128)) = c" unfolding u by (simp add: n_def)
  moreover have "unat b1 = 194 \<or> unat b1 = 195" "128 \<le> unat b2" "unat b2 < 192" unfolding u using q by auto
  ultimately show ?thesis by (auto simp: Let_def)
qed

lemma utf8_decode_utf8 [simp]: "utf8_decode (utf8 s) = Inr s"
  by (induction s) (simp_all add: utf8_def utf8_decode_char)

lemma plain_utf8: "list_all plain_char s \<Longrightarrow> utf8 s = map (\<lambda>c. of_nat (of_char c)) s"
  by (induction s) (auto simp: utf8_def utf8_char_def plain_char_def Let_def)

lemma plain_encoding: "list_all plain_char s \<Longrightarrow> \<not> other_encoding (utf8 s)"
proof
  assume p: "list_all plain_char s" and o: "other_encoding (utf8 s)"
  have range: "unat b \<le> 126 \<and> unat b \<noteq> 0" if "b \<in> set (utf8 s)" for b
    using that p by (auto simp: plain_utf8 list_all_iff plain_char_def unat_of_nat_byte)
  have big: "unat (0xFE :: 8 word) = 254" "unat (0xFF :: 8 word) = 255" "unat (0xEF :: 8 word) = 239" by simp_all
  have "hd (utf8 s) \<in> {0xFE, 0xFF, 0, 0xEF} \<and> utf8 s \<noteq> [] \<or> 0 \<in> set (utf8 s)"
    using o by (cases "utf8 s"; cases "tl (utf8 s)") (auto simp: other_encoding_def)
  then have "254 \<in> unat ` set (utf8 s) \<or> 255 \<in> unat ` set (utf8 s) \<or> 239 \<in> unat ` set (utf8 s) \<or> 0 \<in> unat ` set (utf8 s)"
    using hd_in_set [of "utf8 s"] big by (metis image_eqI insertE singletonD unsigned_0)
  then show False using range by fastforce
qed

lemma read_wire_bytes: "printable frepr v \<Longrightarrow> read_json_bytes (utf8 (wire_text frepr v)) = Inr v"
  by (simp add: read_json_bytes_def plain_encoding wire_text_plain read_wire_text)

section \<open>Canonical bytes\<close>

text \<open>The canonical text of an object starts with two characters of ASCII, so its encoding is recognised.\<close>

lemma dumps_object_start:
  obtains c t where "dumps frepr (JObj d) = CHR ''{'' # c # t" "c = CHR 0x22 \<or> c = CHR ''}''"
proof (cases "sort_key fst (map (\<lambda>p. (fst p, dumps frepr (snd p))) d)")
  case Nil
  then have "dumps frepr (JObj d) = CHR ''{'' # CHR ''}'' # []" by simp
  then show ?thesis by (rule that) simp
next
  case (Cons p ps)
  then show ?thesis by (cases ps) (rule that, simp add: quote_def, simp)+
qed

lemma object_encoding: "\<not> other_encoding (utf8 (dumps frepr (JObj d)))"
proof (rule dumps_object_start [of frepr d])
  fix c t assume "dumps frepr (JObj d) = CHR ''{'' # c # t" "c = CHR 0x22 \<or> c = CHR ''}''"
  then show ?thesis by (auto simp: other_encoding_def utf8_def utf8_char_def)
qed

text \<open>
  C29: what is signed is the document: the canonical bytes of an object, which signatures cover, are JSON text that
  \<open>json.loads\<close> reads as the same document, with nothing but the order of its keys changed.
\<close>
theorem canonical_reads_back:
  assumes "canonical frepr (JObj d) = Inr bs" "printable frepr (JObj d)"
  shows "read_json_bytes bs = Inr (norm_keys (JObj d))"
proof -
  have "bs = utf8 (dumps frepr (JObj d))" using assms(1) by (simp add: canonical_def split: if_splits)
  then show ?thesis
    using object_encoding [of frepr d] read_dumps [OF assms(2)] by (simp add: read_json_bytes_def del: dumps.simps norm_keys.simps)
qed

theorem canonical_reads_back_witness:
  "\<exists>bs. canonical (\<lambda>r. []) (JObj [(''v'', JInt 1), (''id'', JStr [CHR 0xE9, CHR 0x0A])]) = Inr bs
     \<and> read_json_bytes bs = Inr (JObj [(''id'', JStr [CHR 0xE9, CHR 0x0A]), (''v'', JInt 1)])"
proof -
  let ?d = "[(''v'', JInt 1), (''id'', JStr [CHR 0xE9, CHR 0x0A])]"
  have can: "canonical (\<lambda>r. []) (JObj ?d) = Inr (utf8 (dumps (\<lambda>r. []) (JObj ?d)))" by (simp add: canonical_def)
  have norm: "norm_keys (JObj ?d) = JObj [(''id'', JStr [CHR 0xE9, CHR 0x0A]), (''v'', JInt 1)]" by code_simp
  from canonical_reads_back [OF can] show ?thesis
    unfolding norm using can by (simp add: short_intI)
qed

end
