(* ===== verification/Sha256.thy ===== *)
theory Sha256
  imports Canonical
begin

text \<open>
  \<open>hashlib.sha256(data).digest()\<close>, which the mock engine derives its words from: FIPS 180-4 on lists of bytes
  and 32-bit words.
\<close>

unbundle bit_operations_syntax

type_synonym word32 = "32 word"

text \<open>
  The constants are computed as the standard states them: the first 32 bits of the fractional parts of the cube
  roots of the first 64 primes, and of the square roots of the first 8. \<open>root_bits\<close> is the greatest number whose
  \<open>k\<close>-th power is at most \<open>n\<close>, found bit by bit.
\<close>

definition root_bits :: "nat \<Rightarrow> nat \<Rightarrow> nat" where
  "root_bits k n = foldl (\<lambda>r b. if (r + 2 ^ b) ^ k \<le> n then r + 2 ^ b else r) 0 (rev [0..<40])"

definition root_fraction :: "nat \<Rightarrow> nat \<Rightarrow> word32" where
  "root_fraction k p = of_nat (root_bits k (p * 2 ^ (32 * k)))"

definition first_primes :: "nat list" where
  "first_primes = filter (\<lambda>n. 2 \<le> n \<and> list_all (\<lambda>d. n mod d \<noteq> 0) [2..<n]) [0..<312]"

definition ROUND_CONSTANTS :: "word32 list" where
  "ROUND_CONSTANTS = map (root_fraction 3) first_primes"

definition INITIAL_HASH :: "word32 list" where
  "INITIAL_HASH = map (root_fraction 2) ([2, 3, 5, 7, 11, 13, 17, 19])"

definition big_sigma0 :: "word32 \<Rightarrow> word32" where
  "big_sigma0 x = word_rotr 2 x XOR word_rotr 13 x XOR word_rotr 22 x"

definition big_sigma1 :: "word32 \<Rightarrow> word32" where
  "big_sigma1 x = word_rotr 6 x XOR word_rotr 11 x XOR word_rotr 25 x"

definition small_sigma0 :: "word32 \<Rightarrow> word32" where
  "small_sigma0 x = word_rotr 7 x XOR word_rotr 18 x XOR drop_bit 3 x"

definition small_sigma1 :: "word32 \<Rightarrow> word32" where
  "small_sigma1 x = word_rotr 17 x XOR word_rotr 19 x XOR drop_bit 10 x"

definition choose_bits :: "word32 \<Rightarrow> word32 \<Rightarrow> word32 \<Rightarrow> word32" where
  "choose_bits x y z = (x AND y) XOR (NOT x AND z)"

definition majority_bits :: "word32 \<Rightarrow> word32 \<Rightarrow> word32 \<Rightarrow> word32" where
  "majority_bits x y z = (x AND y) XOR (x AND z) XOR (y AND z)"

text \<open>A one bit, zeros to a multiple of 64 bytes, and the length in bits in the last eight of them.\<close>

definition sha_padding :: "nat \<Rightarrow> bytes" where
  "sha_padding n = 0x80 # replicate ((119 - n mod 64) mod 64) 0 @ map (\<lambda>i. of_nat (8 * n div 256 ^ (7 - i))) [0..<8]"

fun words_of_bytes :: "bytes \<Rightarrow> word32 list" where
  "words_of_bytes (a # b # c # d # rest) =
     (push_bit 24 (ucast a) OR push_bit 16 (ucast b) OR push_bit 8 (ucast c) OR ucast d) # words_of_bytes rest"
| "words_of_bytes _ = []"

fun bytes_of_words :: "word32 list \<Rightarrow> bytes" where
  "bytes_of_words [] = []"
| "bytes_of_words (w # ws) = ucast (drop_bit 24 w) # ucast (drop_bit 16 w) # ucast (drop_bit 8 w) # ucast w # bytes_of_words ws"

text \<open>The message schedule, with the words so far newest first.\<close>

fun schedule :: "nat \<Rightarrow> word32 list \<Rightarrow> word32 list" where
  "schedule 0 ws = rev ws"
| "schedule (Suc n) ws = schedule n ((small_sigma1 (ws ! 1) + ws ! 6 + small_sigma0 (ws ! 14) + ws ! 15) # ws)"

fun sha_round :: "word32 list \<Rightarrow> word32 \<times> word32 \<Rightarrow> word32 list" where
  "sha_round [a, b, c, d, e, f, g, h] (k, w) =
     (let t1 = h + big_sigma1 e + choose_bits e f g + k + w; t2 = big_sigma0 a + majority_bits a b c
      in [t1 + t2, a, b, c, d + t1, e, f, g])"
| "sha_round st kw = st"

definition compress :: "word32 list \<Rightarrow> word32 list \<Rightarrow> word32 list" where
  "compress st block = map2 (+) st (foldl sha_round st (zip ROUND_CONSTANTS (schedule 48 (rev block))))"

function compress_all :: "word32 list \<Rightarrow> word32 list \<Rightarrow> word32 list" where
  "compress_all st ws = (if ws = [] then st else compress_all (compress st (take 16 ws)) (drop 16 ws))"
  by pat_completeness auto

termination
  by (relation "measure (length \<circ> snd)") auto

declare compress_all.simps [simp del]

definition sha256 :: "bytes \<Rightarrow> bytes" where
  "sha256 msg = bytes_of_words (compress_all INITIAL_HASH (words_of_bytes (msg @ sha_padding (length msg))))"

section \<open>Length\<close>

lemma length_sha_round: "length st = 8 \<Longrightarrow> length (sha_round st kw) = 8"
  by (cases "(st, kw)" rule: sha_round.cases) (auto simp: Let_def)

lemma length_rounds: "length st = 8 \<Longrightarrow> length (foldl sha_round st kws) = 8"
  by (induction kws arbitrary: st) (simp_all add: length_sha_round)

lemma length_compress_all: "length st = 8 \<Longrightarrow> length (compress_all st ws) = 8"
proof (induction st ws rule: compress_all.induct)
  case (1 st ws)
  then show ?case by (subst compress_all.simps) (simp add: compress_def length_rounds)
qed

lemma length_bytes_of_words: "length (bytes_of_words ws) = 4 * length ws"
  by (induction ws) simp_all

lemma length_sha256 [simp]: "length (sha256 msg) = 32"
  by (simp add: sha256_def length_bytes_of_words length_compress_all INITIAL_HASH_def)

end
