(* ===== verification/Engines.thy ===== *)
theory Engines
  imports Roster JsonText Sha256
begin

text \<open>
  \<open>engines/base.py\<close>, \<open>engines/openai_compat.py\<close>, \<open>engines/mock.py\<close> and \<open>engines/__init__.py\<close>: what
  the peer sees of an inference engine. An engine's stream is the list of what it yields and how it
  ends. The backend's HTTP answer is an argument. \<open>json.loads\<close> is \<open>JsonText\<close>'s; what the model cannot hold
  of the standard library is in the record \<open>pylib\<close>.
\<close>

text \<open>
  What \<open>json.loads\<close> makes of a text with a string that has a character above U+00FF, and of bytes with one or in
  UTF-16 or UTF-32 (\<open>None\<close> is any \<open>ValueError\<close>); \<open>str(exc)\<close>.
\<close>

record pylib =
  odd_text :: "string \<Rightarrow> value_error + json"
  odd_bytes :: "bytes \<Rightarrow> json option"
  crash_text :: "crash \<Rightarrow> string"

definition json_loads :: "pylib \<Rightarrow> string \<Rightarrow> value_error + json" where
  "json_loads L s =
     (case read_json s of
        Inr v \<Rightarrow> Inr v
      | Inl Malformed \<Rightarrow> Inl JsonDecode
      | Inl DigitLimit \<Rightarrow> Inl IntDigits
      | Inl Unrepresented \<Rightarrow> odd_text L s)"

definition loads_bytes :: "pylib \<Rightarrow> bytes \<Rightarrow> json option" where
  "loads_bytes L bs =
     (case read_json_bytes bs of
        Inr v \<Rightarrow> Some v
      | Inl Unrepresented \<Rightarrow> odd_bytes L bs
      | Inl e \<Rightarrow> None)"

text \<open>What was written with the defaults is read back, as text and as UTF-8.\<close>

lemma loads_wire_text:
  assumes "printable frepr v" shows "json_loads L (wire_text frepr v) = Inr v" "loads_bytes L (utf8 (wire_text frepr v)) = Some v"
  using assms by (simp_all add: json_loads_def loads_bytes_def read_wire_text read_wire_bytes)

section \<open>Conversions\<close>

definition trunc_rat :: "rat \<Rightarrow> int" where
  "trunc_rat r = (if 0 \<le> r then \<lfloor>r\<rfloor> else \<lceil>r\<rceil>)"

text \<open>\<open>int(v)\<close> and \<open>float(v)\<close> of a decoded value.\<close>

definition py_int :: "json \<Rightarrow> crash + int" where
  "py_int v =
     (case v of
        JNum (IntN n) \<Rightarrow> Inr n
      | JNum (Flt r) \<Rightarrow> Inr (trunc_rat r)
      | JNum (Inf b) \<Rightarrow> Inl OverflowError
      | JNum NaN \<Rightarrow> Inl (ValueError BadFloat)
      | JBool b \<Rightarrow> Inr (if b then 1 else 0)
      | JStr s \<Rightarrow> (case int_of_str s of None \<Rightarrow> Inl (ValueError BadFloat) | Some n \<Rightarrow> Inr n)
      | JNull \<Rightarrow> Inl TypeError
      | JList xs \<Rightarrow> Inl TypeError
      | JObj d \<Rightarrow> Inl TypeError)"

definition py_float :: "json \<Rightarrow> crash + pynum" where
  "py_float v =
     (case v of
        JNum (IntN n) \<Rightarrow> if float_overflows n then Inl OverflowError else Inr (Flt (of_int n))
      | JNum x \<Rightarrow> Inr x
      | JBool b \<Rightarrow> Inr (Flt (if b then 1 else 0))
      | JStr s \<Rightarrow> (case float_of_str s of None \<Rightarrow> Inl (ValueError BadFloat) | Some x \<Rightarrow> Inr x)
      | JNull \<Rightarrow> Inl TypeError
      | JList xs \<Rightarrow> Inl TypeError
      | JObj d \<Rightarrow> Inl TypeError)"

section \<open>The seam\<close>

text \<open>
  A count is what the engine's JSON held: the adapter tests \<open>isinstance(x, int)\<close>, which a bool passes.
\<close>

record usage =
  u_prompt :: json
  u_completion :: json
  u_finish :: string

record gen_params =
  max_tokens :: int
  temperature :: pynum
  top_p :: pynum

text \<open>The double nearest to 0.7.\<close>

definition DEFAULT_TEMPERATURE :: rat where
  "DEFAULT_TEMPERATURE = 3152519739159347 / 4503599627370496"

definition params_from_request :: "(string \<times> json) list \<Rightarrow> crash + gen_params" where
  "params_from_request body =
     rbind (py_int (obj_get_or body ''max_tokens'' (JInt 512))) (\<lambda>mt.
     rbind (py_float (obj_get_or body ''temperature'' (JNum (Flt DEFAULT_TEMPERATURE)))) (\<lambda>te.
     rbind (py_float (obj_get_or body ''top_p'' (JNum (Flt 1)))) (\<lambda>tp.
     Inr \<lparr>max_tokens = mt, temperature = te, top_p = tp\<rparr>)))"

datatype engine_item = Text string | UsageItem usage

datatype engine_end =
    Finished
  | EngineFailed string \<comment> \<open>\<open>EngineError\<close>\<close>
  | NoAnswer string \<comment> \<open>its subclass \<open>NoAnswerError\<close>\<close>
  | EngineRaised crash \<comment> \<open>anything else\<close>

type_synonym engine_run = "engine_item list \<times> engine_end"

section \<open>Server-sent events\<close>

definition py_strip :: "string \<Rightarrow> string" where
  "py_strip s = rev (dropWhile py_isspace (rev (dropWhile py_isspace s)))"

record sse_frame =
  f_text :: string
  f_reasoning :: string
  f_usage :: "usage option"
  f_finish :: string

definition empty_frame :: sse_frame where
  "empty_frame = \<lparr>f_text = [], f_reasoning = [], f_usage = None, f_finish = []\<rparr>"

definition REASONING_KEYS :: "string list" where
  "REASONING_KEYS = [''reasoning_content'', ''reasoning'']"

definition str_or_empty :: "json \<Rightarrow> string" where
  "str_or_empty v = (case as_str v of None \<Rightarrow> [] | Some s \<Rightarrow> s)"

text \<open>The first key that holds a non-empty string.\<close>

fun reasoning_of :: "(string \<times> json) list \<Rightarrow> string list \<Rightarrow> string" where
  "reasoning_of delta [] = []"
| "reasoning_of delta (k # ks) =
     (if str_or_empty (obj_get delta k) \<noteq> [] then str_or_empty (obj_get delta k) else reasoning_of delta ks)"

definition is_pyint :: "json \<Rightarrow> bool" where
  "is_pyint v = (case v of JNum (IntN n) \<Rightarrow> True | JBool b \<Rightarrow> True | _ \<Rightarrow> False)"

definition usage_of :: "json \<Rightarrow> usage option" where
  "usage_of raw =
     (case as_obj raw of
        None \<Rightarrow> None
      | Some d \<Rightarrow>
          (let p = obj_get d ''prompt_tokens''; c = obj_get d ''completion_tokens''
           in if is_pyint p \<or> is_pyint c
              then Some \<lparr>u_prompt = (if is_pyint p then p else JInt 0),
                         u_completion = (if is_pyint c then c else JInt 0), u_finish = []\<rparr>
              else None))"

definition choice_frame :: "json \<Rightarrow> sse_frame" where
  "choice_frame choices =
     (case choices of
        JList (JObj choice # rest) \<Rightarrow>
          (case as_obj (obj_get choice ''delta'') of
             None \<Rightarrow> empty_frame\<lparr>f_finish := str_or_empty (obj_get choice ''finish_reason'')\<rparr>
           | Some delta \<Rightarrow>
               empty_frame\<lparr>f_text := str_or_empty (obj_get delta ''content''),
                 f_reasoning := reasoning_of delta REASONING_KEYS,
                 f_finish := str_or_empty (obj_get choice ''finish_reason'')\<rparr>)
      | _ \<Rightarrow> empty_frame)"

text \<open>A line that is not JSON is an empty frame; a \<open>ValueError\<close> that is no \<open>JSONDecodeError\<close> is not caught.\<close>

definition parse_sse :: "pylib \<Rightarrow> string \<Rightarrow> crash + sse_frame" where
  "parse_sse L raw =
     (let line = py_strip raw in
      if line = [] \<or> take 1 line = '':'' \<or> take 5 line \<noteq> ''data:'' then Inr empty_frame
      else
        (let payload = py_strip (drop 5 line) in
         if payload = ''[DONE]'' then Inr empty_frame
         else (case json_loads L payload of
             Inl e \<Rightarrow> if e = JsonDecode then Inr empty_frame else Inl (ValueError e)
           | Inr (JObj obj) \<Rightarrow> Inr ((choice_frame (obj_get obj ''choices''))\<lparr>f_usage := usage_of (obj_get obj ''usage'')\<rparr>)
           | Inr v \<Rightarrow> Inr empty_frame)))"

definition sse_delta :: "pylib \<Rightarrow> string \<Rightarrow> crash + string option" where
  "sse_delta L line = rbind (parse_sse L line) (\<lambda>f. Inr (if f_text f = [] then None else Some (f_text f)))"

section \<open>The OpenAI-compatible adapter\<close>

record openai_engine =
  base_url :: string
  oa_model :: json
  oa_name :: json
  oa_version :: json
  api_key :: json
  request_usage :: bool
  include_reasoning :: bool

definition openai_body :: "openai_engine \<Rightarrow> json \<Rightarrow> gen_params \<Rightarrow> json" where
  "openai_body e messages p =
     JObj ([(''model'', oa_model e), (''messages'', messages), (''max_tokens'', JInt (max_tokens p)),
       (''temperature'', JNum (temperature p)), (''top_p'', JNum (top_p p)), (''stream'', JBool True)]
       @ (if request_usage e then [(''stream_options'', JObj [(''include_usage'', JBool True)])] else []))"

text \<open>What the HTTP client sees of the backend, like \<open>peer_answer\<close> of the relay.\<close>

datatype engine_answer =
    EngineDown string
  | EngineStatus int string \<comment> \<open>a status of 400 or more, the decoded body\<close>
  | EngineLines "string list" "string option"

text \<open>The local variables of the loop.\<close>

record sse_state =
  answer_chars :: nat
  reasoning_chars :: nat
  last_usage :: "usage option"
  last_finish :: string

definition sse_start :: sse_state where
  "sse_start = \<lparr>answer_chars = 0, reasoning_chars = 0, last_usage = None, last_finish = []\<rparr>"

definition sse_update :: "sse_frame \<Rightarrow> sse_state \<Rightarrow> sse_state" where
  "sse_update f st =
     \<lparr>answer_chars = answer_chars st + length (f_text f),
      reasoning_chars = reasoning_chars st + length (f_reasoning f),
      last_usage = (case f_usage f of None \<Rightarrow> last_usage st | Some u \<Rightarrow> Some u),
      last_finish = (if f_finish f \<noteq> [] then f_finish f else last_finish st)\<rparr>"

definition sse_yields :: "bool \<Rightarrow> sse_frame \<Rightarrow> string list" where
  "sse_yields inc f =
     (if f_reasoning f \<noteq> [] \<and> inc then [f_reasoning f] else []) @ (if f_text f \<noteq> [] then [f_text f] else [])"

text \<open>What the loop yields, its state at the end, and the exception that ended it.\<close>

fun sse_loop :: "pylib \<Rightarrow> bool \<Rightarrow> sse_state \<Rightarrow> string list \<Rightarrow> string list \<times> sse_state \<times> crash option" where
  "sse_loop L inc st [] = ([], st, None)"
| "sse_loop L inc st (line # rest) =
     (case parse_sse L line of
        Inl c \<Rightarrow> ([], st, Some c)
      | Inr f \<Rightarrow>
          (let (out, st', c) = sse_loop L inc (sse_update f st) rest
           in (sse_yields inc f @ out, st', c)))"

definition no_answer_message :: "sse_state \<Rightarrow> string" where
  "no_answer_message st =
     ''engine spent its budget on reasoning and returned no answer ('' @ show_int (int (reasoning_chars st))
     @ '' characters of reasoning, finish_reason='' @ (if last_finish st = [] then ''unset'' else last_finish st)
     @ ''); raise max_tokens, or set '' @ CHR 0x22 # ''include_reasoning'' @ CHR 0x22 # '': true on the engine spec to keep the thinking''"

definition final_usage :: "sse_state \<Rightarrow> engine_item list" where
  "final_usage st =
     (case last_usage st of
        Some u \<Rightarrow> [UsageItem (u\<lparr>u_finish := last_finish st\<rparr>)]
      | None \<Rightarrow>
          if last_finish st = ''length'' then [UsageItem \<lparr>u_prompt = JInt 0, u_completion = JInt 0, u_finish = last_finish st\<rparr>]
          else [])"

definition openai_stream :: "pylib \<Rightarrow> openai_engine \<Rightarrow> engine_answer \<Rightarrow> engine_run" where
  "openai_stream L e ans =
     (case ans of
        EngineDown exc \<Rightarrow> ([], EngineFailed (''engine unreachable at '' @ base_url e @ '': '' @ exc))
      | EngineStatus code detail \<Rightarrow> ([], EngineFailed (''engine returned '' @ show_int code @ '': '' @ take 400 detail))
      | EngineLines rows broken \<Rightarrow>
          (let (out, st, crash) = sse_loop L (include_reasoning e) sse_start rows in
           case (crash, broken) of
             (Some c, _) \<Rightarrow> (map Text out, EngineRaised c)
           | (None, Some exc) \<Rightarrow> (map Text out, EngineFailed (''engine unreachable at '' @ base_url e @ '': '' @ exc))
           | (None, None) \<Rightarrow>
               if reasoning_chars st \<noteq> 0 \<and> answer_chars st = 0 \<and> \<not> include_reasoning e
               then (map Text out, NoAnswer (no_answer_message st))
               else (map Text out @ final_usage st, Finished)))"

text \<open>\<open>health\<close> and \<open>models\<close>: the status, or no answer; the body as JSON, or none.\<close>

definition openai_health :: "int option \<Rightarrow> bool" where
  "openai_health status = (case status of None \<Rightarrow> False | Some code \<Rightarrow> code < 500)"

definition model_id :: "json \<Rightarrow> string list" where
  "model_id m = (case as_obj m of None \<Rightarrow> [] | Some d \<Rightarrow> (case as_str (obj_get d ''id'') of None \<Rightarrow> [] | Some s \<Rightarrow> [s]))"

definition openai_models :: "(int \<times> json option) option \<Rightarrow> string list" where
  "openai_models ans =
     (case ans of
        Some (code, Some (JObj d)) \<Rightarrow>
          if 400 \<le> code then []
          else (case as_list (obj_get d ''data'') of None \<Rightarrow> [] | Some xs \<Rightarrow> concat (map model_id xs))
      | _ \<Rightarrow> [])"

section \<open>The mock engine\<close>

record mock_engine =
  mk_model :: json
  mk_delay :: pynum
  mk_tokens :: int

definition MOCK_WORDS :: "string list" where
  "MOCK_WORDS = [''alpha'', ''bravo'', ''charlie'', ''delta'', ''echo'', ''foxtrot'', ''golf'', ''hotel'', ''india'',
     ''juliet'', ''kilo'', ''lima'', ''mike'', ''november'', ''oscar'', ''papa'', ''quebec'', ''romeo'', ''sierra'', ''tango'']"

fun join_lines :: "string list \<Rightarrow> string" where
  "join_lines [] = []"
| "join_lines [x] = x"
| "join_lines (x # y # ys) = x @ CHR 0x0A # join_lines (y # ys)"

text \<open>\<open>"\n".join\<close> first collects \<open>m.get("content", "")\<close> of every message, then wants strings.\<close>

definition message_content :: "json \<Rightarrow> crash + json" where
  "message_content m =
     (case as_obj m of None \<Rightarrow> Inl AttributeError | Some d \<Rightarrow> Inr (obj_get_or d ''content'' (JStr [])))"

definition mock_prompt :: "json list \<Rightarrow> crash + string" where
  "mock_prompt messages =
     rbind (rmap message_content messages) (\<lambda>vs.
     rbind (rmap (\<lambda>v. case as_str v of None \<Rightarrow> Inl TypeError | Some s \<Rightarrow> Inr s) vs) (\<lambda>ss.
     Inr (join_lines ss)))"

definition mock_word :: "bytes \<Rightarrow> nat \<Rightarrow> string" where
  "mock_word seed i =
     (if i = 0 then [] else '' '') @ MOCK_WORDS ! (unat (seed ! (i mod length seed)) mod length MOCK_WORDS)"

definition mock_stream :: "mock_engine \<Rightarrow> json list \<Rightarrow> gen_params \<Rightarrow> engine_run" where
  "mock_stream e messages p =
     (case mock_prompt messages of
        Inl c \<Rightarrow> ([], EngineRaised c)
      | Inr prompt \<Rightarrow>
          (let seed = sha256 (utf8 prompt); count = min (mk_tokens e) (max_tokens p)
           in (map (\<lambda>i. Text (mock_word seed i)) [0..<nat count]
               @ [UsageItem \<lparr>u_prompt = JInt (int (length (py_split prompt))), u_completion = JInt count,
                    u_finish = (if count < mk_tokens e then ''length'' else ''stop'')\<rparr>], Finished)))"

section \<open>Building an engine\<close>

datatype engine = MockEngine mock_engine | OpenAI openai_engine

datatype spec_error = SpecMissing string | UnknownEngineKind json | SpecCrash crash

definition rstrip_slash :: "string \<Rightarrow> string" where
  "rstrip_slash s = rev (dropWhile (\<lambda>c. c = CHR ''/'') (rev s))"

definition spec_field :: "(string \<times> json) list \<Rightarrow> string \<Rightarrow> spec_error + json" where
  "spec_field d k = (case map_of d k of None \<Rightarrow> Inl (SpecMissing k) | Some v \<Rightarrow> Inr v)"

definition build_engine :: "json \<Rightarrow> spec_error + engine" where
  "build_engine spec =
     (case as_obj spec of
        None \<Rightarrow> Inl (SpecCrash AttributeError)
      | Some d \<Rightarrow>
          (let kind = obj_get_or d ''kind'' (JStr ''mock'') in
           if kind = JStr ''mock'' then
             rbind (map_error SpecCrash (py_float (obj_get_or d ''delay'' (JNum (Flt 0))))) (\<lambda>delay.
             rbind (map_error SpecCrash (py_int (obj_get_or d ''tokens'' (JInt 8)))) (\<lambda>tokens.
             Inr (MockEngine \<lparr>mk_model = obj_get_or d ''model'' (JStr ''mock-1b''), mk_delay = delay, mk_tokens = tokens\<rparr>)))
           else if kind = JStr ''openai'' \<or> kind = JStr ''openai-compat'' then
             rbind (spec_field d ''base_url'') (\<lambda>url.
             rbind (spec_field d ''model'') (\<lambda>model.
             case as_str url of
               None \<Rightarrow> Inl (SpecCrash AttributeError)
             | Some u \<Rightarrow>
                 Inr (OpenAI \<lparr>base_url = rstrip_slash u, oa_model = model,
                   oa_name = obj_get_or d ''name'' (JStr ''openai-compat''),
                   oa_version = obj_get_or d ''version'' (JStr ''unknown''), api_key = obj_get d ''api_key'',
                   request_usage = True,
                   include_reasoning = truthy (obj_get_or d ''include_reasoning'' (JBool False))\<rparr>)))
           else Inl (UnknownEngineKind kind)))"

section \<open>The adapter loop against its frames\<close>

lemma sse_update_simps [simp]:
  "answer_chars (sse_update f st) = answer_chars st + length (f_text f)"
  "reasoning_chars (sse_update f st) = reasoning_chars st + length (f_reasoning f)"
  by (simp_all add: sse_update_def)

lemma sse_update_empty [simp]: "sse_update empty_frame st = st"
  by (simp add: sse_update_def empty_frame_def)

lemma sse_yields_empty [simp]: "sse_yields inc empty_frame = []"
  by (simp add: sse_yields_def empty_frame_def)

lemma sse_yields_nonempty: "s \<in> set (sse_yields inc f) \<Longrightarrow> s \<noteq> []"
  by (auto simp: sse_yields_def split: if_splits)

text \<open>The frames up to the first line that raises, and what the loop computes, stated over all of them at once.\<close>

fun sse_frames :: "pylib \<Rightarrow> string list \<Rightarrow> sse_frame list \<times> crash option" where
  "sse_frames L [] = ([], None)"
| "sse_frames L (r # rows) =
     (case parse_sse L r of
        Inl c \<Rightarrow> ([], Some c)
      | Inr f \<Rightarrow> (f # fst (sse_frames L rows), snd (sse_frames L rows)))"

lemma sse_loop_frames:
  "sse_loop L inc st rows =
     (let (fs, c) = sse_frames L rows in (concat (map (sse_yields inc) fs), fold sse_update fs st, c))"
  by (induction rows arbitrary: st) (simp_all add: Let_def case_prod_unfold split: sum.split)

lemma fold_update_chars:
  "answer_chars (fold sse_update fs st) = answer_chars st + length (concat (map f_text fs))"
  "reasoning_chars (fold sse_update fs st) = reasoning_chars st + length (concat (map f_reasoning fs))"
  by (induction fs arbitrary: st) simp_all

lemma yields_text: "concat (concat (map (sse_yields False) fs)) = concat (map f_text fs)"
  by (induction fs) (auto simp: sse_yields_def)

lemma sse_loop_noise:
  "sse_loop L inc st (filter (\<lambda>r. parse_sse L r \<noteq> Inr empty_frame) rows) = sse_loop L inc st rows"
  by (induction rows arbitrary: st) (simp_all add: Let_def case_prod_unfold split: sum.split)

lemma sse_frames_all: "snd (sse_frames L rows) = None \<Longrightarrow> length (fst (sse_frames L rows)) = length rows"
  by (induction rows) (auto split: sum.splits)

definition texts :: "engine_item list \<Rightarrow> string list" where
  "texts items = concat (map (\<lambda>i. case i of Text s \<Rightarrow> [s] | UsageItem u \<Rightarrow> []) items)"

lemma texts_simps [simp]:
  "texts [] = []" "texts (Text s # items) = s # texts items" "texts (UsageItem u # items) = texts items"
  "texts (xs @ ys) = texts xs @ texts ys" "texts (map Text ss) = ss"
  by (simp_all add: texts_def) (induction ss; simp)

lemma texts_final_usage [simp]: "texts (final_usage st) = []"
  by (simp add: final_usage_def split: option.splits)

section \<open>Properties\<close>

text \<open>
  What a backend says in a line, key by key: a data line with an object whose first choice has a delta, which holds a
  piece of the answer, a piece of reasoning (under the first of two keys with a string that is not empty), or
  neither. Every other line says nothing; one with a number of too many digits cannot be read at all.
\<close>

inductive data_line :: "string \<Rightarrow> string \<Rightarrow> bool" where
  "py_strip line = ''data:'' @ p \<Longrightarrow> payload = py_strip p \<Longrightarrow> payload \<noteq> ''[DONE]'' \<Longrightarrow> data_line line payload"

inductive holds_text :: "(string \<times> json) list \<Rightarrow> string \<Rightarrow> string \<Rightarrow> bool" for d k where
  "obj_get d k = JStr t \<Longrightarrow> t \<noteq> [] \<Longrightarrow> holds_text d k t"

definition lacks_text :: "(string \<times> json) list \<Rightarrow> string \<Rightarrow> bool" where
  "lacks_text d k \<longleftrightarrow> (\<forall>t. \<not> holds_text d k t)"

inductive thinks :: "(string \<times> json) list \<Rightarrow> string \<Rightarrow> bool" for d where
  "holds_text d ''reasoning_content'' r \<Longrightarrow> thinks d r"
| "lacks_text d ''reasoning_content'' \<Longrightarrow> holds_text d ''reasoning'' r \<Longrightarrow> thinks d r"
| "lacks_text d ''reasoning_content'' \<Longrightarrow> lacks_text d ''reasoning'' \<Longrightarrow> thinks d []"

inductive delta_line :: "pylib \<Rightarrow> string \<Rightarrow> (string \<times> json) list \<Rightarrow> bool" for L where
  "data_line line payload \<Longrightarrow> json_loads L payload = Inr (JObj obj) \<Longrightarrow> obj_get obj ''choices'' = JList (JObj choice # rest) \<Longrightarrow>
   obj_get choice ''delta'' = JObj delta \<Longrightarrow> delta_line L line delta"

text \<open>The reasoning and the answer of a line.\<close>

inductive says :: "pylib \<Rightarrow> string \<Rightarrow> string \<times> string \<Rightarrow> bool" for L where
  "delta_line L line d \<Longrightarrow> thinks d r \<Longrightarrow> holds_text d ''content'' t \<or> (lacks_text d ''content'' \<and> t = []) \<Longrightarrow> says L line (r, t)"
| "(\<forall>d. \<not> delta_line L line d) \<Longrightarrow> says L line ([], [])"

inductive chokes :: "pylib \<Rightarrow> string \<Rightarrow> bool" for L where
  "data_line line payload \<Longrightarrow> json_loads L payload = Inl e \<Longrightarrow> e \<noteq> JsonDecode \<Longrightarrow> chokes L line"

lemma holds_text_iff: "holds_text d k t \<longleftrightarrow> str_or_empty (obj_get d k) = t \<and> t \<noteq> []"
  by (cases "obj_get d k") (auto simp: holds_text.simps str_or_empty_def)

lemma lacks_text_iff: "lacks_text d k \<longleftrightarrow> str_or_empty (obj_get d k) = []"
  by (auto simp: lacks_text_def holds_text_iff)

lemma thinks_iff: "thinks d r \<longleftrightarrow> reasoning_of d REASONING_KEYS = r"
  by (auto simp: thinks.simps holds_text_iff lacks_text_iff REASONING_KEYS_def)

lemma data_line_iff:
  "data_line line payload \<longleftrightarrow> take 5 (py_strip line) = ''data:'' \<and> payload = py_strip (drop 5 (py_strip line)) \<and> payload \<noteq> ''[DONE]''"
proof -
  have "py_strip line = ''data:'' @ p \<longleftrightarrow> take 5 (py_strip line) = ''data:'' \<and> p = drop 5 (py_strip line)" for p
  proof
    assume "take 5 (py_strip line) = ''data:'' \<and> p = drop 5 (py_strip line)"
    then show "py_strip line = ''data:'' @ p" by (metis append_take_drop_id)
  qed simp
  then show ?thesis by (auto simp: data_line.simps)
qed

text \<open>The first choice's delta, read through the shapes the adapter checks.\<close>

definition delta_in :: "json \<Rightarrow> (string \<times> json) list option" where
  "delta_in choices = (case choices of JList (JObj choice # rest) \<Rightarrow> as_obj (obj_get choice ''delta'') | _ \<Rightarrow> None)"

lemma delta_in_Some: "delta_in v = Some d \<longleftrightarrow> (\<exists>choice rest. v = JList (JObj choice # rest) \<and> obj_get choice ''delta'' = JObj d)"
  by (auto simp: delta_in_def elim: as_obj.elims split: json.splits list.splits)

lemma choice_frame_delta:
  "(f_reasoning (choice_frame v), f_text (choice_frame v))
     = (case delta_in v of None \<Rightarrow> ([], []) | Some d \<Rightarrow> (reasoning_of d REASONING_KEYS, str_or_empty (obj_get d ''content'')))"
  by (simp add: delta_in_def choice_frame_def empty_frame_def split: json.split list.split option.split)

lemma parse_sse_payload:
  assumes "data_line line payload"
  shows "parse_sse L line = (case json_loads L payload of
      Inl e \<Rightarrow> if e = JsonDecode then Inr empty_frame else Inl (ValueError e)
    | Inr (JObj obj) \<Rightarrow> Inr ((choice_frame (obj_get obj ''choices''))\<lparr>f_usage := usage_of (obj_get obj ''usage'')\<rparr>)
    | Inr v \<Rightarrow> Inr empty_frame)"
proof -
  have "take 5 (py_strip line) = ''data:''" "payload = py_strip (drop 5 (py_strip line))" "payload \<noteq> ''[DONE]''"
    using assms unfolding data_line_iff by blast+
  moreover then obtain p where "py_strip line = ''data:'' @ p" by (metis append_take_drop_id)
  ultimately show ?thesis by (simp add: parse_sse_def Let_def)
qed

lemma parse_sse_other: "(\<And>payload. \<not> data_line line payload) \<Longrightarrow> parse_sse L line = Inr empty_frame"
  by (auto simp: parse_sse_def data_line_iff Let_def)

lemma says_delta:
  assumes "\<And>d. delta_line L line d \<longleftrightarrow> d' = Some d"
  shows "says L line x \<longleftrightarrow> x = (case d' of None \<Rightarrow> ([], []) | Some d \<Rightarrow> (reasoning_of d REASONING_KEYS, str_or_empty (obj_get d ''content'')))"
  by (cases d'; cases x) (auto simp: says.simps assms thinks_iff holds_text_iff lacks_text_iff)

lemma parse_sse_reads:
  "case parse_sse L line of Inl c \<Rightarrow> chokes L line | Inr f \<Rightarrow> \<not> chokes L line \<and> (\<forall>x. says L line x \<longleftrightarrow> x = (f_reasoning f, f_text f))"
proof (cases "\<exists>payload. data_line line payload")
  case False
  then have "parse_sse L line = Inr empty_frame" by (simp add: parse_sse_other)
  moreover have "\<not> chokes L line" "\<not> delta_line L line d" for d using False by (auto simp: chokes.simps delta_line.simps)
  ultimately show ?thesis using says_delta [of L line None] by (simp add: empty_frame_def)
next
  case True
  then obtain payload where p: "data_line line payload" by blast
  then have only: "data_line line payload' \<longleftrightarrow> payload' = payload" for payload' by (auto simp: data_line_iff)
  have chokes: "chokes L line \<longleftrightarrow> (\<exists>e. json_loads L payload = Inl e \<and> e \<noteq> JsonDecode)" by (simp add: chokes.simps only)
  have delta: "delta_line L line d \<longleftrightarrow> (case json_loads L payload of Inr (JObj obj) \<Rightarrow> delta_in (obj_get obj ''choices'') | _ \<Rightarrow> None) = Some d" for d
    by (simp add: delta_line.simps only delta_in_Some split: sum.split json.split)
  show ?thesis
    unfolding parse_sse_payload [OF p] chokes says_delta [OF delta]
    by (simp add: empty_frame_def flip: choice_frame_delta split: sum.split json.split)
qed

lemma sse_frames_says:
  "list_all2 (says L) (takeWhile (\<lambda>r. \<not> chokes L r) rows) (map (\<lambda>f. (f_reasoning f, f_text f)) (fst (sse_frames L rows)))
   \<and> (snd (sse_frames L rows) = None \<longleftrightarrow> (\<forall>r \<in> set rows. \<not> chokes L r))"
proof (induction rows)
  case (Cons r rows)
  with parse_sse_reads [of L r] show ?case by (cases "parse_sse L r") simp_all
qed simp

text \<open>
  C20: the adapter never returns a silently empty answer and never drops one: over any lines a backend
  sends, its text is exactly the pieces of answer they hold in order (with the reasoning in between only when
  asked for), no yielded text is empty, it ends with \<open>NoAnswer\<close> exactly when there was reasoning, no answer and
  the reasoning was not asked for, and otherwise finishes; only a number of too many digits ends it early, with
  an exception and what came before it.
\<close>
theorem openai_stream_faithful:
  assumes "openai_stream L e (EngineLines rows None) = (items, fin)" "good = takeWhile (\<lambda>r. \<not> chokes L r) rows"
  shows "\<exists>said. list_all2 (says L) good said
    \<and> texts items = concat (map (\<lambda>(r, t). (if r \<noteq> [] \<and> include_reasoning e then [r] else []) @ (if t \<noteq> [] then [t] else [])) said)
    \<and> (\<not> include_reasoning e \<longrightarrow> concat (texts items) = concat (map snd said))
    \<and> list_all (\<lambda>s. s \<noteq> []) (texts items)
    \<and> ((\<exists>c. fin = EngineRaised c) \<longleftrightarrow> good \<noteq> rows)
    \<and> ((\<exists>m. fin = NoAnswer m) \<longleftrightarrow> good = rows \<and> \<not> include_reasoning e \<and> (\<forall>(r, t) \<in> set said. t = []) \<and> (\<exists>(r, t) \<in> set said. r \<noteq> []))
    \<and> (good = rows \<longrightarrow> (\<exists>m. fin = NoAnswer m) \<or> fin = Finished)"
proof -
  define fs where "fs = fst (sse_frames L rows)"
  define crash where "crash = snd (sse_frames L rows)"
  define said where "said = map (\<lambda>f. (f_reasoning f, f_text f)) fs"
  define out where "out = concat (map (sse_yields (include_reasoning e)) fs)"
  define st where "st = fold sse_update fs sse_start"
  have frames: "sse_frames L rows = (fs, crash)" by (simp add: fs_def crash_def)
  have run: "(items, fin) = (case crash of Some c \<Rightarrow> (map Text out, EngineRaised c) | None \<Rightarrow>
      if reasoning_chars st \<noteq> 0 \<and> answer_chars st = 0 \<and> \<not> include_reasoning e
      then (map Text out, NoAnswer (no_answer_message st)) else (map Text out @ final_usage st, Finished))"
    unfolding assms(1) [symmetric] openai_stream_def
    by (simp add: sse_loop_frames frames flip: out_def st_def split: option.split)
  then have t: "texts items = out" by (auto split: if_splits option.splits)
  have chars: "reasoning_chars st \<noteq> 0 \<longleftrightarrow> (\<exists>f \<in> set fs. f_reasoning f \<noteq> [])" "answer_chars st = 0 \<longleftrightarrow> (\<forall>f \<in> set fs. f_text f = [])"
    by (simp_all add: st_def fold_update_chars sse_start_def)
  have good: "list_all2 (says L) good said" "crash = None \<longleftrightarrow> good = rows"
    using sse_frames_says [of L rows] by (auto simp: assms(2) said_def fs_def crash_def takeWhile_eq_all_conv)
  have "out = concat (map (\<lambda>(r, t). (if r \<noteq> [] \<and> include_reasoning e then [r] else []) @ (if t \<noteq> [] then [t] else [])) said)"
    by (simp add: out_def said_def sse_yields_def [abs_def] comp_def)
  moreover have "(\<exists>m. fin = NoAnswer m) \<longleftrightarrow> good = rows \<and> \<not> include_reasoning e \<and> (\<forall>(r, t) \<in> set said. t = []) \<and> (\<exists>(r, t) \<in> set said. r \<noteq> [])"
    using run chars good(2) by (auto simp: said_def split: if_splits option.splits)
  moreover have "(\<exists>c. fin = EngineRaised c) \<longleftrightarrow> good \<noteq> rows" "good = rows \<longrightarrow> (\<exists>m. fin = NoAnswer m) \<or> fin = Finished"
    using run good(2) by (auto split: if_splits option.splits)
  moreover have "\<not> include_reasoning e \<longrightarrow> concat (texts items) = concat (map snd said)"
    using yields_text [of fs] by (simp add: t out_def said_def comp_def)
  moreover have "list_all (\<lambda>s. s \<noteq> []) (texts items)" by (auto simp: t out_def list_all_iff dest: sse_yields_nonempty)
  ultimately show ?thesis using good(1) by (intro exI [of _ said]) (simp add: t)
qed

text \<open>
  keep-alives, comments, blank lines, terminal markers and frames that do not parse are ignored wherever
  they come in the stream: the adapter's run is the one over the meaningful frames only.
\<close>
theorem openai_ignores_noise:
  "openai_stream L e (EngineLines (filter (\<lambda>r. parse_sse L r \<noteq> Inr empty_frame) rows) broken)
     = openai_stream L e (EngineLines rows broken)"
  by (simp add: openai_stream_def sse_loop_noise)

text \<open>
  the mock engine yields as many words as it was asked for, up to its own number, none of them empty,
  then exact counts, and says \<open>length\<close> exactly when the request cut it off.
\<close>
theorem mock_stream_counts:
  assumes "mock_prompt messages = Inr prompt" "0 \<le> max_tokens p" "0 \<le> mk_tokens e"
  shows "\<exists>u. mock_stream e messages p = (map Text (texts (fst (mock_stream e messages p))) @ [UsageItem u], Finished)
    \<and> u_completion u = JInt (int (length (texts (fst (mock_stream e messages p)))))
    \<and> int (length (texts (fst (mock_stream e messages p)))) = min (mk_tokens e) (max_tokens p)
    \<and> list_all (\<lambda>s. s \<noteq> []) (texts (fst (mock_stream e messages p)))
    \<and> (u_finish u = ''length'' \<longleftrightarrow> max_tokens p < mk_tokens e)"
proof -
  define words where "words = map (mock_word (sha256 (utf8 prompt))) [0..<nat (min (mk_tokens e) (max_tokens p))]"
  have items: "map (\<lambda>i. Text (mock_word (sha256 (utf8 prompt)) i)) [0..<nat (min (mk_tokens e) (max_tokens p))] = map Text words"
    by (simp add: words_def)
  have "list_all (\<lambda>s. s \<noteq> []) MOCK_WORDS" by (simp add: MOCK_WORDS_def)
  then have "MOCK_WORDS ! (k mod length MOCK_WORDS) \<noteq> []" for k
    by (simp add: list_all_length MOCK_WORDS_def)
  then have "list_all (\<lambda>s. s \<noteq> []) words" by (simp add: words_def mock_word_def list_all_iff)
  moreover have "int (length words) = min (mk_tokens e) (max_tokens p)" using assms(2,3) by (simp add: words_def)
  ultimately show ?thesis using assms(1)
    by (simp add: mock_stream_def items Let_def split del: if_split) auto
qed

section \<open>Witnesses\<close>

text \<open>A frame with one delta, as a backend writes it.\<close>

definition demo_delta :: "string \<Rightarrow> string \<Rightarrow> string" where
  "demo_delta k v = ''data: '' @ wire_text (\<lambda>r. []) (JObj [(''choices'', JList [JObj [(''delta'', JObj [(k, JStr v)])]])])"

definition demo_lib :: pylib where
  "demo_lib = \<lparr>odd_text = (\<lambda>s. Inl JsonDecode), odd_bytes = (\<lambda>bs. None), crash_text = (\<lambda>c. [])\<rparr>"

definition demo_openai :: openai_engine where
  "demo_openai = \<lparr>base_url = ''u'', oa_model = JStr ''m'', oa_name = JStr ''n'', oa_version = JStr ''v'', api_key = JNull,
     request_usage = True, include_reasoning = False\<rparr>"

definition demo_lines :: "string list" where
  "demo_lines = ['': ping'', demo_delta ''reasoning'' ''hm'', ''data: [DONE]'', ''data: {'']"

lemma demo_thinking:
  "openai_stream demo_lib demo_openai (EngineLines demo_lines None) = ([], NoAnswer (no_answer_message (sse_start\<lparr>reasoning_chars := 2\<rparr>)))"
  by code_simp

definition demo_talk :: "string list" where
  "demo_talk = demo_delta ''content'' ''be '' # demo_lines @ [demo_delta ''content'' ''hi'']"

theorem openai_stream_faithful_witness:
  "\<exists>said. list_all2 (says demo_lib) demo_talk said \<and> concat (map snd said) = ''be hi'' \<and> (\<exists>(r, t) \<in> set said. r \<noteq> [])"
proof -
  have run: "openai_stream demo_lib demo_openai (EngineLines demo_talk None) = ([Text ''be '', Text ''hi''], Finished)" by code_simp
  have think: "parse_sse demo_lib (demo_delta ''reasoning'' ''hm'') = Inr (empty_frame\<lparr>f_reasoning := ''hm''\<rparr>)" by code_simp
  obtain said where "list_all2 (says demo_lib) (takeWhile (\<lambda>r. \<not> chokes demo_lib r) demo_talk) said"
      "concat [''be '', ''hi''] = concat (map snd said)"
      "(\<exists>c. Finished = EngineRaised c) \<longleftrightarrow> takeWhile (\<lambda>r. \<not> chokes demo_lib r) demo_talk \<noteq> demo_talk"
    using openai_stream_faithful [OF run refl] by (simp add: demo_openai_def del: takeWhile_eq_all_conv) metis
  then have all: "list_all2 (says demo_lib) demo_talk said" and said: "concat (map snd said) = ''be hi''"
    by (simp_all del: takeWhile_eq_all_conv)
  have "demo_talk ! 2 = demo_delta ''reasoning'' ''hm''" "2 < length demo_talk" by (simp_all add: demo_talk_def demo_lines_def)
  with all have "says demo_lib (demo_delta ''reasoning'' ''hm'') (said ! 2)" "said ! 2 \<in> set said"
    by (auto simp: list_all2_conv_all_nth)
  then have "said ! 2 = (''hm'', [])" using parse_sse_reads [of demo_lib "demo_delta ''reasoning'' ''hm''"] by (cases "said ! 2") (simp add: think empty_frame_def)
  with \<open>said ! 2 \<in> set said\<close> have "\<exists>(r, t) \<in> set said. r \<noteq> []" by force
  with all said show ?thesis by blast
qed

definition demo_mock :: mock_engine where
  "demo_mock = \<lparr>mk_model = JStr ''mock-1b'', mk_delay = Flt 0, mk_tokens = 8\<rparr>"

definition demo_params :: gen_params where
  "demo_params = \<lparr>max_tokens = 2, temperature = Flt 0, top_p = Flt 1\<rparr>"

theorem mock_stream_counts_witness:
  "int (length (texts (fst (mock_stream demo_mock [JObj [(''content'', JStr ''hi'')]] demo_params)))) = 2"
proof -
  have pos: "0 \<le> max_tokens demo_params" "0 \<le> mk_tokens demo_mock" and m: "min (mk_tokens demo_mock) (max_tokens demo_params) = 2"
    by (simp_all add: demo_params_def demo_mock_def)
  have "mock_prompt [JObj [(''content'', JStr ''hi'')]] = Inr ''hi''" by (simp add: mock_prompt_def message_content_def)
  from mock_stream_counts [OF this pos] m show ?thesis by metis
qed

end
