(* ===== verification/PeerNode.thy ===== *)
theory PeerNode
  imports Engines Auth Measure
begin

text \<open>
  \<open>peer/app.py\<close>: the peer daemon. Its readiness check is cut where it awaits: the test before the lock,
  the test inside it, and the end of the probe are separate operations, so that concurrent callers
  interleave. \<open>/infer\<close> is a function from the decoded body (\<open>None\<close> when it is not JSON) to a refusal or a
  job; the response stream of a job is the list of frames it sends and how it ends. What the engine does
  is an argument.
\<close>

record peer_config =
  pc_peer_id :: string
  pc_hw_class :: string
  max_tokens_cap :: int
  readiness_window :: rat
  probe_interval :: rat
  inference_probe :: bool

definition peer_defaults :: "string \<Rightarrow> peer_config" where
  "peer_defaults pid = \<lparr>pc_peer_id = pid, pc_hw_class = ''unknown'', max_tokens_cap = 4096, readiness_window = 60,
     probe_interval = 15, inference_probe = True\<rparr>"

record readiness =
  rd_ok :: bool
  rd_reason :: string

record node =
  last_progress :: rat
  ready_cached :: "readiness option"
  cached_at :: rat
  probing :: "rat option" \<comment> \<open>the lock: when its holder's probe began\<close>
  replay :: nonce_cache

definition new_node :: node where
  "new_node = \<lparr>last_progress = 0, ready_cached = None, cached_at = 0, probing = None, replay = new_cache\<rparr>"

section \<open>Readiness\<close>

definition note_progress :: "rat \<Rightarrow> node \<Rightarrow> node" where
  "note_progress now n = n\<lparr>last_progress := now\<rparr>"

definition fresh_verdict :: "peer_config \<Rightarrow> rat \<Rightarrow> node \<Rightarrow> readiness option" where
  "fresh_verdict cfg now n =
     (case ready_cached n of
        None \<Rightarrow> None
      | Some r \<Rightarrow> if now - cached_at n < probe_interval cfg then Some r else None)"

text \<open>Before the lock: \<open>None\<close> means the caller has to take it.\<close>

definition ready_enter :: "peer_config \<Rightarrow> rat \<Rightarrow> node \<Rightarrow> readiness option" where
  "ready_enter cfg now n =
     (let idle = now - last_progress n in
      if last_progress n \<noteq> 0 \<and> idle \<le> readiness_window cfg
      then Some \<lparr>rd_ok = True, rd_reason = ''served a request '' @ show_int (round_half_even idle) @ ''s ago''\<rparr>
      else fresh_verdict cfg now n)"

text \<open>Holding the lock: answer from a probe just made, or begin one.\<close>

definition ready_locked :: "peer_config \<Rightarrow> rat \<Rightarrow> node \<Rightarrow> readiness option \<times> node" where
  "ready_locked cfg now n =
     (case fresh_verdict cfg now n of
        Some r \<Rightarrow> (Some r, n)
      | None \<Rightarrow> (None, n\<lparr>probing := Some now\<rparr>))"

definition probe_done :: "readiness \<Rightarrow> node \<Rightarrow> node" where
  "probe_done r n =
     (case probing n of
        None \<Rightarrow> n
      | Some began \<Rightarrow> n\<lparr>ready_cached := Some r, cached_at := began, probing := None\<rparr>)"

text \<open>
  \<open>_probe\<close>: \<open>alive\<close> is what \<open>engine.health()\<close> returned or the text of what it raised, \<open>run\<close> the probe's
  stream, of which only the first item is read.
\<close>

definition probe :: "pylib \<Rightarrow> peer_config \<Rightarrow> string + bool \<Rightarrow> engine_run \<Rightarrow> readiness" where
  "probe L cfg alive run =
     (if \<not> inference_probe cfg then
        (case alive of
           Inl exc \<Rightarrow> \<lparr>rd_ok = False, rd_reason = ''liveness check raised: '' @ exc\<rparr>
         | Inr ok \<Rightarrow> \<lparr>rd_ok = ok, rd_reason = ''liveness only; inference probe disabled''\<rparr>)
      else if fst run \<noteq> [] then \<lparr>rd_ok = True, rd_reason = ''inference probe produced output''\<rparr>
      else (case snd run of
          Finished \<Rightarrow> \<lparr>rd_ok = False, rd_reason = ''inference probe produced nothing at all''\<rparr>
        | NoAnswer m \<Rightarrow> \<lparr>rd_ok = True, rd_reason = ''inference probe reached the model (reasoning only)''\<rparr>
        | EngineFailed m \<Rightarrow> \<lparr>rd_ok = False, rd_reason = ''inference probe failed: '' @ m\<rparr>
        | EngineRaised c \<Rightarrow> \<lparr>rd_ok = False, rd_reason = ''inference probe raised: '' @ crash_text L c\<rparr>))"

text \<open>The whole of \<open>ready\<close> for a caller that nobody interleaves with; the clock is read twice.\<close>

definition ready :: "pylib \<Rightarrow> peer_config \<Rightarrow> rat \<Rightarrow> rat \<Rightarrow> string + bool \<Rightarrow> engine_run \<Rightarrow> node \<Rightarrow> readiness \<times> node" where
  "ready L cfg now now' alive run n =
     (case ready_enter cfg now n of
        Some r \<Rightarrow> (r, n)
      | None \<Rightarrow>
          (case ready_locked cfg now' n of
             (Some r, n1) \<Rightarrow> (r, n1)
           | (None, n1) \<Rightarrow> (let r = probe L cfg alive run in (r, probe_done r n1))))"

definition is_ready :: "pylib \<Rightarrow> peer_config \<Rightarrow> rat \<Rightarrow> rat \<Rightarrow> string + bool \<Rightarrow> engine_run \<Rightarrow> node \<Rightarrow> bool \<times> node" where
  "is_ready L cfg now now' alive run n = (let (r, n') = ready L cfg now now' alive run n in (rd_ok r, n'))"

section \<open>Health\<close>

definition peer_health :: "peer_config \<Rightarrow> json \<Rightarrow> json \<Rightarrow> json \<Rightarrow> readiness \<Rightarrow> json" where
  "peer_health cfg model name version r =
     JObj [(''status'', JStr (if rd_ok r then ''ok'' else ''degraded'')),
       (''detail'', JStr (sanitise_detail (JStr (rd_reason r)))), (''peer_id'', JStr (pc_peer_id cfg)),
       (''model'', model), (''engine'', name), (''engine_version'', version), (''hw_class'', JStr (pc_hw_class cfg))]"

section \<open>Accepting a request\<close>

record job =
  jb_env :: envelope
  jb_master :: bytes
  jb_messages :: "json list"
  jb_params :: gen_params
  jb_chars :: nat

datatype peer_reply =
    Refused nat string
  | Serve job
  | HandlerCrash crash

text \<open>\<open>len(m.get("content", ""))\<close>.\<close>

definition content_len :: "json \<Rightarrow> crash + nat" where
  "content_len m =
     rbind (message_content m) (\<lambda>v.
     case v of
       JStr s \<Rightarrow> Inr (length s)
     | JList xs \<Rightarrow> Inr (length xs)
     | JObj d \<Rightarrow> Inr (length d)
     | JNull \<Rightarrow> Inl TypeError
     | JBool b \<Rightarrow> Inl TypeError
     | JNum x \<Rightarrow> Inl TypeError)"

definition capped_params :: "peer_config \<Rightarrow> gen_params \<Rightarrow> gen_params" where
  "capped_params cfg p = p\<lparr>max_tokens := min (max_tokens p) (max_tokens_cap cfg)\<rparr>"

text \<open>After the request is opened: the payload's checks. Only the first block is inside a \<open>try\<close>.\<close>

definition accept_payload :: "pylib \<Rightarrow> peer_config \<Rightarrow> envelope \<Rightarrow> bytes \<Rightarrow> bytes \<Rightarrow> peer_reply" where
  "accept_payload L cfg env payload master =
     (case loads_bytes L payload of
        Some (JObj body) \<Rightarrow>
          (case map_of body ''messages'' of
             Some (JList (m # ms)) \<Rightarrow>
               (case params_from_request body of
                  Inl c \<Rightarrow> HandlerCrash c
                | Inr p \<Rightarrow>
                    (case rmap content_len (m # ms) of
                       Inl c \<Rightarrow> HandlerCrash c
                     | Inr ls \<Rightarrow> Serve \<lparr>jb_env = env, jb_master = master, jb_messages = m # ms,
                         jb_params = capped_params cfg p, jb_chars = sum_list ls\<rparr>))
           | _ \<Rightarrow> Refused 400 ''bad_request'')
      | _ \<Rightarrow> Refused 400 ''bad_request'')"

definition refuse_replay :: "replay_error \<Rightarrow> peer_reply" where
  "refuse_replay e =
     (case e of
        FloatOverflow \<Rightarrow> HandlerCrash OverflowError
      | MinOfEmpty \<Rightarrow> HandlerCrash (ValueError EmptyMin)
      | _ \<Rightarrow> Refused 401 ''unauthorized'')"

definition peer_infer :: "crypto \<Rightarrow> pylib \<Rightarrow> peer_config \<Rightarrow> roster \<Rightarrow> bytes \<Rightarrow> rat \<Rightarrow> json option \<Rightarrow> node
    \<Rightarrow> peer_reply \<times> node" where
  "peer_infer K L cfg ro priv w rq n =
     (case rq of
        None \<Rightarrow> (Refused 400 ''bad_envelope'', n)
      | Some doc \<Rightarrow>
          (case envelope_from_dict doc of
             Inl e \<Rightarrow> (Refused 400 ''bad_envelope'', n)
           | Inr env \<Rightarrow>
               (case roster_member ro (sender env) of
                  Inl e \<Rightarrow> (Refused 401 ''unauthorized'', n)
                | Inr m \<Rightarrow>
                    (case unb64 (m_sign_pub m) of
                       Inl v \<Rightarrow> (HandlerCrash (ValueError v), n)
                     | Inr key \<Rightarrow>
                         (case verify_envelope K env key of
                            Inl e \<Rightarrow> (Refused 401 ''unauthorized'', n)
                          | Inr u \<Rightarrow>
                              (case admit w (ts env) (request_id env) (replay n) of
                                 (Inl e, c) \<Rightarrow> (refuse_replay e, n\<lparr>replay := c\<rparr>)
                               | (Inr u, c) \<Rightarrow>
                                   (case unseal_request K env priv of
                                      Inl e \<Rightarrow> (Refused 400 ''unsealable'', n\<lparr>replay := c\<rparr>)
                                    | Inr (payload, master) \<Rightarrow>
                                        (accept_payload L cfg env payload master, n\<lparr>replay := c\<rparr>))))))))"

section \<open>The response stream\<close>

datatype stream_abort = SealAbort seal_error | CrashAbort crash

definition estimate_tokens :: "nat \<Rightarrow> int" where
  "estimate_tokens chars = (if chars = 0 then 0 else max 1 (int (chars div 4)))"

definition answer_chunk :: "envelope \<Rightarrow> int \<Rightarrow> string \<Rightarrow> bool \<Rightarrow> chunk" where
  "answer_chunk env sq ct fin =
     \<lparr>c_request_id = request_id env, c_seq = sq, c_ciphertext = ct, c_final = fin, c_v = PROTO_VERSION\<rparr>"

text \<open>The loop's locals: the next sequence number, the characters produced, the usage reported last.\<close>

record progress =
  next_seq :: int
  produced :: nat
  reported :: "usage option"

fun serve_items :: "crypto \<Rightarrow> job \<Rightarrow> progress \<Rightarrow> engine_item list \<Rightarrow> chunk list \<times> (seal_error + progress)" where
  "serve_items K j st [] = ([], Inr st)"
| "serve_items K j st (UsageItem u # items) = serve_items K j (st\<lparr>reported := Some u\<rparr>) items"
| "serve_items K j st (Text s # items) =
     (if s = [] then serve_items K j st items
      else (case seal_chunk K (utf8 s) (jb_master j) (next_seq st) of
          Inl e \<Rightarrow> ([], Inl e)
        | Inr ct \<Rightarrow>
            (let (cs, res) = serve_items K j (st\<lparr>next_seq := next_seq st + 1, produced := produced st + length s\<rparr>) items
             in (answer_chunk (jb_env j) (next_seq st) ct False # cs, res))))"

text \<open>A count the engine reported, or the estimate when it reported none or zero.\<close>

definition count_or :: "json \<Rightarrow> nat \<Rightarrow> json" where
  "count_or v chars = (if truthy v then v else JInt (estimate_tokens chars))"

definition receipt_frame :: "peer_config \<Rightarrow> json \<Rightarrow> json \<Rightarrow> job \<Rightarrow> progress \<Rightarrow> json" where
  "receipt_frame cfg name version j st =
     (let (p, c, fin) = (case reported st of
            None \<Rightarrow> (JInt (estimate_tokens (jb_chars j)), JInt (estimate_tokens (produced st)), [])
          | Some u \<Rightarrow> (count_or (u_prompt u) (jb_chars j), count_or (u_completion u) (produced st), u_finish u))
      in JObj [(''kind'', JStr KIND_RECEIPT), (''v'', JInt PROTO_VERSION), (''request_id'', JStr (request_id (jb_env j))),
           (''prompt_tokens'', p), (''completion_tokens'', c), (''engine'', name), (''engine_version'', version),
           (''hw_class'', JStr (pc_hw_class cfg)), (''finish_reason'', JStr fin)])"

definition peer_error_frame :: "envelope \<Rightarrow> string \<Rightarrow> json" where
  "peer_error_frame env msg =
     JObj [(''kind'', JStr ''error''), (''v'', JInt 1), (''request_id'', JStr (request_id env)),
       (''message'', JStr (sanitise_message (JStr msg)))]"

definition start_progress :: progress where
  "start_progress = \<lparr>next_seq = 0, produced = 0, reported = None\<rparr>"

definition peer_stream :: "crypto \<Rightarrow> peer_config \<Rightarrow> json \<Rightarrow> json \<Rightarrow> job \<Rightarrow> engine_run \<Rightarrow> json list \<times> stream_abort option" where
  "peer_stream K cfg name version j run =
     (let (cs, res) = serve_items K j start_progress (fst run); frames = map chunk_to_dict cs in
      case res of
        Inl e \<Rightarrow> (frames, Some (SealAbort e))
      | Inr st \<Rightarrow>
          (case snd run of
             EngineFailed msg \<Rightarrow> (frames @ [peer_error_frame (jb_env j) msg], None)
           | NoAnswer msg \<Rightarrow> (frames @ [peer_error_frame (jb_env j) msg], None)
           | EngineRaised c \<Rightarrow> (frames, Some (CrashAbort c))
           | Finished \<Rightarrow>
               (case seal_chunk K [] (jb_master j) (next_seq st) of
                  Inl e \<Rightarrow> (frames, Some (SealAbort e))
                | Inr ct \<Rightarrow> (frames @ [chunk_to_dict (answer_chunk (jb_env j) (next_seq st) ct True),
                                       receipt_frame cfg name version j st], None))))"

section \<open>Concurrent readiness checks\<close>

text \<open>
  Callers that wait take the lock one after another; a caller that finds it held does nothing. The end of a
  probe, progress of real requests and requests themselves come in between.
\<close>

datatype node_op = TakeLock rat | ProbeEnds readiness | Progressed rat

fun node_step :: "peer_config \<Rightarrow> node_op \<Rightarrow> node \<Rightarrow> node" where
  "node_step cfg (TakeLock now) n = (if probing n \<noteq> None then n else snd (ready_locked cfg now n))"
| "node_step cfg (ProbeEnds r) n = probe_done r n"
| "node_step cfg (Progressed now) n = note_progress now n"

text \<open>The times at which probes begin in a run.\<close>

fun probe_starts :: "peer_config \<Rightarrow> node_op list \<Rightarrow> node \<Rightarrow> rat list" where
  "probe_starts cfg [] n = []"
| "probe_starts cfg (op # ops) n =
     (let n' = node_step cfg op n
      in (if probing n = None \<and> probing n' \<noteq> None then [the (probing n')] else []) @ probe_starts cfg ops n')"

definition last_start :: "node \<Rightarrow> rat option" where
  "last_start n = (case probing n of Some t \<Rightarrow> Some t | None \<Rightarrow> if ready_cached n = None then None else Some (cached_at n))"

lemma node_step_last:
  assumes "last_start n = Some b" "0 \<le> probe_interval cfg"
  shows "(probing n = None \<and> (\<exists>t. probing (node_step cfg op n) = Some t \<and> b + probe_interval cfg \<le> t \<and> last_start (node_step cfg op n) = Some t))
    \<or> (last_start (node_step cfg op n) = Some b \<and> (probing n = None \<longrightarrow> probing (node_step cfg op n) = None))"
  using assms
  by (cases op) (auto simp: last_start_def ready_locked_def fresh_verdict_def probe_done_def note_progress_def split: option.splits if_splits)

lemma probe_starts_after:
  "last_start n = Some b \<Longrightarrow> 0 \<le> probe_interval cfg \<Longrightarrow>
     sorted_wrt (\<lambda>x y. x + probe_interval cfg \<le> y) (b # probe_starts cfg ops n)"
proof (induction ops arbitrary: n b)
  case (Cons op ops)
  from node_step_last [OF Cons.prems, of op] show ?case
  proof
    assume "probing n = None \<and> (\<exists>t. probing (node_step cfg op n) = Some t \<and> b + probe_interval cfg \<le> t
      \<and> last_start (node_step cfg op n) = Some t)"
    then obtain t where t: "probing n = None" "probing (node_step cfg op n) = Some t" "b + probe_interval cfg \<le> t"
      "last_start (node_step cfg op n) = Some t" by blast
    from Cons.IH [OF t(4) Cons.prems(2)] t(1,2,3) Cons.prems(2) show ?thesis by (auto simp: Let_def)
  next
    assume "last_start (node_step cfg op n) = Some b \<and> (probing n = None \<longrightarrow> probing (node_step cfg op n) = None)"
    with Cons.IH [of "node_step cfg op n" b] Cons.prems(2) show ?thesis by (auto simp: Let_def)
  qed
qed simp

section \<open>The shape of a response\<close>

definition answers :: "engine_item list \<Rightarrow> string list" where
  "answers items = filter (\<lambda>s. s \<noteq> []) (texts items)"

lemma answers_simps [simp]:
  "answers [] = []" "answers (UsageItem u # items) = answers items"
  "answers (Text s # items) = (if s = [] then answers items else s # answers items)"
  by (simp_all add: answers_def)

fun sealed_run :: "crypto \<Rightarrow> job \<Rightarrow> int \<Rightarrow> chunk list \<Rightarrow> string list \<Rightarrow> bool" where
  "sealed_run K j sq [] [] = True"
| "sealed_run K j sq (c # cs) (s # ss) =
     ((\<exists>ct. seal_chunk K (utf8 s) (jb_master j) sq = Inr ct \<and> c = answer_chunk (jb_env j) sq ct False)
      \<and> sealed_run K j (sq + 1) cs ss)"
| "sealed_run K j sq _ _ = False"

lemma serve_items_sealed:
  "serve_items K j st items = (cs, Inr st') \<Longrightarrow>
     sealed_run K j (next_seq st) cs (answers items) \<and> next_seq st' = next_seq st + int (length cs)"
proof (induction K j st items arbitrary: cs st' rule: serve_items.induct)
  case (3 K j st s items)
  show ?case
  proof (cases "s = []")
    case True
    with 3(3) show ?thesis using 3(1) by simp
  next
    case False
    with 3(3) obtain ct where ct: "s \<noteq> []" "seal_chunk K (utf8 s) (jb_master j) (next_seq st) = Inr ct"
      by (cases "seal_chunk K (utf8 s) (jb_master j) (next_seq st)") simp_all
    let ?st = "st\<lparr>next_seq := next_seq st + 1, produced := produced st + length s\<rparr>"
    obtain cs1 res where rest: "serve_items K j ?st items = (cs1, res)" by fastforce
    with 3(3) ct have "cs = answer_chunk (jb_env j) (next_seq st) ct False # cs1" "res = Inr st'" by simp_all
    with 3(2) [OF ct(1,2)] rest ct show ?thesis by simp
  qed
qed auto

lemma sealed_run_length: "sealed_run K j sq cs ss \<Longrightarrow> length cs = length ss"
  by (induction K j sq cs ss rule: sealed_run.induct) auto

lemma peer_stream_finished:
  assumes "peer_stream K cfg name version j (items, Finished) = (frames, None)"
  obtains cs ct st where "serve_items K j start_progress items = (cs, Inr st)" "sealed_run K j 0 cs (answers items)"
    "seal_chunk K [] (jb_master j) (int (length cs)) = Inr ct"
    "frames = map chunk_to_dict (cs @ [answer_chunk (jb_env j) (int (length cs)) ct True]) @ [receipt_frame cfg name version j st]"
proof -
  from assms obtain cs st ct where run: "serve_items K j start_progress items = (cs, Inr st)"
    and ct: "seal_chunk K [] (jb_master j) (next_seq st) = Inr ct"
    and frames: "frames = map chunk_to_dict (cs @ [answer_chunk (jb_env j) (next_seq st) ct True]) @ [receipt_frame cfg name version j st]"
    by (auto simp: peer_stream_def Let_def split: prod.splits sum.splits)
  from serve_items_sealed [OF run] have "sealed_run K j 0 cs (answers items)" "next_seq st = int (length cs)"
    by (simp_all add: start_progress_def)
  with run ct frames that show ?thesis by metis
qed

lemma sealed_run_nth:
  "sealed_run K j sq cs ss \<Longrightarrow> i < length cs \<Longrightarrow>
     \<exists>ct. seal_chunk K (utf8 (ss ! i)) (jb_master j) (sq + int i) = Inr ct \<and> cs ! i = answer_chunk (jb_env j) (sq + int i) ct False"
proof (induction K j sq cs ss arbitrary: i rule: sealed_run.induct)
  case (2 K j sq c cs s ss)
  then show ?case by (cases i) (auto simp: algebra_simps)
qed simp_all

lemma utf8_empty_iff [simp]: "utf8 s = [] \<longleftrightarrow> s = []"
  by (cases s) (simp_all add: utf8_def utf8_char_def Let_def)

section \<open>What reaches the nonce cache\<close>

definition infer_all :: "crypto \<Rightarrow> pylib \<Rightarrow> peer_config \<Rightarrow> roster \<Rightarrow> bytes \<Rightarrow> (rat \<times> json option) list \<Rightarrow> node \<Rightarrow> node" where
  "infer_all K L cfg ro priv reqs n = fold (\<lambda>q n. snd (peer_infer K L cfg ro priv (fst q) (snd q) n)) reqs n"

text \<open>The envelope of a request whose sender and signature are in order.\<close>

definition vouched :: "crypto \<Rightarrow> roster \<Rightarrow> json option \<Rightarrow> envelope option" where
  "vouched K ro rq =
     (case rq of
        None \<Rightarrow> None
      | Some doc \<Rightarrow>
          (case envelope_from_dict doc of
             Inl e \<Rightarrow> None
           | Inr env \<Rightarrow>
               (case roster_member ro (sender env) of
                  Inl e \<Rightarrow> None
                | Inr m \<Rightarrow>
                    (case unb64 (m_sign_pub m) of
                       Inl v \<Rightarrow> None
                     | Inr key \<Rightarrow> if verify_envelope K env key = Inr () then Some env else None))))"

definition knock :: "crypto \<Rightarrow> roster \<Rightarrow> rat \<times> json option \<Rightarrow> (rat \<times> pynum \<times> string) list" where
  "knock K ro q = (case vouched K ro (snd q) of None \<Rightarrow> [] | Some env \<Rightarrow> [(fst q, ts env, request_id env)])"

lemma refuse_replay_not_serve [simp]: "refuse_replay e \<noteq> Serve j" "Serve j \<noteq> refuse_replay e"
  by (cases e; simp add: refuse_replay_def)+

lemma peer_infer_not_vouched:
  "vouched K ro rq = None \<Longrightarrow> snd (peer_infer K L cfg ro priv w rq n) = n \<and> fst (peer_infer K L cfg ro priv w rq n) \<noteq> Serve j"
  by (auto simp: peer_infer_def vouched_def roster_member_def split: option.splits sum.splits if_splits)

lemma peer_infer_vouched:
  assumes "vouched K ro rq = Some env"
  shows "replay (snd (peer_infer K L cfg ro priv w rq n)) = snd (admit w (ts env) (request_id env) (replay n))"
    and "fst (admit w (ts env) (request_id env) (replay n)) = Inl e \<Longrightarrow> fst (peer_infer K L cfg ro priv w rq n) = refuse_replay e"
proof -
  from assms obtain doc m key where "rq = Some doc" "envelope_from_dict doc = Inr env" "roster_member ro (sender env) = Inr m"
      "unb64 (m_sign_pub m) = Inr key" "verify_envelope K env key = Inr ()"
    by (auto simp: vouched_def split: option.splits sum.splits if_splits)
  then show "replay (snd (peer_infer K L cfg ro priv w rq n)) = snd (admit w (ts env) (request_id env) (replay n))"
    and "fst (admit w (ts env) (request_id env) (replay n)) = Inl e \<Longrightarrow> fst (peer_infer K L cfg ro priv w rq n) = refuse_replay e"
    by (auto simp: peer_infer_def roster_member_def split: sum.splits prod.splits)
qed

lemma infer_replay: "replay (snd (peer_infer K L cfg ro priv w rq n)) = admit_all (knock K ro (w, rq)) (replay n)"
  by (cases "vouched K ro rq") (simp_all add: peer_infer_not_vouched peer_infer_vouched knock_def admit_all_def)

lemma infer_all_replay: "replay (infer_all K L cfg ro priv reqs n) = admit_all (concat (map (knock K ro) reqs)) (replay n)"
  by (induction reqs arbitrary: n) (simp_all add: infer_all_def admit_all_def infer_replay [unfolded admit_all_def])

lemma knock_time: "m \<in> set (knock K ro q) \<Longrightarrow> fst m = fst q" "length (knock K ro q) \<le> 1" "sorted (map fst (knock K ro q))"
  by (auto simp: knock_def split: option.splits)

lemma knocks_times:
  "\<forall>m \<in> set (concat (map (knock K ro) reqs)). \<exists>q \<in> set reqs. fst m = fst q"
  by (auto dest: knock_time(1))

lemma knocks_length: "length (concat (map (knock K ro) reqs)) \<le> length reqs"
proof (induction reqs)
  case (Cons q reqs)
  with knock_time(2) [of K ro q] show ?case by simp
qed simp

lemma knocks_sorted: "sorted (map fst reqs) \<Longrightarrow> sorted (map fst (concat (map (knock K ro) reqs)))"
proof (induction reqs)
  case (Cons q reqs)
  have "fst q \<le> fst m" if "m \<in> set (concat (map (knock K ro) reqs))" for m
    using that knocks_times [of K ro reqs] Cons.prems by fastforce
  with Cons knock_time(1) [of _ K ro q] knock_time(3) [of K ro q] show ?case by (fastforce simp: sorted_append)
qed simp

section \<open>Properties\<close>

text \<open>
  C8: a peer does work only for members: when it serves a job, the envelope parses, its sender is on the
  roster, the roster's key verifies the signature, it is fresh and was not seen, it opens with the peer's own
  key, the messages are a non-empty list and the token budget is within the peer's cap.
\<close>
theorem peer_infer_sound:
  assumes "peer_infer K L cfg ro priv w rq n = (Serve j, n')"
  shows "\<exists>doc m key payload. rq = Some doc \<and> envelope_from_dict doc = Inr (jb_env j)
    \<and> map_of (members ro) (sender (jb_env j)) = Some m \<and> unb64 (m_sign_pub m) = Inr key
    \<and> verify_envelope K (jb_env j) key = Inr ()
    \<and> admit w (ts (jb_env j)) (request_id (jb_env j)) (replay n) = (Inr (), replay n')
    \<and> unseal_request K (jb_env j) priv = Inr (payload, jb_master j)
    \<and> jb_messages j \<noteq> [] \<and> max_tokens (jb_params j) \<le> max_tokens_cap cfg"
proof -
  have accept: "jb_env j = env \<and> jb_master j = master \<and> jb_messages j \<noteq> [] \<and> max_tokens (jb_params j) \<le> max_tokens_cap cfg"
    if "accept_payload L cfg env payload master = Serve j" for env payload master
    using that by (auto simp: accept_payload_def capped_params_def split: option.splits json.splits list.splits sum.splits)
  from assms obtain doc env m key where 1: "rq = Some doc" "envelope_from_dict doc = Inr env"
      "roster_member ro (sender env) = Inr m" "unb64 (m_sign_pub m) = Inr key" "verify_envelope K env key = Inr ()"
    by (auto simp: peer_infer_def split: option.splits sum.splits)
  with assms obtain payload master where "admit w (ts env) (request_id env) (replay n) = (Inr (), replay n')"
      "unseal_request K env priv = Inr (payload, master)" "accept_payload L cfg env payload master = Serve j"
    by (auto simp: peer_infer_def split: sum.splits prod.splits)
  with 1 accept show ?thesis by (auto simp: roster_member_def split: option.splits)
qed

text \<open>
  C11: a peer serves a sealed request once: on a clock that does not go back, after fewer than the cache's bound
  of other requests of whatever kind, the same document is refused as unauthorized, whether its request id is
  still remembered or it has gone stale. The coordinator, which holds every envelope, cannot spend one twice.
\<close>
theorem peer_serves_once:
  assumes "cache_ok t (replay n)" "t \<le> w" "DEFAULT_MAX_AGE + CLOCK_SKEW_GRACE < ttl (replay n)"
    and first: "peer_infer K L cfg ro priv w rq n = (Serve j, n1)"
    and run: "sorted (w # map fst reqs)" "list_all (\<lambda>q. fst q \<le> w') reqs" "w \<le> w'" "length reqs < max_entries (replay n)"
  shows "fst (peer_infer K L cfg ro priv w' rq (infer_all K L cfg ro priv reqs n1)) = Refused 401 ''unauthorized''"
proof -
  let ?ms = "concat (map (knock K ro) reqs)"
  from first peer_infer_not_vouched [of K ro rq L cfg priv w n j] obtain env where v: "vouched K ro rq = Some env"
    by (cases "vouched K ro rq") auto
  let ?admit = "\<lambda>w. admit w (ts env) (request_id env)"
  have "fst (?admit w (replay n)) = Inr ()" 
    using peer_infer_vouched(2) [OF v, of w n _ L cfg priv] first by (cases "fst (?admit w (replay n))") auto
  moreover have "snd (?admit w (replay n)) = replay n1" using peer_infer_vouched(1) [OF v] first by (metis snd_conv)
  moreover have "sorted (w # map fst ?ms)" "\<forall>m \<in> set ?ms. fst m \<le> w'"
    using run(1,2) knocks_sorted [of reqs K ro] knocks_times [of K ro reqs] by (fastforce simp: list_all_iff)+
  moreover have "length ?ms < max_entries (replay n)" using knocks_length [of K ro reqs] run(4) by (rule le_less_trans)
  ultimately obtain err where "err \<in> {Stale, Replayed}" "fst (?admit w' (replay (infer_all K L cfg ro priv reqs n1))) = Inl err"
    using admit_once [OF assms(1-3), of "ts env" "request_id env" ?ms w'] run(3) by (auto simp: infer_all_replay)
  with peer_infer_vouched(2) [OF v] show ?thesis by (auto simp: refuse_replay_def)
qed

text \<open>
  C18: the response of a finished engine run: one chunk per non-empty text, numbered from 0 without gaps, each
  opening at its number to that text; then one final chunk that opens to the empty text; then one receipt.
  The empty plaintext that marks the end occurs in no other chunk.
\<close>
theorem peer_stream_shape:
  assumes "crypto_laws K" "peer_stream K cfg name version j (items, Finished) = (frames, None)"
  shows "\<exists>cs fin st. frames = map chunk_to_dict (cs @ [fin]) @ [receipt_frame cfg name version j st]
    \<and> length cs = length (answers items)
    \<and> (\<forall>i < length cs. c_seq (cs ! i) = int i \<and> \<not> c_final (cs ! i)
         \<and> unseal_chunk K (c_ciphertext (cs ! i)) (jb_master j) (int i) = Inr (utf8 (answers items ! i))
         \<and> utf8 (answers items ! i) \<noteq> [])
    \<and> c_seq fin = int (length cs) \<and> c_final fin
    \<and> unseal_chunk K (c_ciphertext fin) (jb_master j) (int (length cs)) = Inr []"
proof -
  obtain cs ct st where "serve_items K j start_progress items = (cs, Inr st)" and run: "sealed_run K j 0 cs (answers items)"
    and ct: "seal_chunk K [] (jb_master j) (int (length cs)) = Inr ct"
    and frames: "frames = map chunk_to_dict (cs @ [answer_chunk (jb_env j) (int (length cs)) ct True]) @ [receipt_frame cfg name version j st]"
    using assms(2) by (rule peer_stream_finished)
  have "c_seq (cs ! i) = int i \<and> \<not> c_final (cs ! i)
      \<and> unseal_chunk K (c_ciphertext (cs ! i)) (jb_master j) (int i) = Inr (utf8 (answers items ! i))
      \<and> utf8 (answers items ! i) \<noteq> []" if "i < length cs" for i
  proof -
    have "answers items ! i \<in> set (answers items)" using that sealed_run_length [OF run] by simp
    then have "answers items ! i \<noteq> []" by (auto simp: answers_def)
    with sealed_run_nth [OF run that] unseal_seal_chunk [OF assms(1)] show ?thesis by (auto simp: answer_chunk_def)
  qed
  moreover have "unseal_chunk K ct (jb_master j) (int (length cs)) = Inr []" by (rule unseal_seal_chunk [OF assms(1) ct])
  ultimately show ?thesis using frames sealed_run_length [OF run]
    by (intro exI [of _ cs] exI [of _ "answer_chunk (jb_env j) (int (length cs)) ct True"] exI [of _ st])
       (simp add: answer_chunk_def)
qed

text \<open>
  C19: an engine that fails in mid-stream is reported, not papered over: every text it had yielded is there as a chunk,
  in order and opening to it, then comes one error frame with the engine's message, cleaned to at most 400
  printable characters (unchanged when it is clean), and there is neither a final chunk nor a receipt.
\<close>
theorem peer_stream_failure:
  assumes "crypto_laws K" "fin = EngineFailed msg \<or> fin = NoAnswer msg" "peer_stream K cfg name version j (items, fin) = (frames, None)"
  shows "\<exists>cs text. frames = map chunk_to_dict cs @ [JObj [(''kind'', JStr ''error''), (''v'', JInt 1),
        (''request_id'', JStr (request_id (jb_env j))), (''message'', JStr text)]]
    \<and> length cs = length (answers items)
    \<and> (\<forall>i < length cs. c_seq (cs ! i) = int i \<and> \<not> c_final (cs ! i)
         \<and> unseal_chunk K (c_ciphertext (cs ! i)) (jb_master j) (int i) = Inr (utf8 (answers items ! i)))
    \<and> text = sanitise_message (JStr msg) \<and> (clean_text 400 msg \<longrightarrow> text = msg)
    \<and> length text \<le> 400 \<and> list_all py_isprintable text"
proof -
  from assms(2,3) obtain cs st where run: "serve_items K j start_progress items = (cs, Inr st)"
    and frames: "frames = map chunk_to_dict cs @ [peer_error_frame (jb_env j) msg]"
    by (auto simp: peer_stream_def Let_def split: prod.splits sum.splits)
  have sealed: "sealed_run K j 0 cs (answers items)" using serve_items_sealed [OF run] by (simp add: start_progress_def)
  have "c_seq (cs ! i) = int i \<and> \<not> c_final (cs ! i)
      \<and> unseal_chunk K (c_ciphertext (cs ! i)) (jb_master j) (int i) = Inr (utf8 (answers items ! i))" if "i < length cs" for i
    using sealed_run_nth [OF sealed that] unseal_seal_chunk [OF assms(1)] by (auto simp: answer_chunk_def)
  moreover have "length (sanitise_message (JStr msg)) \<le> 400" "list_all py_isprintable (sanitise_message (JStr msg))"
    using length_clean [of "JStr msg" 400] by (auto simp: sanitise_message_def MAX_MESSAGE_CHARS_def list_all_iff clean_printable)
  moreover have "clean_text 400 msg \<longrightarrow> sanitise_message (JStr msg) = msg"
    by (simp add: sanitise_message_def MAX_MESSAGE_CHARS_def clean_fixed)
  ultimately show ?thesis using frames sealed_run_length [OF sealed] by (auto simp: peer_error_frame_def)
qed

text \<open>
  \<open>/health\<close> is no amplifier: however many callers check at once and however long the probes take, two
  probes never begin within the probe interval of each other.
\<close>
theorem probes_are_spaced:
  assumes "0 \<le> probe_interval cfg"
  shows "sorted_wrt (\<lambda>x y. x + probe_interval cfg \<le> y) (probe_starts cfg ops new_node)"
proof -
  have "sorted_wrt (\<lambda>x y. x + probe_interval cfg \<le> y) (probe_starts cfg ops n)" if "last_start n = None" for n
    using that
  proof (induction ops arbitrary: n)
    case (Cons op ops)
    have "last_start (node_step cfg op n) = None \<and> probing (node_step cfg op n) = None
        \<or> (\<exists>t. probing (node_step cfg op n) = Some t \<and> last_start (node_step cfg op n) = Some t)"
      using Cons.prems
      by (cases op) (auto simp: last_start_def ready_locked_def fresh_verdict_def probe_done_def note_progress_def split: option.splits if_splits)
    with Cons.IH probe_starts_after [OF _ assms] show ?case by (auto simp: Let_def)
  qed simp
  then show ?thesis by (simp add: last_start_def new_node_def)
qed

text \<open>
  readiness is the engine's ability to serve: with the inference probe on, an idle peer is ready exactly
  when the probe yields something or the model spent the one token on reasoning; any other end says why not.
\<close>
theorem probe_verdict:
  assumes "inference_probe cfg" "ready_enter cfg now n = None" "fresh_verdict cfg now' n = None"
  shows "(rd_ok (fst (ready L cfg now now' alive run n)) \<longleftrightarrow> fst run \<noteq> [] \<or> (\<exists>m. snd run = NoAnswer m))
    \<and> ready_cached (snd (ready L cfg now now' alive run n)) = Some (fst (ready L cfg now now' alive run n))"
  using assms by (auto simp: ready_def ready_locked_def probe_def probe_done_def Let_def split: engine_end.splits)

text \<open>
  an engine that reports a count as a JSON \<open>true\<close>, or below zero, passes the adapter and the peer, and the
  receipt the peer then sends is one that neither the coordinator nor the client can parse: the request is
  not metered.
\<close>
theorem odd_count_breaks_receipt:
  "usage_of (JObj [(''prompt_tokens'', JBool True)]) = Some \<lparr>u_prompt = JBool True, u_completion = JInt 0, u_finish = []\<rparr>
   \<and> usage_of (JObj [(''prompt_tokens'', JInt (- 1))]) = Some \<lparr>u_prompt = JInt (- 1), u_completion = JInt 0, u_finish = []\<rparr>
   \<and> receipt_from_dict (receipt_frame cfg name version j (st\<lparr>reported := Some \<lparr>u_prompt = JBool True, u_completion = c, u_finish = f\<rparr>\<rparr>))
       = Inl (BadCount ''prompt_tokens'')
   \<and> receipt_from_dict (receipt_frame cfg name version j (st\<lparr>reported := Some \<lparr>u_prompt = JInt (- 1), u_completion = c, u_finish = f\<rparr>\<rparr>))
       = Inl (BadCount ''prompt_tokens'')"
  by (simp add: usage_of_def is_pyint_def receipt_frame_def count_or_def receipt_from_dict_def as_object_def
      check_version_def PROTO_VERSION_def SUPPORTED_VERSIONS_def read_count_def)

section \<open>An honest request is served\<close>

lemma peer_infer_accepts:
  assumes K: "crypto_laws K" and seal: "seal_request K payload (box_pub K priv) rid sndr t master ivec eph = Inr (e0, mst)"
    and sign: "sign_envelope K e0 seed = Inr e" and ok: "envelope_ok e0"
    and m: "map_of (members ro) sndr = Some m" "m_sign_pub m = b64 (ed_pub K seed)"
    and fresh: "check_fresh t w DEFAULT_MAX_AGE = Inr ()" and new: "check_and_add w rid (replay n) = (Inr (), c)"
  shows "peer_infer K L cfg ro priv w (Some (envelope_to_dict e)) n = (accept_payload L cfg e payload master, n\<lparr>replay := c\<rparr>)"
proof -
  obtain bs where e: "e = e0\<lparr>sig := Some bs\<rparr>" using sign by (auto simp: sign_envelope_def rbind_Inr_iff)
  have fields: "request_id e = rid" "sender e = sndr" "ts e = t"
    using seal by (auto simp: e seal_request_def rbind_Inr_iff split: if_splits)
  have "envelope_ok e" using ok by (simp add: e envelope_ok_def)
  then have parse: "envelope_from_dict (envelope_to_dict e) = Inr e" by (rule env_codec.dec_enc)
  have "unseal_request K e0 priv = Inr (payload, master)" using unseal_seal_request [OF K seal] by simp
  moreover have "sealed_key e = sealed_key e0" "iv e = iv e0" "ciphertext e = ciphertext e0" by (simp_all add: e)
  then have "unseal_request K e priv = unseal_request K e0 priv" by (simp only: unseal_request_def)
  ultimately have open_e: "unseal_request K e priv = Inr (payload, master)" by simp
  show ?thesis
    using parse fields open_e m fresh new verify_sign_envelope [OF K sign]
    by (simp add: peer_infer_def roster_member_def unb64_b64 admit_def)
qed

section \<open>Witnesses\<close>

definition demo_node :: node where
  "demo_node = new_node\<lparr>replay := small_cache\<rparr>"

definition demo_job :: job where
  "demo_job = \<lparr>jb_env = demo_request_envelope, jb_master = replicate 32 0, jb_messages = [], jb_params = demo_params, jb_chars = 2\<rparr>"

definition demo_items :: "engine_item list" where
  "demo_items = [Text ''hi'', Text [], UsageItem \<lparr>u_prompt = JInt 2, u_completion = JInt 0, u_finish = ''stop''\<rparr>]"

lemma demo_seals: "0 \<le> sq \<Longrightarrow> sq < 2 ^ 96 \<Longrightarrow> \<exists>ct. seal_chunk demo_crypto data (jb_master demo_job) sq = Inr ct"
  using chunk_nonce_total [of sq] by (auto simp: seal_chunk_Inr demo_job_def)

lemma demo_run:
  assumes "fin = Finished \<or> (\<exists>m. fin = EngineFailed m)"
  shows "\<exists>frames. peer_stream demo_crypto (peer_defaults ''g'') (JStr ''mock'') (JStr []) demo_job (demo_items, fin) = (frames, None)"
proof -
  obtain c0 c1 where "seal_chunk demo_crypto (utf8 ''hi'') (jb_master demo_job) 0 = Inr c0"
    "seal_chunk demo_crypto [] (jb_master demo_job) 1 = Inr c1"
    using demo_seals [of 0] demo_seals [of 1] by fastforce
  then show ?thesis using assms by (auto simp: peer_stream_def demo_items_def start_progress_def)
qed

theorem peer_stream_shape_witness:
  "\<exists>frames. peer_stream demo_crypto (peer_defaults ''g'') (JStr ''mock'') (JStr []) demo_job (demo_items, Finished) = (frames, None)
     \<and> length frames = 3"
proof -
  obtain frames where f: "peer_stream demo_crypto (peer_defaults ''g'') (JStr ''mock'') (JStr []) demo_job (demo_items, Finished) = (frames, None)"
    using demo_run [of Finished] by auto
  have "length (answers demo_items) = 1" by (simp add: demo_items_def)
  with peer_stream_shape [OF demo_crypto_laws f] f show ?thesis by auto
qed

theorem peer_stream_failure_witness:
  "\<exists>frames c. peer_stream demo_crypto (peer_defaults ''g'') (JStr ''mock'') (JStr []) demo_job (demo_items, EngineFailed ''boom'') = (frames, None)
     \<and> frames = [chunk_to_dict c, JObj [(''kind'', JStr ''error''), (''v'', JInt 1), (''request_id'', JStr (request_id (jb_env demo_job))),
         (''message'', JStr ''boom'')]]
     \<and> unseal_chunk demo_crypto (c_ciphertext c) (jb_master demo_job) 0 = Inr (utf8 (answers demo_items ! 0))"
proof -
  obtain frames where f: "peer_stream demo_crypto (peer_defaults ''g'') (JStr ''mock'') (JStr []) demo_job (demo_items, EngineFailed ''boom'') = (frames, None)"
    using demo_run [of "EngineFailed ''boom''"] by auto
  have clean: "clean_text 400 ''boom''"
    unfolding clean_text_def by (rule conjI, rule exI [of _ "[''boom'']"]) (simp_all add: is_word_def py_isspace_def py_isprintable_def)
  have "length (answers demo_items) = 1" by (simp add: answers_def demo_items_def)
  with peer_stream_failure [OF demo_crypto_laws _ f, of "''boom''"] clean obtain cs where cs: "length cs = Suc 0"
      "frames = map chunk_to_dict cs @ [JObj [(''kind'', JStr ''error''), (''v'', JInt 1), (''request_id'', JStr (request_id (jb_env demo_job))), (''message'', JStr ''boom'')]]"
      "unseal_chunk demo_crypto (c_ciphertext (cs ! 0)) (jb_master demo_job) 0 = Inr (utf8 (answers demo_items ! 0))"
    by auto
  from cs(1) obtain c where "cs = [c]" by (auto simp: length_Suc_conv)
  with f cs show ?thesis by auto
qed

theorem probes_are_spaced_witness:
  "sorted_wrt (\<lambda>x y. x + 15 \<le> y) (probe_starts (peer_defaults ''g'')
     [TakeLock 100, TakeLock 101, ProbeEnds \<lparr>rd_ok = True, rd_reason = []\<rparr>, TakeLock 110, TakeLock 116] new_node)
   \<and> probe_starts (peer_defaults ''g'')
     [TakeLock 100, TakeLock 101, ProbeEnds \<lparr>rd_ok = True, rd_reason = []\<rparr>, TakeLock 110, TakeLock 116] new_node = [100, 116]"
  using probes_are_spaced [of "peer_defaults ''g''"]
  by (simp add: peer_defaults_def new_node_def ready_locked_def fresh_verdict_def probe_done_def)

theorem probe_verdict_witness: "rd_ok (fst (ready demo_lib (peer_defaults ''g'') 5 6 (Inr True) ([], NoAnswer ''thinking'') new_node))"
  using probe_verdict [of "peer_defaults ''g''" 5 new_node 6 demo_lib "Inr True" "([], NoAnswer ''thinking'')"]
  by (simp add: peer_defaults_def ready_enter_def fresh_verdict_def new_node_def)

text \<open>A request of member \<open>b\<close>, sealed to a peer whose key is \<open>demo_key\<close>.\<close>

definition demo_prompt :: json where
  "demo_prompt = JObj [(''messages'', JList [JObj [(''role'', JStr ''user''), (''content'', JStr ''hi'')]])]"

definition demo_payload :: bytes where
  "demo_payload = utf8 (wire_text (\<lambda>r. []) demo_prompt)"

lemma demo_payload: "loads_bytes L demo_payload = Some demo_prompt"
  unfolding demo_payload_def by (rule loads_wire_text) (simp add: demo_prompt_def)

definition demo_sealed :: envelope where
  "demo_sealed = (case seal_request demo_crypto demo_payload demo_key ''r'' ''b'' (IntN 1000) (replicate 32 0) [9] [] of
     Inl e \<Rightarrow> demo_request_envelope | Inr (e, m) \<Rightarrow> e)"

lemma demo_sealed:
  "seal_request demo_crypto demo_payload (box_pub demo_crypto demo_key) ''r'' ''b'' (IntN 1000) (replicate 32 0) [9] [] = Inr (demo_sealed, replicate 32 0)"
  "envelope_ok demo_sealed" "ts demo_sealed = IntN 1000"
  by (simp_all add: demo_sealed_def seal_request_def derive_def MASTER_LEN_def demo_crypto_def demo_key_def envelope_ok_def PROTO_VERSION_def)

lemma demo_served:
  obtains e j n' where "peer_infer demo_crypto demo_lib (peer_defaults ''g'') demo_auth_roster demo_key 1010 (Some (envelope_to_dict e)) demo_node
    = (Serve j, n')"
proof -
  obtain e where e: "sign_envelope demo_crypto demo_sealed demo_key = Inr e"
    by (simp add: sign_envelope_def signed_bytes_def canonical_def envelope_fields_def demo_sealed)
  have m: "map_of (members demo_auth_roster) ''b'' = Some demo_keyed" "m_sign_pub demo_keyed = b64 (ed_pub demo_crypto demo_key)"
    by (simp_all add: demo_auth_roster_def demo_keyed_def demo_crypto_def)
  have fr: "check_fresh (IntN 1000) 1010 DEFAULT_MAX_AGE = Inr ()" by code_simp
  have nn: "check_and_add 1010 ''r'' (replay demo_node) = (Inr (), small_cache\<lparr>seen := [(''r'', 1250)]\<rparr>)"
    by (simp add: check_and_add_def demo_node_def small_cache_def)
  have "\<exists>j. accept_payload demo_lib (peer_defaults ''g'') e demo_payload (replicate 32 0) = Serve j"
    by (simp add: accept_payload_def demo_payload demo_prompt_def params_from_request_def py_int_def py_float_def content_len_def message_content_def)
  with peer_infer_accepts [OF demo_crypto_laws demo_sealed(1) e demo_sealed(2) m fr nn, of demo_lib "peer_defaults ''g''"] that
  show ?thesis by auto
qed

theorem peer_infer_sound_witness:
  "\<exists>e j n'. peer_infer demo_crypto demo_lib (peer_defaults ''g'') demo_auth_roster demo_key 1010 (Some (envelope_to_dict e)) demo_node
       = (Serve j, n') \<and> sender (jb_env j) = ''b'' \<and> jb_messages j \<noteq> []"
proof -
  obtain e j n' where run: "peer_infer demo_crypto demo_lib (peer_defaults ''g'') demo_auth_roster demo_key 1010 (Some (envelope_to_dict e)) demo_node
       = (Serve j, n')" by (rule demo_served)
  from peer_infer_sound [OF run] obtain doc mem where "map_of (members demo_auth_roster) (sender (jb_env j)) = Some mem" "jb_messages j \<noteq> []"
    by blast
  with run show ?thesis by (auto simp: demo_auth_roster_def split: if_splits)
qed

theorem peer_serves_once_witness:
  "\<exists>e j n'. peer_infer demo_crypto demo_lib (peer_defaults ''g'') demo_auth_roster demo_key 1010 (Some (envelope_to_dict e)) demo_node
       = (Serve j, n')
     \<and> fst (peer_infer demo_crypto demo_lib (peer_defaults ''g'') demo_auth_roster demo_key 1100 (Some (envelope_to_dict e))
         (infer_all demo_crypto demo_lib (peer_defaults ''g'') demo_auth_roster demo_key [(1050, Some (envelope_to_dict e))] n'))
       = Refused 401 ''unauthorized''"
proof -
  obtain e j n' where run: "peer_infer demo_crypto demo_lib (peer_defaults ''g'') demo_auth_roster demo_key 1010 (Some (envelope_to_dict e)) demo_node
       = (Serve j, n')" by (rule demo_served)
  have c: "cache_ok 1000 (replay demo_node)" "DEFAULT_MAX_AGE + CLOCK_SKEW_GRACE < ttl (replay demo_node)"
    by (simp_all add: demo_node_def small_cache_def cache_ok_def DEFAULT_MAX_AGE_def CLOCK_SKEW_GRACE_def)
  have "fst (peer_infer demo_crypto demo_lib (peer_defaults ''g'') demo_auth_roster demo_key 1100 (Some (envelope_to_dict e))
         (infer_all demo_crypto demo_lib (peer_defaults ''g'') demo_auth_roster demo_key [(1050, Some (envelope_to_dict e))] n'))
       = Refused 401 ''unauthorized''"
    by (rule peer_serves_once [OF c(1) _ c(2) run]) (simp_all add: demo_node_def small_cache_def)
  with run show ?thesis by blast
qed

end
