(* ===== verification/Identity.thy ===== *)
theory Identity
  imports Roster
begin

text \<open>
  \<open>client/keys.py\<close> and the key generation of \<open>crypto.py\<close>: a member's identity and where its secrets are
  kept. The machine's state is what reading the identity file gives and the OS keychain (a third-party backend: an
  association from member ids to the blob stored, with whether it is usable and whether a write fails).
\<close>

record identity =
  id_member :: string
  id_sign_seed :: bytes
  id_sign_pub :: bytes
  id_enc_priv :: bytes
  id_enc_pub :: bytes

text \<open>The random seeds are arguments.\<close>

definition new_signing_keypair :: "crypto \<Rightarrow> bytes \<Rightarrow> bytes \<times> bytes" where
  "new_signing_keypair K seed = (seed, ed_pub K seed)"

definition new_encryption_keypair :: "crypto \<Rightarrow> bytes \<Rightarrow> bytes \<times> bytes" where
  "new_encryption_keypair K priv = (priv, box_pub K priv)"

definition generate_identity :: "crypto \<Rightarrow> bytes \<Rightarrow> bytes \<Rightarrow> string \<Rightarrow> identity" where
  "generate_identity K seed priv mid =
     (let (ss, sp) = new_signing_keypair K seed; (ep, eq) = new_encryption_keypair K priv
      in \<lparr>id_member = mid, id_sign_seed = ss, id_sign_pub = sp, id_enc_priv = ep, id_enc_pub = eq\<rparr>)"

definition public_entry :: "identity \<Rightarrow> json" where
  "public_entry i =
     JObj [(''id'', JStr (id_member i)), (''sign_pub'', JStr (b64 (id_sign_pub i))), (''enc_pub'', JStr (b64 (id_enc_pub i)))]"

section \<open>Storage\<close>

text \<open>
  What reading a JSON file does when it fails. \<open>BadUtf8\<close> stands for every \<open>ValueError\<close> that is no
  \<open>JSONDecodeError\<close>: bytes that are not UTF-8, an integer of more than 4300 digits.
\<close>

datatype read_error = FileNotFound | OtherOsError | BadJson | BadUtf8

record id_store =
  id_file :: "read_error + json"
  keychain :: "(string, json) dict"
  keychain_usable :: bool
  keychain_write_fails :: bool

datatype identity_error =
    NoKeychain
  | KeychainWriteFailed
  | KeychainEntryMissing string
  | Unread read_error
  | FieldMissing string
  | OddMemberId \<comment> \<open>a member id that is not a string: not modelled further\<close>
  | IdCrash crash

definition IN_KEYRING :: string where "IN_KEYRING = ''keyring''"

text \<open>The blob is represented by the document it encodes.\<close>

definition secret_fields :: "identity \<Rightarrow> (string \<times> json) list" where
  "secret_fields i = [(''sign_seed'', JStr (b64 (id_sign_seed i))), (''enc_priv'', JStr (b64 (id_enc_priv i)))]"

definition secret_blob :: "identity \<Rightarrow> json" where
  "secret_blob i = JObj (secret_fields i)"

definition public_fields :: "identity \<Rightarrow> (string \<times> json) list" where
  "public_fields i =
     [(''member_id'', JStr (id_member i)), (''sign_pub'', JStr (b64 (id_sign_pub i))), (''enc_pub'', JStr (b64 (id_enc_pub i)))]"

definition save_identity :: "bool \<Rightarrow> identity \<Rightarrow> id_store \<Rightarrow> (identity_error + unit) \<times> id_store" where
  "save_identity use_keyring i s =
     (if use_keyring then
        (if \<not> keychain_usable s then (Inl NoKeychain, s)
         else if keychain_write_fails s then (Inl KeychainWriteFailed, s)
         else (Inr (), s\<lparr>keychain := AList.update (id_member i) (secret_blob i) (keychain s),
                         id_file := Inr (JObj (public_fields i @ [(''secrets'', JStr IN_KEYRING)]))\<rparr>))
      else (Inr (), s\<lparr>id_file := Inr (JObj (public_fields i @ secret_fields i))\<rparr>))"

text \<open>\<open>unb64(doc[key])\<close>.\<close>

definition key_field :: "json \<Rightarrow> string \<Rightarrow> identity_error + bytes" where
  "key_field doc key =
     (case as_obj doc of
        None \<Rightarrow> Inl (IdCrash TypeError)
      | Some d \<Rightarrow>
          (case map_of d key of
             None \<Rightarrow> Inl (FieldMissing key)
           | Some v \<Rightarrow>
               (case as_str v of
                  None \<Rightarrow> Inl (IdCrash AttributeError)
                | Some s \<Rightarrow> map_error (\<lambda>e. IdCrash (ValueError e)) (unb64 s))))"

definition load_secrets :: "json \<Rightarrow> (string \<times> json) list \<Rightarrow> string \<Rightarrow> id_store \<Rightarrow> identity_error + json" where
  "load_secrets doc d mid s =
     (if obj_get d ''secrets'' = JStr IN_KEYRING then
        (if \<not> keychain_usable s then Inl NoKeychain
         else (case map_of (keychain s) mid of None \<Rightarrow> Inl (KeychainEntryMissing mid) | Some blob \<Rightarrow> Inr blob))
      else Inr doc)"

definition load_identity :: "id_store \<Rightarrow> identity_error + identity" where
  "load_identity s =
     (case id_file s of
        Inl e \<Rightarrow> Inl (Unread e)
      | Inr doc \<Rightarrow>
          (case as_obj doc of
             None \<Rightarrow> Inl (IdCrash TypeError)
           | Some d \<Rightarrow>
               (case map_of d ''member_id'' of
                  None \<Rightarrow> Inl (FieldMissing ''member_id'')
                | Some v \<Rightarrow>
                    (case as_str v of
                       None \<Rightarrow> Inl OddMemberId
                     | Some mid \<Rightarrow>
                         rbind (load_secrets doc d mid s) (\<lambda>sec.
                         rbind (key_field sec ''sign_seed'') (\<lambda>ss.
                         rbind (key_field doc ''sign_pub'') (\<lambda>sp.
                         rbind (key_field sec ''enc_priv'') (\<lambda>ep.
                         rbind (key_field doc ''enc_pub'') (\<lambda>eq.
                         Inr \<lparr>id_member = mid, id_sign_seed = ss, id_sign_pub = sp, id_enc_priv = ep, id_enc_pub = eq\<rparr>)))))))))"

definition stored_in_keyring :: "id_store \<Rightarrow> identity_error + bool" where
  "stored_in_keyring s =
     (case id_file s of
        Inl e \<Rightarrow> Inl (Unread e)
      | Inr doc \<Rightarrow>
          (case as_obj doc of
             None \<Rightarrow> Inl (IdCrash AttributeError)
           | Some d \<Rightarrow> Inr (obj_get d ''secrets'' = JStr IN_KEYRING)))"

definition migrate_to_keyring :: "identity \<Rightarrow> id_store \<Rightarrow> (identity_error + unit) \<times> id_store" where
  "migrate_to_keyring i s = save_identity True i s"

section \<open>Properties\<close>

lemma key_field_b64:
  "map_of d k = Some (JStr (b64 bs)) \<Longrightarrow> key_field (JObj d) k = Inr bs"
  by (simp add: key_field_def unb64_b64)

lemma load_saved: "save_identity kr i s = (Inr (), s') \<Longrightarrow> load_identity s' = Inr i"
  by (auto simp: save_identity_def load_identity_def load_secrets_def public_fields_def secret_fields_def secret_blob_def
      IN_KEYRING_def key_field_b64 split: if_splits)

definition secret_on_disk :: "id_store \<Rightarrow> bool" where
  "secret_on_disk s \<longleftrightarrow> (\<exists>d. id_file s = Inr (JObj d) \<and> (''sign_seed'' \<in> fst ` set d \<or> ''enc_priv'' \<in> fst ` set d))"

text \<open>
  An identity survives storage in both forms: whichever way it was saved, it is loaded back with the
  same keys; saving another member's identity in the keychain does not disturb the blob of this one.
\<close>
theorem identity_roundtrip:
  assumes "save_identity kr i s = (Inr (), s')"
  shows "load_identity s' = Inr i \<and> stored_in_keyring s' = Inr kr
    \<and> (\<forall>mid. mid \<noteq> id_member i \<longrightarrow> map_of (keychain s') mid = map_of (keychain s) mid)"
  using load_saved [OF assms] assms
  by (auto simp: save_identity_def stored_in_keyring_def public_fields_def secret_fields_def IN_KEYRING_def
      alist.lookup_store split: if_splits)

text \<open>
  C34: a keychain failure is never resolved by writing the secrets to disk: when the keychain was asked for
  and cannot be used, neither the file nor the keychain changes; when it can, the file holds no secret.
\<close>
theorem keychain_failure_leaves_no_file:
  assumes "save_identity True i s = (res, s')"
  shows "(res = Inr () \<longrightarrow> \<not> secret_on_disk s') \<and> (res \<noteq> Inr () \<longrightarrow> s' = s)
    \<and> (res = Inr () \<longleftrightarrow> keychain_usable s \<and> \<not> keychain_write_fails s)"
  using assms by (auto simp: save_identity_def secret_on_disk_def public_fields_def split: if_splits)

text \<open>
  migrating moves the secrets and keeps the identity: what was loaded before is loaded after, from the
  keychain, and the secrets are gone from the file.
\<close>
theorem migrate_keeps_identity:
  assumes "load_identity s = Inr i" "migrate_to_keyring i s = (Inr (), s')"
  shows "load_identity s' = Inr i \<and> stored_in_keyring s' = Inr True \<and> \<not> secret_on_disk s'"
  using load_saved [OF assms(2) [unfolded migrate_to_keyring_def]] assms(2)
  by (auto simp: migrate_to_keyring_def save_identity_def stored_in_keyring_def secret_on_disk_def public_fields_def IN_KEYRING_def
      split: if_splits)

section \<open>Witnesses\<close>

definition demo_identity :: identity where
  "demo_identity = generate_identity demo_crypto demo_key demo_key ''b''"

definition demo_store :: id_store where
  "demo_store = \<lparr>id_file = Inl FileNotFound, keychain = [], keychain_usable = True, keychain_write_fails = False\<rparr>"

theorem identity_roundtrip_witness: "load_identity (snd (save_identity False demo_identity demo_store)) = Inr demo_identity"
  using identity_roundtrip [of False demo_identity demo_store] by (simp add: save_identity_def)

theorem keychain_failure_leaves_no_file_witness:
  "\<not> secret_on_disk (snd (save_identity True demo_identity demo_store))"
  using keychain_failure_leaves_no_file [of demo_identity demo_store] by (simp add: save_identity_def demo_store_def)

theorem migrate_keeps_identity_witness:
  "load_identity (snd (migrate_to_keyring demo_identity (snd (save_identity False demo_identity demo_store)))) = Inr demo_identity"
proof -
  have "load_identity (snd (save_identity False demo_identity demo_store)) = Inr demo_identity"
    by (rule load_saved [of False _ demo_store]) (simp add: save_identity_def)
  then show ?thesis
    using migrate_keeps_identity [of "snd (save_identity False demo_identity demo_store)" demo_identity]
    by (simp add: migrate_to_keyring_def save_identity_def demo_store_def)
qed

end
