(* ===== verification/Client.thy ===== *)
theory Client
  imports Identity Auth Engines
begin

text \<open>
  \<open>client/client.py\<close>: the two rounds of a request as the client sees them. The coordinator's answers are
  arguments and may be anything: the lease response a decoded document, the response stream a
  \<open>peer_answer\<close>. Random values and times are arguments. What the client yields is a list of events;
  a failure is a \<open>client_error\<close>, of which \<open>ClientError\<close> and \<open>TruncatedStream\<close> are the documented ones and
  the others exceptions of other classes that leave the client.
\<close>

datatype client_reason =
    LeaseRefused int
  | NoPeerId
  | NotOnRoster string
  | KeySubstituted string
  | ServesOtherModel string string
  | InferRefused int
  | MalformedFrame
  | FrameNotObject
  | PeerReported json
  | OutOfOrder int int
  | ChunkNotAuthentic seal_error
  | ForgedFinal

datatype client_error =
    ClientError client_reason
  | TruncatedStream
  | ProtocolEscape proto_error
  | TransportEscape string
  | SealEscape seal_error
  | CrashEscape crash
  | MissingKey string
  | NotJson
  | OddRequestId \<comment> \<open>a request id that is not a string: not modelled further\<close>

datatype client_event = PeerEvent string | TextEvent bytes | ReceiptEvent receipt

section \<open>Round one: the lease\<close>

definition lease_request :: "crypto \<Rightarrow> identity \<Rightarrow> string \<Rightarrow> string \<Rightarrow> pynum \<Rightarrow> value_error + json" where
  "lease_request K i model nonce t =
     sign_request K (id_member i) [(''model'', JStr model)] (id_sign_seed i) nonce t"

text \<open>The status and the body of the response, \<open>None\<close> when it is not JSON.\<close>

definition lease_response :: "int \<times> json option \<Rightarrow> client_error + json" where
  "lease_response ans =
     (if 400 \<le> fst ans then Inl (ClientError (LeaseRefused (fst ans)))
      else (case snd ans of None \<Rightarrow> Inl NotJson | Some granted \<Rightarrow> Inr granted))"

text \<open>\<open>unb64(offered) if isinstance(offered, str) else b""\<close>, and \<open>b""\<close> when it does not decode.\<close>

definition offered_key :: "json \<Rightarrow> bytes" where
  "offered_key v = (case as_str v of None \<Rightarrow> [] | Some s \<Rightarrow> (case unb64 s of Inl e \<Rightarrow> [] | Inr bs \<Rightarrow> bs))"

definition recipient :: "roster \<Rightarrow> json \<Rightarrow> string \<Rightarrow> client_error + bytes" where
  "recipient ro granted model =
     (case as_obj granted of
        None \<Rightarrow> Inl (CrashEscape AttributeError)
      | Some d \<Rightarrow>
          (case nonempty_str (obj_get d ''peer_id'') of
             None \<Rightarrow> Inl (ClientError NoPeerId)
           | Some pid \<Rightarrow>
               (case roster_peer ro pid of
                  Inl e \<Rightarrow> Inl (ClientError (NotOnRoster pid))
                | Inr p \<Rightarrow>
                    (case unb64 (p_enc_pub p) of
                       Inl e \<Rightarrow> Inl (CrashEscape (ValueError e))
                     | Inr key \<Rightarrow>
                         if offered_key (obj_get d ''peer_enc_pub'') \<noteq> key then Inl (ClientError (KeySubstituted pid))
                         else if p_model p \<noteq> model then Inl (ClientError (ServesOtherModel pid (p_model p)))
                         else Inr key))))"

section \<open>Round two: the sealed request\<close>

record request_params =
  rq_model :: string
  rq_messages :: "json list"
  rq_max_tokens :: int
  rq_temperature :: pynum
  rq_top_p :: pynum

definition client_payload :: "request_params \<Rightarrow> json" where
  "client_payload q =
     JObj [(''model'', JStr (rq_model q)), (''messages'', JList (rq_messages q)), (''max_tokens'', JInt (rq_max_tokens q)),
       (''temperature'', JNum (rq_temperature q)), (''top_p'', JNum (rq_top_p q))]"

record client_entropy =
  ce_master :: bytes
  ce_iv :: bytes
  ce_eph :: bytes
  ce_now :: pynum

text \<open>\<open>json.dumps({...}).encode("utf-8")\<close>.\<close>

definition client_plaintext :: "crypto \<Rightarrow> request_params \<Rightarrow> bytes" where
  "client_plaintext K q = utf8 (wire_text (float_repr K) (client_payload q))"

text \<open>The sealed and signed envelope for the granted lease \<open>d\<close>, and the master secret.\<close>

definition client_seal :: "crypto \<Rightarrow> identity \<Rightarrow> request_params \<Rightarrow> client_entropy
    \<Rightarrow> (string \<times> json) list \<Rightarrow> bytes \<Rightarrow> client_error + envelope \<times> bytes" where
  "client_seal K i q ce d key =
     (case map_of d ''request_id'' of
        None \<Rightarrow> Inl (MissingKey ''request_id'')
      | Some v \<Rightarrow>
          (case as_str v of
             None \<Rightarrow> Inl OddRequestId
           | Some rid \<Rightarrow>
               rbind (map_error SealEscape (seal_request K (client_plaintext K q) key rid (id_member i)
                 (ce_now ce) (ce_master ce) (ce_iv ce) (ce_eph ce))) (\<lambda>(env, master).
               rbind (map_error (\<lambda>e. CrashEscape (ValueError e)) (sign_envelope K env (id_sign_seed i))) (\<lambda>signed_env.
               Inr (signed_env, master)))))"

section \<open>Reading the response\<close>

record recv =
  expected_seq :: int
  saw_final :: bool

definition client_chunk :: "crypto \<Rightarrow> bytes \<Rightarrow> recv \<Rightarrow> chunk \<Rightarrow> client_error + client_event list \<times> recv" where
  "client_chunk K master st c =
     (if c_seq c \<noteq> expected_seq st then Inl (ClientError (OutOfOrder (expected_seq st) (c_seq c)))
      else (case unseal_chunk K (c_ciphertext c) master (c_seq c) of
          Inl e \<Rightarrow> Inl (ClientError (ChunkNotAuthentic e))
        | Inr plain \<Rightarrow>
            (let st' = st\<lparr>expected_seq := expected_seq st + 1\<rparr> in
             if c_final c then
               (if plain \<noteq> [] then Inl (ClientError ForgedFinal) else Inr ([], st'\<lparr>saw_final := True\<rparr>))
             else Inr (if plain \<noteq> [] then [TextEvent plain] else [], st'))))"

text \<open>\<open>_decode\<close>: the frame on a line that is not blank.\<close>

definition decode_frame :: "wire_line \<Rightarrow> client_error + (string \<times> json) list" where
  "decode_frame l =
     (case l of
        Json (JObj d) \<Rightarrow> Inr d
      | Json j \<Rightarrow> Inl (ClientError FrameNotObject)
      | Overlong \<Rightarrow> Inl (CrashEscape (ValueError IntDigits))
      | _ \<Rightarrow> Inl (ClientError MalformedFrame))"

definition client_line :: "crypto \<Rightarrow> bytes \<Rightarrow> recv \<Rightarrow> wire_line \<Rightarrow> client_error + client_event list \<times> recv" where
  "client_line K master st l =
     (if l = Blank then Inr ([], st)
      else rbind (decode_frame l) (\<lambda>d.
        let kind = obj_get d ''kind'' in
        if kind = JStr ''error'' then Inl (ClientError (PeerReported (obj_get_or d ''message'' (JStr ''peer error''))))
        else if kind = JStr KIND_CHUNK then
          rbind (map_error ProtocolEscape (chunk_from_dict (JObj d))) (client_chunk K master st)
        else if kind = JStr KIND_RECEIPT then
          rbind (map_error ProtocolEscape (receipt_from_dict (JObj d))) (\<lambda>r. Inr ([ReceiptEvent r], st))
        else Inr ([], st)))"

fun client_loop :: "crypto \<Rightarrow> bytes \<Rightarrow> recv \<Rightarrow> wire_line list \<Rightarrow> client_event list \<times> (client_error + recv)" where
  "client_loop K master st [] = ([], Inr st)"
| "client_loop K master st (l # ls) =
     (case client_line K master st l of
        Inl e \<Rightarrow> ([], Inl e)
      | Inr (evs, st') \<Rightarrow> (let (more, res) = client_loop K master st' ls in (evs @ more, res)))"

definition recv_start :: recv where
  "recv_start = \<lparr>expected_seq = 0, saw_final = False\<rparr>"

definition client_receive :: "crypto \<Rightarrow> bytes \<Rightarrow> peer_answer \<Rightarrow> client_event list \<times> client_error option" where
  "client_receive K master ans =
     (case ans of
        Unreachable exc \<Rightarrow> ([], Some (TransportEscape exc))
      | HttpStatus code body \<Rightarrow> ([], Some (ClientError (InferRefused code)))
      | PeerStream rows broken \<Rightarrow>
          (let (evs, res) = client_loop K master recv_start rows in
           case res of
             Inl e \<Rightarrow> (evs, Some e)
           | Inr st \<Rightarrow>
               (case broken of
                  Some exc \<Rightarrow> (evs, Some (TransportEscape exc))
                | None \<Rightarrow> (evs, if saw_final st then None else Some TruncatedStream))))"

text \<open>
  The whole of \<open>events\<close>: \<open>answer\<close> is what the coordinator sends back for the envelope it is given.
\<close>

definition client_events :: "crypto \<Rightarrow> identity \<Rightarrow> roster \<Rightarrow> request_params \<Rightarrow> client_entropy
    \<Rightarrow> int \<times> json option \<Rightarrow> (json \<Rightarrow> peer_answer) \<Rightarrow> client_event list \<times> client_error option" where
  "client_events K i ro q ce lease_ans answer =
     (case rbind (lease_response lease_ans) (\<lambda>granted.
           rbind (recipient ro granted (rq_model q)) (\<lambda>key.
           rbind (map_error (\<lambda>e. CrashEscape TypeError) (as_object granted)) (\<lambda>d. Inr (d, key)))) of
        Inl e \<Rightarrow> ([], Some e)
      | Inr (d, key) \<Rightarrow>
          (let first = PeerEvent (str_or_empty (obj_get d ''peer_id'')) in
           case client_seal K i q ce d key of
             Inl e \<Rightarrow> ([first], Some e)
           | Inr (env, master) \<Rightarrow>
               (let (evs, err) = client_receive K master (answer (envelope_to_dict env)) in (first # evs, err))))"

section \<open>The text alone\<close>

definition event_texts :: "client_event list \<Rightarrow> bytes list" where
  "event_texts evs = concat (map (\<lambda>e. case e of TextEvent bs \<Rightarrow> [bs] | _ \<Rightarrow> []) evs)"

text \<open>\<open>stream\<close>: only the text events are passed on; the error, if any, comes through.\<close>

definition client_stream :: "client_event list \<times> client_error option \<Rightarrow> bytes list \<times> client_error option" where
  "client_stream run = (event_texts (fst run), snd run)"

section \<open>The buffered form\<close>

record completion =
  cp_text :: string
  cp_peer :: string
  cp_engine :: json
  cp_engine_version :: json
  cp_hw_class :: json
  cp_prompt_tokens :: int
  cp_completion_tokens :: int
  cp_finish :: string

definition blank_completion :: completion where
  "blank_completion = \<lparr>cp_text = [], cp_peer = [], cp_engine = JStr [], cp_engine_version = JStr [], cp_hw_class = JStr [],
     cp_prompt_tokens = 0, cp_completion_tokens = 0, cp_finish = []\<rparr>"

text \<open>\<open>decode\<close> is \<open>bytes.decode("utf-8", "replace")\<close>.\<close>

fun collect :: "(bytes \<Rightarrow> string) \<Rightarrow> client_event \<Rightarrow> completion \<Rightarrow> completion" where
  "collect decode (PeerEvent pid) c = c\<lparr>cp_peer := pid\<rparr>"
| "collect decode (TextEvent bs) c = c\<lparr>cp_text := cp_text c @ decode bs\<rparr>"
| "collect decode (ReceiptEvent r) c = c\<lparr>cp_engine := r_engine r, cp_engine_version := r_engine_version r,
     cp_hw_class := r_hw_class r, cp_prompt_tokens := prompt_tokens r, cp_completion_tokens := completion_tokens r,
     cp_finish := finish_reason r\<rparr>"

definition complete :: "(bytes \<Rightarrow> string) \<Rightarrow> client_event list \<times> client_error option \<Rightarrow> client_error + completion" where
  "complete decode run =
     (case snd run of Some e \<Rightarrow> Inl e | None \<Rightarrow> Inr (fold (collect decode) (fst run) blank_completion))"

definition truncated :: "completion \<Rightarrow> bool" where
  "truncated c \<longleftrightarrow> cp_finish c = ''length''"

section \<open>Lemmas\<close>

lemma event_texts_simps [simp]:
  "event_texts [] = []" "event_texts (xs @ ys) = event_texts xs @ event_texts ys"
  "event_texts (TextEvent bs # evs) = bs # event_texts evs" "event_texts (PeerEvent p # evs) = event_texts evs"
  "event_texts (ReceiptEvent r # evs) = event_texts evs"
  by (simp_all add: event_texts_def)

lemma decode_frame_Inr [simp]: "decode_frame l = Inr d \<longleftrightarrow> l = Json (JObj d)"
  by (auto simp: decode_frame_def split: wire_line.splits json.splits)

lemma recipient_Inr:
  "recipient ro granted model = Inr key \<longleftrightarrow>
     (\<exists>d pid p. granted = JObj d \<and> obj_get d ''peer_id'' = JStr pid \<and> pid \<noteq> [] \<and> map_of (peers ro) pid = Some p
       \<and> unb64 (p_enc_pub p) = Inr key \<and> offered_key (obj_get d ''peer_enc_pub'') = key \<and> p_model p = model)"
  by (auto simp: recipient_def roster_peer_def split: option.splits sum.splits)

text \<open>
  What the peer sealed, by position: the answer's parts, none of them empty, and the empty text that ends it.
\<close>

definition sealed_texts :: "bytes list \<Rightarrow> bytes list" where
  "sealed_texts parts = parts @ [[]]"

text \<open>
  The channel between peer and client: every ciphertext among the lines that opens at its number is one the
  peer sealed there. This is the AEAD's guarantee for whoever does not have the key, the coordinator
  included; lines may otherwise be dropped, repeated, reordered, relabelled and invented.
\<close>

definition authentic_lines :: "crypto \<Rightarrow> bytes \<Rightarrow> bytes list \<Rightarrow> wire_line list \<Rightarrow> bool" where
  "authentic_lines K master parts rows \<longleftrightarrow>
     (\<forall>d c plain. Json (JObj d) \<in> set rows \<longrightarrow> chunk_from_dict (JObj d) = Inr c \<longrightarrow>
        unseal_chunk K (c_ciphertext c) master (c_seq c) = Inr plain \<longrightarrow>
        nat (c_seq c) < length (sealed_texts parts) \<and> plain = sealed_texts parts ! nat (c_seq c))"

lemma authentic_linesD:
  "authentic_lines K master parts rows \<Longrightarrow> Json (JObj d) \<in> set rows \<Longrightarrow> chunk_from_dict (JObj d) = Inr c \<Longrightarrow>
     unseal_chunk K (c_ciphertext c) master (c_seq c) = Inr plain \<Longrightarrow>
     nat (c_seq c) < length (sealed_texts parts) \<and> plain = sealed_texts parts ! nat (c_seq c)"
  unfolding authentic_lines_def by blast

lemma drop_take_split:
  assumes "k \<le> k1" "k1 \<le> k2"
  shows "drop k (take k2 xs) = drop k (take k1 xs) @ drop k1 (take k2 xs)"
proof -
  have "drop k ys = drop k (take k1 ys) @ drop k1 ys" for ys :: "'a list"
    using assms(1) drop_append [of k "take k1 ys" "drop k1 ys"] by (cases "k1 \<le> length ys") auto
  from this [of "take k2 xs"] assms(2) show ?thesis by (simp add: min_absorb1)
qed

lemma client_line_step:
  assumes "client_line K master st l = Inr (evs, st')" "authentic_lines K master parts (l # ls)"
    and st: "expected_seq st = int k" "k \<le> length (sealed_texts parts)" "saw_final st \<longrightarrow> k = length (sealed_texts parts)"
    and parts: "[] \<notin> set parts"
  shows "\<exists>k'. expected_seq st' = int k' \<and> k' \<le> length (sealed_texts parts) \<and> k \<le> k'
    \<and> (saw_final st' \<longrightarrow> k' = length (sealed_texts parts))
    \<and> event_texts evs = filter (\<lambda>b. b \<noteq> []) (drop k (take k' (sealed_texts parts)))"
proof (cases "\<exists>d c. l = Json (JObj d) \<and> obj_get d ''kind'' = JStr KIND_CHUNK \<and> chunk_from_dict (JObj d) = Inr c")
  case True
  then obtain d c where l: "l = Json (JObj d)" "obj_get d ''kind'' = JStr KIND_CHUNK" "chunk_from_dict (JObj d) = Inr c" by blast
  with assms(1) have step: "client_chunk K master st c = Inr (evs, st')"
    by (simp add: client_line_def decode_frame_def KIND_CHUNK_def)
  then obtain plain where sq: "c_seq c = expected_seq st" and op: "unseal_chunk K (c_ciphertext c) master (c_seq c) = Inr plain"
    by (auto simp: client_chunk_def split: if_splits sum.splits)
  with authentic_linesD [OF assms(2), of d c plain] l st(1) have k: "k < length (sealed_texts parts)" "plain = sealed_texts parts ! k"
    by simp_all
  then have drop: "drop k (take (Suc k) (sealed_texts parts)) = [plain]" by (simp add: take_Suc_conv_app_nth)
  have "plain = [] \<Longrightarrow> Suc k = length (sealed_texts parts)"
    using k parts nth_mem [of k parts] by (cases "k < length parts") (auto simp: sealed_texts_def nth_append simp del: nth_mem)
  with step sq op st k drop show ?thesis
    by (intro exI [of _ "Suc k"]) (auto simp: client_chunk_def Let_def split: if_splits)
next
  case False
  with assms(1) have "st' = st \<and> event_texts evs = []"
    by (auto simp: client_line_def Let_def rbind_Inr_iff split: if_splits)
  with st show ?thesis by (intro exI [of _ k]) auto
qed

lemma client_loop_prefix:
  assumes "client_loop K master st rows = (evs, res)" "authentic_lines K master parts rows" "[] \<notin> set parts"
    and "expected_seq st = int k" "k \<le> length (sealed_texts parts)" "saw_final st \<longrightarrow> k = length (sealed_texts parts)"
  shows "\<exists>k'. k \<le> k' \<and> k' \<le> length (sealed_texts parts)
    \<and> event_texts evs = filter (\<lambda>b. b \<noteq> []) (drop k (take k' (sealed_texts parts)))
    \<and> (\<forall>st'. res = Inr st' \<and> saw_final st' \<longrightarrow> k' = length (sealed_texts parts))"
  using assms
proof (induction rows arbitrary: st evs k)
  case Nil
  then show ?case by (intro exI [of _ k]) auto
next
  case (Cons l ls)
  show ?case
  proof (cases "client_line K master st l")
    case (Inl e)
    with Cons.prems show ?thesis by (intro exI [of _ k]) auto
  next
    case (Inr p)
    obtain evs1 st1 where p: "p = (evs1, st1)" by (cases p)
    obtain more where rest: "client_loop K master st1 ls = (more, res)" and evs: "evs = evs1 @ more"
      using Cons.prems(1) Inr p by (auto split: prod.splits)
    from client_line_step [OF Inr [unfolded p] Cons.prems(2,4,5,6,3)] obtain k1 where
      k1: "expected_seq st1 = int k1" "k1 \<le> length (sealed_texts parts)" "k \<le> k1"
        "saw_final st1 \<longrightarrow> k1 = length (sealed_texts parts)"
        "event_texts evs1 = filter (\<lambda>b. b \<noteq> []) (drop k (take k1 (sealed_texts parts)))" by blast
    have "authentic_lines K master parts ls" using Cons.prems(2) by (auto simp: authentic_lines_def)
    from Cons.IH [OF rest this Cons.prems(3) k1(1,2,4)] obtain k2 where
      k2: "k1 \<le> k2" "k2 \<le> length (sealed_texts parts)"
        "event_texts more = filter (\<lambda>b. b \<noteq> []) (drop k1 (take k2 (sealed_texts parts)))"
        "\<forall>st'. res = Inr st' \<and> saw_final st' \<longrightarrow> k2 = length (sealed_texts parts)" by blast
    have "drop k (take k2 (sealed_texts parts)) = drop k (take k1 (sealed_texts parts)) @ drop k1 (take k2 (sealed_texts parts))"
      using k1(3) k2(1) by (rule drop_take_split)
    with k1 k2 evs show ?thesis by (intro exI [of _ k2]) auto
  qed
qed

lemma client_receive_prefix:
  assumes "authentic_lines K master parts rows" "[] \<notin> set parts"
    and "client_receive K master (PeerStream rows broken) = (evs, err)"
  shows "(\<exists>n. event_texts evs = take n parts) \<and> (err = None \<longrightarrow> event_texts evs = parts)"
proof -
  obtain res where loop: "client_loop K master recv_start rows = (evs, res)"
    and err: "err = None \<Longrightarrow> \<exists>st. res = Inr st \<and> saw_final st"
    using assms(3) by (auto simp: client_receive_def split: prod.splits sum.splits option.splits if_splits)
  obtain k where k: "k \<le> length (sealed_texts parts)" "event_texts evs = filter (\<lambda>b. b \<noteq> []) (take k (sealed_texts parts))"
      "\<forall>st. res = Inr st \<and> saw_final st \<longrightarrow> k = length (sealed_texts parts)"
    using client_loop_prefix [OF loop assms(1,2), of 0] by (auto simp: recv_start_def)
  have "filter (\<lambda>b. b \<noteq> []) (take n parts) = take n parts" for n
    using assms(2) by (auto simp: filter_id_conv dest: in_set_takeD)
  from this [of k] this [of "length parts"] have "event_texts evs = take k parts"
    using k(2) by (cases "k - length parts") (auto simp: sealed_texts_def)
  moreover have "length parts \<le> k" if "err = None" using err [OF that] k(3) by (auto simp: sealed_texts_def)
  ultimately show ?thesis by auto
qed

section \<open>Properties\<close>

text \<open>
  C3: the roster, not the coordinator, decides who can read a request: whatever the lease response holds,
  when the client sends something it is one envelope, sealed to the key the roster lists for a peer that the
  roster says serves the requested model; otherwise nothing depends on what the coordinator would answer.
\<close>
theorem client_seals_to_roster_key:
  assumes "client_events K i ro q ce lease_ans answer \<noteq> client_events K i ro q ce lease_ans answer'"
  shows "\<exists>pid p key env master. map_of (peers ro) pid = Some p \<and> p_model p = rq_model q \<and> unb64 (p_enc_pub p) = Inr key
    \<and> sealed_key env = b64 (box_seal K key (ce_eph ce) (ce_master ce)) \<and> sender env = id_member i \<and> master = ce_master ce
    \<and> (\<exists>first. client_events K i ro q ce lease_ans answer =
         (first # fst (client_receive K master (answer (envelope_to_dict env))), snd (client_receive K master (answer (envelope_to_dict env)))))"
proof -
  let ?r = "rbind (lease_response lease_ans) (\<lambda>granted. rbind (recipient ro granted (rq_model q)) (\<lambda>key.
    rbind (map_error (\<lambda>e. CrashEscape TypeError) (as_object granted)) (\<lambda>d. Inr (d, key))))"
  obtain d key where r: "?r = Inr (d, key)" using assms by (cases ?r) (auto simp: client_events_def)
  then obtain granted where g: "recipient ro granted (rq_model q) = Inr key" "granted = JObj d"
      "lease_response lease_ans = Inr granted"
    by (auto simp: rbind_Inr_iff)
  obtain env master where seal: "client_seal K i q ce d key = Inr (env, master)"
    using assms r by (cases "client_seal K i q ce d key") (auto simp: client_events_def)
  from g(1) obtain pid p where p: "map_of (peers ro) pid = Some p" "p_model p = rq_model q" "unb64 (p_enc_pub p) = Inr key"
    by (auto simp: recipient_Inr)
  from seal have env: "sealed_key env = b64 (box_seal K key (ce_eph ce) (ce_master ce))" "sender env = id_member i" "master = ce_master ce"
    by (auto simp: client_seal_def seal_request_def sign_envelope_def rbind_Inr_iff split: option.splits if_splits)
  have "client_events K i ro q ce lease_ans answer =
      (PeerEvent (str_or_empty (obj_get d ''peer_id'')) # fst (client_receive K master (answer (envelope_to_dict env))),
       snd (client_receive K master (answer (envelope_to_dict env))))"
    using r seal by (simp add: client_events_def Let_def case_prod_unfold)
  with p env show ?thesis by blast
qed

text \<open>
  C2: the relay can neither forge nor silently truncate an answer: over any response stream in which the
  ciphertexts that open are the peer's own, in any order, with any framing and any other frames between,
  the text the client yields is a prefix of the answer, and when it reports success it is all of it.
\<close>
theorem client_gets_answer_or_error:
  assumes "authentic_lines K master parts rows" "[] \<notin> set parts"
    and "client_receive K master (PeerStream rows broken) = (evs, err)"
  shows "(\<exists>n. event_texts evs = take n parts) \<and> (err = None \<longrightarrow> event_texts evs = parts)"
  by (rule client_receive_prefix [OF assms])

text \<open>
  an integrity failure is not always a \<open>ClientError\<close>: a chunk or receipt frame that does not parse leaves
  the client as a \<open>ProtocolError\<close>, which callers that catch \<open>ClientError\<close> do not handle.
\<close>
theorem malformed_frame_escapes:
  "client_receive K master (PeerStream [Json (JObj [(''kind'', JStr ''chunk''), (''v'', JInt 2)])] None)
     = ([], Some (ProtocolEscape (UnsupportedVersion 2)))"
  by (simp add: client_receive_def client_line_def decode_frame_def KIND_CHUNK_def chunk_from_dict_def check_version_def
      SUPPORTED_VERSIONS_def as_object_def Let_def)

text \<open>Nor is a frame with a number of more than 4300 digits: \<open>_decode\<close> catches \<open>JSONDecodeError\<close> only.\<close>

lemma overlong_frame_escapes:
  "client_receive K master (PeerStream [Overlong] None) = ([], Some (CrashEscape (ValueError IntDigits)))"
  by (simp add: client_receive_def client_line_def decode_frame_def)

section \<open>Witnesses\<close>

definition demo_client_roster :: roster where
  "demo_client_roster = demo_roster\<lparr>peers := [(''g'', demo_peer\<lparr>p_enc_pub := b64 demo_key\<rparr>)]\<rparr>"

definition demo_granted :: json where
  "demo_granted = JObj [(''peer_id'', JStr ''g''), (''peer_enc_pub'', JStr (b64 demo_key)), (''request_id'', JStr ''r'')]"

definition demo_query :: request_params where
  "demo_query = \<lparr>rq_model = ''m'', rq_messages = [], rq_max_tokens = 2, rq_temperature = Flt 0, rq_top_p = Flt 1\<rparr>"

definition demo_entropy :: client_entropy where
  "demo_entropy = \<lparr>ce_master = replicate 32 0, ce_iv = [9], ce_eph = [], ce_now = IntN 1000\<rparr>"

lemma demo_sends:
  "\<exists>env. \<forall>answer. client_events demo_crypto demo_identity demo_client_roster demo_query demo_entropy (200, Some demo_granted) answer
     = (PeerEvent ''g'' # fst (client_receive demo_crypto (replicate 32 0) (answer (envelope_to_dict env))),
        snd (client_receive demo_crypto (replicate 32 0) (answer (envelope_to_dict env))))"
proof -
  have r: "recipient demo_client_roster demo_granted ''m'' = Inr demo_key"
    by (simp add: recipient_Inr demo_granted_def demo_client_roster_def demo_peer_def unb64_b64 offered_key_def)
  have "\<exists>env. client_seal demo_crypto demo_identity demo_query demo_entropy
      [(''peer_id'', JStr ''g''), (''peer_enc_pub'', JStr (b64 demo_key)), (''request_id'', JStr ''r'')] demo_key = Inr (env, replicate 32 0)"
    by (simp add: client_seal_def seal_request_def derive_def MASTER_LEN_def demo_entropy_def demo_key_def
        sign_envelope_def signed_bytes_def canonical_def envelope_fields_def)
  with r show ?thesis
    by (auto simp: client_events_def lease_response_def demo_query_def demo_granted_def as_object_def str_or_empty_def Let_def case_prod_unfold)
qed

theorem client_seals_to_roster_key_witness:
  "\<exists>p key. map_of (peers demo_client_roster) ''g'' = Some p \<and> p_model p = rq_model demo_query \<and> unb64 (p_enc_pub p) = Inr key"
proof -
  let ?run = "client_events demo_crypto demo_identity demo_client_roster demo_query demo_entropy (200, Some demo_granted)"
  have "?run (\<lambda>d. Unreachable ''x'') \<noteq> ?run (\<lambda>d. Unreachable ''y'')"
    using demo_sends by (auto simp: client_receive_def)
  from client_seals_to_roster_key [OF this] show ?thesis
    by (auto simp: demo_client_roster_def split: if_splits)
qed

text \<open>A relay that delivers the first of two chunks and drops the rest.\<close>

theorem client_gets_answer_or_error_witness:
  "\<exists>ct. seal_chunk demo_crypto (utf8 ''hi'') (replicate 32 0) 0 = Inr ct
     \<and> snd (client_receive demo_crypto (replicate 32 0) (PeerStream [Json (chunk_to_dict (demo_chunk\<lparr>c_ciphertext := ct, c_final := False\<rparr>))] None)) \<noteq> None"
proof -
  obtain ct where ct: "seal_chunk demo_crypto (utf8 ''hi'') (replicate 32 0) 0 = Inr ct"
    using chunk_nonce_total [of 0] by (auto simp: seal_chunk_Inr)
  let ?c = "demo_chunk\<lparr>c_ciphertext := ct, c_final := False\<rparr>"
  let ?rows = "[Json (chunk_to_dict ?c)]"
  have parse: "chunk_from_dict (chunk_to_dict ?c) = Inr ?c"
    using seal_chunk_nonempty [OF demo_crypto_laws ct] by (intro chunk_codec.dec_enc) (simp add: chunk_ok_def demo_chunk_def)
  have open_c: "unseal_chunk demo_crypto ct (replicate 32 0) 0 = Inr (utf8 ''hi'')" by (rule unseal_seal_chunk [OF demo_crypto_laws ct])
  have "authentic_lines demo_crypto (replicate 32 0) [utf8 ''hi'', utf8 ''ho''] ?rows"
    unfolding authentic_lines_def
  proof (intro allI impI)
    fix d c plain
    assume "Json (JObj d) \<in> set ?rows" "chunk_from_dict (JObj d) = Inr c"
    then have "c = ?c" using parse by simp
    moreover assume "unseal_chunk demo_crypto (c_ciphertext c) (replicate 32 0) (c_seq c) = Inr plain"
    ultimately show "nat (c_seq c) < length (sealed_texts [utf8 ''hi'', utf8 ''ho''])
        \<and> plain = sealed_texts [utf8 ''hi'', utf8 ''ho''] ! nat (c_seq c)"
      using open_c by (simp add: demo_chunk_def sealed_texts_def)
  qed
  moreover have "[] \<notin> set [utf8 ''hi'', utf8 ''ho'']" by code_simp
  moreover obtain evs err where run: "client_receive demo_crypto (replicate 32 0) (PeerStream ?rows None) = (evs, err)" by fastforce
  ultimately have "err = None \<longrightarrow> event_texts evs = [utf8 ''hi'', utf8 ''ho'']"
    using client_gets_answer_or_error [of demo_crypto "replicate 32 0" "[utf8 ''hi'', utf8 ''ho'']" ?rows None evs err] by blast
  moreover have "event_texts evs = [utf8 ''hi'']"
  proof -
    have "client_line demo_crypto (replicate 32 0) recv_start (Json (chunk_to_dict ?c)) = Inr ([TextEvent (utf8 ''hi'')], \<lparr>expected_seq = 1, saw_final = False\<rparr>)"
      using parse open_c by (simp add: client_line_def decode_frame_def chunk_to_dict_def KIND_CHUNK_def client_chunk_def recv_start_def demo_chunk_def Let_def utf8_def utf8_char_def)
    with run show ?thesis by (auto simp: client_receive_def)
  qed
  ultimately have "err \<noteq> None" by simp
  with ct run show ?thesis by auto
qed

end
