(* ===== verification/WireText.thy ===== *)
theory WireText
  imports Engines
begin

text \<open>
  The text behind a \<open>wire_line\<close>: the lines of a streamed body, what the coordinator and the client make of a line,
  and how a program prints a frame, \<open>json.dumps(frame) + "\n"\<close>. The cutting of a body into lines is httpx's
  \<open>aiter_lines\<close>, an argument \<open>lines_of\<close> with two laws; \<open>str.splitlines\<close>, which it is documented to follow, has them. The lemmas show that the frames a program
  prints are the frames that are read.
\<close>

section \<open>Lines\<close>

definition line_break :: "char \<Rightarrow> bool" where
  "line_break c \<longleftrightarrow> (let n = of_char c :: nat in 10 \<le> n \<and> n \<le> 13 \<or> 28 \<le> n \<and> n \<le> 30 \<or> n = 133)"

text \<open>\<open>cur\<close> is the line being read, reversed; a carriage return takes the line feed after it along.\<close>

fun split_lines :: "string \<Rightarrow> string \<Rightarrow> string list" where
  "split_lines cur [] = (if cur = [] then [] else [rev cur])"
| "split_lines cur (c # cs) =
     (if line_break c
      then rev cur # split_lines [] (if c = CHR 0x0D \<and> cs \<noteq> [] \<and> hd cs = CHR 0x0A then tl cs else cs)
      else split_lines (c # cur) cs)"

definition text_lines :: "string \<Rightarrow> string list" where
  "text_lines s = split_lines [] s"

text \<open>\<open>line.strip()\<close>, the test for a blank line and \<open>json.loads(line)\<close>.\<close>

definition wire_line_of :: "pylib \<Rightarrow> string \<Rightarrow> wire_line" where
  "wire_line_of L raw =
     (let line = py_strip raw in
      if line = [] then Blank
      else (case json_loads L line of
          Inr v \<Rightarrow> Json v
        | Inl JsonDecode \<Rightarrow> Garbage line
        | Inl e \<Rightarrow> Overlong))"

definition print_lines :: "string list \<Rightarrow> string" where
  "print_lines ls = concat (map (\<lambda>l. l @ [CHR 0x0A]) ls)"

text \<open>What is used of \<open>aiter_lines\<close>: lines hold no line break, and lines without one that are ended by a feed come out.\<close>

definition line_laws :: "(string \<Rightarrow> string list) \<Rightarrow> bool" where
  "line_laws lines_of \<longleftrightarrow>
     (\<forall>s. \<forall>l \<in> set (lines_of s). \<forall>c \<in> set l. \<not> line_break c)
     \<and> (\<forall>ls. (\<forall>l \<in> set ls. \<forall>c \<in> set l. \<not> line_break c) \<longrightarrow> lines_of (print_lines ls) = ls)"

text \<open>The body a generator of frames streams, and the rows its reader gets.\<close>

definition print_frames :: "(rat \<Rightarrow> string) \<Rightarrow> json list \<Rightarrow> string" where
  "print_frames frepr frames = print_lines (map (wire_text frepr) frames)"

definition body_rows :: "pylib \<Rightarrow> (string \<Rightarrow> string list) \<Rightarrow> string \<Rightarrow> wire_line list" where
  "body_rows L lines_of body = map (wire_line_of L) (lines_of body)"

section \<open>Lemmas\<close>

lemma line_break_LF [simp]: "line_break CHR 0x0A"
  by (simp add: line_break_def)

lemma split_lines_plain:
  "(\<And>c. c \<in> set l \<Longrightarrow> \<not> line_break c) \<Longrightarrow> split_lines cur (l @ CHR 0x0A # s) = (rev cur @ l) # split_lines [] s"
  by (induction l arbitrary: cur) auto

lemma text_lines_print:
  assumes "\<And>l c. l \<in> set ls \<Longrightarrow> c \<in> set l \<Longrightarrow> \<not> line_break c"
  shows "text_lines (print_lines ls) = ls"
  using assms
proof (induction ls)
  case (Cons l ls)
  have "split_lines [] (l @ CHR 0x0A # print_lines ls) = l # split_lines [] (print_lines ls)"
    using split_lines_plain [of l "[]" "print_lines ls"] Cons.prems by auto
  moreover have "text_lines (print_lines ls) = ls" by (rule Cons.IH) (use Cons.prems in auto)
  ultimately show ?case by (simp add: text_lines_def print_lines_def)
qed (simp add: text_lines_def print_lines_def)

lemma text_lines_unbroken:
  assumes "l \<in> set (split_lines cur s)" "\<And>c. c \<in> set cur \<Longrightarrow> \<not> line_break c" "c \<in> set l"
  shows "\<not> line_break c"
  using assms
proof (induction cur s arbitrary: l c rule: split_lines.induct)
  case (2 cur d cs)
  show ?case
  proof (cases "line_break d")
    case True
    with 2 show ?thesis by (auto split: if_splits)
  next
    case False
    with 2(2) [OF False, of l c] 2(3-) show ?thesis by (auto split: if_splits)
  qed
qed (auto split: if_splits)

lemma line_laws_text_lines: "line_laws text_lines"
  using text_lines_unbroken [of _ "[]"] text_lines_print by (auto simp: line_laws_def text_lines_def)

lemma py_strip_subset: "c \<in> set (py_strip s) \<Longrightarrow> c \<in> set s"
  by (auto simp: py_strip_def dest!: set_dropWhileD)

lemma dropWhile_hd: "s = [] \<or> \<not> P (hd s) \<Longrightarrow> dropWhile P s = s"
  by (cases s) auto

lemma py_strip_id: "s = [] \<or> \<not> py_isspace (hd s) \<and> \<not> py_isspace (last s) \<Longrightarrow> py_strip s = s"
  using dropWhile_hd [of s py_isspace] dropWhile_hd [of "rev s" py_isspace] by (auto simp: py_strip_def hd_rev)

lemma last_dropWhile: "dropWhile P xs \<noteq> [] \<Longrightarrow> last (dropWhile P xs) = last xs"
  by (metis last_appendR takeWhile_dropWhile_id)

lemma py_strip_ends:
  "py_strip s = [] \<or> \<not> py_isspace (hd (py_strip s)) \<and> \<not> py_isspace (last (py_strip s))"
proof (cases "py_strip s = []")
  case False
  define t u where "t = dropWhile py_isspace s" and "u = dropWhile py_isspace (rev t)"
  have strip: "py_strip s = rev u" by (simp add: py_strip_def t_def u_def)
  with False have "u \<noteq> []" by simp
  then have "t \<noteq> []" by (auto simp: u_def)
  have "last u = last (rev t)" using last_dropWhile \<open>u \<noteq> []\<close> unfolding u_def by blast
  then have "hd (py_strip s) = hd t" using \<open>t \<noteq> []\<close> by (simp add: strip hd_rev last_rev)
  moreover have "\<not> py_isspace (hd t)" using hd_dropWhile \<open>t \<noteq> []\<close> unfolding t_def by blast
  moreover have "\<not> py_isspace (hd u)" using hd_dropWhile \<open>u \<noteq> []\<close> unfolding u_def by blast
  ultimately show ?thesis by (simp add: strip last_rev)
qed simp

lemma py_strip_strip [simp]: "py_strip (py_strip s) = py_strip s"
  by (rule py_strip_id [OF py_strip_ends])

lemma wire_line_of_strip [simp]: "wire_line_of L (py_strip s) = wire_line_of L s"
  by (simp add: wire_line_of_def)

lemma wire_line_of_Blank: "wire_line_of L s = Blank \<longleftrightarrow> py_strip s = []"
  by (simp add: wire_line_of_def Let_def split: sum.split value_error.split)

lemma plain_unbroken: "plain_char c \<Longrightarrow> \<not> line_break c"
  by (simp add: plain_char_def line_break_def Let_def)

lemma wire_line_of_frame:
  assumes "printable frepr (JObj d)"
  shows "wire_line_of L (wire_text frepr (JObj d)) = Json (JObj d)"
proof -
  have "py_strip (wire_text frepr (JObj d)) = wire_text frepr (JObj d)"
    by (rule py_strip_id) (simp_all add: py_isspace_def)
  then show ?thesis using loads_wire_text(1) [OF assms, of L] by (simp add: wire_line_of_def del: wire_text.simps) simp
qed

lemma rows_of_frames:
  assumes lines_of: "line_laws lines_of" and frames: "\<And>f. f \<in> set frames \<Longrightarrow> printable frepr f \<and> (\<exists>d. f = JObj d)"
  shows "body_rows L lines_of (print_frames frepr frames) = map Json frames"
proof -
  have "\<not> line_break c" if "f \<in> set frames" "c \<in> set (wire_text frepr f)" for f c
    using that wire_text_plain [of frepr f] frames plain_unbroken by (auto simp: list_all_iff)
  then have "lines_of (print_frames frepr frames) = map (wire_text frepr) frames"
    using lines_of by (simp add: print_frames_def line_laws_def)
  moreover have "wire_line_of L (wire_text frepr f) = Json f" if "f \<in> set frames" for f
    using frames [OF that] wire_line_of_frame by blast
  ultimately show ?thesis by (simp add: body_rows_def)
qed

end
