(* ===== verification/LeaseLife.thy ===== *)
theory LeaseLife
  imports Scheduler
begin

text \<open>
  What \<open>coordinator/scheduler.py\<close> promises about one request id, as an automaton, and the proof that the
  scheduler refines it: the id is unknown, then names an active lease, perhaps a redeemed one, and is gone
  for good; which operation may move it, and when, is part of the automaton.
\<close>

datatype phase = Unknown | Active lease | Spent lease | Gone

fun held_lease :: "phase \<Rightarrow> lease option" where
  "held_lease (Active l) = Some l"
| "held_lease (Spent l) = Some l"
| "held_lease _ = None"

text \<open>What the caller of an operation is told: the lease or the error of a redemption, and of an acquisition that does not wait.\<close>

fun told :: "sched_op \<Rightarrow> scheduler \<Rightarrow> (sched_error + lease) option" where
  "told (Redeem now rid mid) s = Some (fst (redeem now rid mid s))"
| "told (Acquire now mid m) s =
     (case fst (acquire now mid m s) of Inl err \<Rightarrow> Some (Inl err) | Inr (Leased l) \<Rightarrow> Some (Inr l) | Inr (Waiting n) \<Rightarrow> None)"
| "told _ s = None"

fun hands_over :: "string \<Rightarrow> (sched_error + lease) option \<Rightarrow> bool" where
  "hands_over rid (Some (Inr l)) = (l_request_id l = rid)"
| "hands_over rid _ = False"

text \<open>The operations about other ids, and those of them that may serve a waiter with a lease under this id.\<close>

fun elsewhere :: "string \<Rightarrow> sched_op \<Rightarrow> bool" where
  "elsewhere rid (Release now r) = (r \<noteq> rid)"
| "elsewhere rid (Redeem now r mid) = (r \<noteq> rid)"
| "elsewhere rid _ = True"

fun wakes :: "string \<Rightarrow> sched_op \<Rightarrow> bool" where
  "wakes rid (Release now r) = True"
| "wakes rid (Redeem now r mid) = (r \<noteq> rid)"
| "wakes rid (ExpireStale now) = True"
| "wakes rid _ = False"

fun reclaims :: "sched_op \<Rightarrow> lease \<Rightarrow> bool" where
  "reclaims (ExpireStale now) l = (l_expires_at l < now)"
| "reclaims _ l = False"

text \<open>
  The automaton of one id. An operation about something else leaves the id alone and hands nobody its lease. The id
  becomes active by an acquisition that hands out its lease, or by an operation that wakes a waiter. What a
  redemption of the id answers is fixed by the phase: the lease once, errors before and after.
\<close>

inductive lease_step :: "string \<Rightarrow> sched_op \<Rightarrow> (sched_error + lease) option \<Rightarrow> phase \<Rightarrow> phase \<Rightarrow> bool" for rid where
  other: "elsewhere rid op \<Longrightarrow> \<not> hands_over rid ans \<Longrightarrow> (\<And>l. held_lease ph = Some l \<Longrightarrow> \<not> reclaims op l) \<Longrightarrow>
    lease_step rid op ans ph ph"
| leased: "l_request_id l = rid \<Longrightarrow> l_member l = mid \<Longrightarrow> lease_step rid (Acquire now mid m) (Some (Inr l)) Unknown (Active l)"
| woken: "wakes rid op \<Longrightarrow> \<not> hands_over rid ans \<Longrightarrow> l_request_id l = rid \<Longrightarrow> lease_step rid op ans Unknown (Active l)"
| absent: "held_lease ph = None \<Longrightarrow> lease_step rid (Redeem now rid mid) (Some (Inl NoActiveLease)) ph ph"
| foreign: "held_lease ph = Some l \<Longrightarrow> l_member l \<noteq> mid \<Longrightarrow>
    lease_step rid (Redeem now rid mid) (Some (Inl WrongMember)) ph ph"
| used: "now \<le> l_expires_at l \<Longrightarrow> lease_step rid (Redeem now rid (l_member l)) (Some (Inr l)) (Active l) (Spent l)"
| again: "now \<le> l_expires_at l \<Longrightarrow>
    lease_step rid (Redeem now rid (l_member l)) (Some (Inl AlreadyRedeemed)) (Spent l) (Spent l)"
| refused: "held_lease ph = Some l \<Longrightarrow> l_expires_at l < now \<Longrightarrow>
    lease_step rid (Redeem now rid (l_member l)) (Some (Inl LeasePastTtl)) ph Gone"
| given_back: "held_lease ph \<noteq> None \<Longrightarrow> lease_step rid (Release now rid) None ph Gone"
| not_held: "held_lease ph = None \<Longrightarrow> lease_step rid (Release now rid) None ph ph"
| expired: "held_lease ph = Some l \<Longrightarrow> l_expires_at l < now \<Longrightarrow> lease_step rid (ExpireStale now) None ph Gone"

inductive_simps lease_step_redeem: "lease_step rid (Redeem now rid mid) ans ph ph'"
inductive_simps lease_step_Gone: "lease_step rid op ans Gone ph"

text \<open>The abstraction: where a scheduler has the id.\<close>

definition phase_of :: "string \<Rightarrow> scheduler \<Rightarrow> phase" where
  "phase_of rid s =
     (case map_of (leases s) rid of
        Some l \<Rightarrow> if rid \<in> redeemed s then Spent l else Active l
      | None \<Rightarrow> if rid \<in> tokens s ` {..<next_token s} then Gone else Unknown)"

section \<open>Simulation\<close>

lemma phase_cong:
  "leases s' = leases s \<Longrightarrow> redeemed s' = redeemed s \<Longrightarrow> tokens s' = tokens s \<Longrightarrow> next_token s' = next_token s \<Longrightarrow>
     phase_of rid s' = phase_of rid s"
  by (simp add: phase_of_def split: option.split)

lemma phase_frame [simp]:
  "phase_of rid (s\<lparr>waiters := ws\<rparr>) = phase_of rid s" "phase_of rid (s\<lparr>futures := fs\<rparr>) = phase_of rid s"
  "phase_of rid (s\<lparr>reg := r\<rparr>) = phase_of rid s"
  by (simp_all add: phase_of_def split: option.split)

lemma held_lease_phase [simp]: "held_lease (phase_of rid s) = map_of (leases s) rid"
  by (simp add: phase_of_def split: option.splits)

text \<open>Granting is all that dispatching does to an id.\<close>

definition only_granted :: "string \<Rightarrow> phase \<Rightarrow> phase \<Rightarrow> bool" where
  "only_granted rid ph ph' \<longleftrightarrow> ph' = ph \<or> (ph = Unknown \<and> (\<exists>l. ph' = Active l \<and> l_request_id l = rid))"

lemma only_granted_refl [simp]: "only_granted rid ph ph"
  by (simp add: only_granted_def)

lemma only_granted_trans: "only_granted rid a b \<Longrightarrow> only_granted rid b c \<Longrightarrow> only_granted rid a c"
  by (auto simp: only_granted_def)

lemma only_granted_held: "only_granted rid a b \<Longrightarrow> a \<noteq> Unknown \<Longrightarrow> b = a"
  by (auto simp: only_granted_def)

lemma issue_phase:
  assumes "leases_ok s"
  shows "only_granted rid (phase_of rid s) (phase_of rid (snd (issue now mid p s)))"
proof (cases "rid = tokens s (next_token s)")
  case True
  have "map_of (leases s) rid = None" using token_fresh [OF assms] True by simp
  moreover from this have "rid \<notin> redeemed s" using assms by (auto simp: leases_ok_def map_of_eq_None_iff)
  moreover have "rid \<notin> tokens s ` {..<next_token s}" using assms True by (auto simp: leases_ok_def inj_eq)
  ultimately show ?thesis using True by (simp add: only_granted_def phase_of_def issue_def Let_def alist.lookup_store)
next
  case False
  have "rid \<in> tokens s ` {..<Suc (next_token s)} \<longleftrightarrow> rid \<in> tokens s ` {..<next_token s}"
    using False by (auto simp: less_Suc_eq)
  with False have "phase_of rid (snd (issue now mid p s)) = phase_of rid s"
    by (simp add: phase_of_def issue_def Let_def alist.lookup_store split: option.split)
  then show ?thesis by simp
qed

lemma serve_phase:
  assumes "leases_ok s" shows "only_granted rid (phase_of rid s) (phase_of rid (serve now w ws p s))"
proof -
  have "leases_ok (s\<lparr>waiters := ws\<rparr>)" using assms by (simp cong: leases_ok_cong)
  from issue_phase [OF this, of rid now "w_member w" p] show ?thesis
    by (simp add: serve_def Let_def)
qed

lemma dispatch_loop_phase:
  "leases_ok s \<Longrightarrow> only_granted rid (phase_of rid s) (phase_of rid (snd (dispatch_loop now d s)))"
proof (induction d s rule: dispatch_loop_induct [where now = now])
  case (Serve d s w ws p)
  from Serve.IH serve_ok [OF Serve.prems Serve.hyps(3)]
  have "only_granted rid (phase_of rid (serve now w ws p s)) (phase_of rid (snd (dispatch_loop now d (serve now w ws p s))))" by blast
  with serve_phase [OF Serve.prems] only_granted_trans Serve.hyps(4) show ?case by metis
qed (simp_all cong: leases_ok_cong phase_cong)

lemma dispatch_phase:
  assumes "leases_ok s" shows "only_granted rid (phase_of rid s) (phase_of rid (dispatch now s))"
  unfolding dispatch_eq using dispatch_loop_phase [OF assms, of rid now "[]"] by (simp cong: phase_cong)

lemma release_phase:
  assumes "sched_ok s"
  shows "if rid' = rid \<and> held_lease (phase_of rid s) \<noteq> None then phase_of rid (release now rid' s) = Gone
    else only_granted rid (phase_of rid s) (phase_of rid (release now rid' s))"
proof -
  have ok: "leases_ok s" using assms by (simp add: sched_ok_def)
  let ?d = "s\<lparr>leases := AList.delete rid' (leases s), redeemed := redeemed s - {rid'}\<rparr>"
  obtain s1 where s1: "release now rid' s = dispatch now s1" "leases_ok s1" "phase_of rid s1 = phase_of rid ?d"
  proof (cases "map_of (leases s) rid'")
    case None
    then show ?thesis by (intro that [OF _ release_absent_ok [OF ok None]]) (simp_all add: release_def Let_def)
  next
    case (Some l)
    show ?thesis
      by (rule that [OF _ release_slots_ok [OF ok Some]]) (simp_all add: Some release_def Let_def phase_of_def split: option.split)
  qed
  have known: "rid \<in> tokens s ` {..<next_token s}" if "map_of (leases s) rid \<noteq> None"
    using that ok map_of_SomeD by (force simp: leases_ok_def lease_ok_def)
  have "phase_of rid ?d = (if rid' = rid \<and> held_lease (phase_of rid s) \<noteq> None then Gone else phase_of rid s)"
    using known by (auto simp: phase_of_def alist.lookup_remove split: option.split)
  with dispatch_phase [OF s1(2), of rid now] s1(1,3) show ?thesis
    by (auto dest: only_granted_held)
qed

lemma releases_phase:
  assumes "sched_ok s" "rid \<in> set rids \<longrightarrow> phase_of rid s \<noteq> Unknown"
  shows "if rid \<in> set rids \<and> held_lease (phase_of rid s) \<noteq> None then phase_of rid (fold (release now) rids s) = Gone
    else only_granted rid (phase_of rid s) (phase_of rid (fold (release now) rids s))"
  using assms
proof (induction rids arbitrary: s)
  case (Cons x rids)
  note one = release_phase [OF Cons.prems(1), of x rid now]
  have "rid \<in> set rids \<longrightarrow> phase_of rid (release now x s) \<noteq> Unknown"
    using one Cons.prems(2) by (auto dest: only_granted_held split: if_splits)
  note rest = Cons.IH [OF release_ok [OF Cons.prems(1)] this]
  show ?case
  proof (cases "x = rid \<and> held_lease (phase_of rid s) \<noteq> None")
    case True
    with one have gone: "phase_of rid (release now x s) = Gone" by simp
    then have "held_lease (phase_of rid (release now x s)) = None" by (simp only: held_lease.simps)
    with rest have "only_granted rid Gone (phase_of rid (fold (release now) rids (release now x s)))"
      by (simp only: gone if_False simp_thms)
    with True show ?thesis by (auto dest: only_granted_held)
  next
    case False
    with one have step: "only_granted rid (phase_of rid s) (phase_of rid (release now x s))" by auto
    show ?thesis
    proof (cases "rid \<in> set rids")
      case True
      with Cons.prems(2) step have "phase_of rid (release now x s) = phase_of rid s" by (auto dest: only_granted_held)
      with rest True show ?thesis by auto
    next
      case rids: False
      with rest have "only_granted rid (phase_of rid (release now x s)) (phase_of rid (fold (release now) rids (release now x s)))" by simp
      with step False rids show ?thesis by (auto dest: only_granted_trans)
    qed
  qed
qed simp

lemma stale_lease:
  assumes "sched_ok s"
  shows "rid \<in> set (stale_leases now s) \<longleftrightarrow> (\<exists>l. map_of (leases s) rid = Some l \<and> l_expires_at l < now)"
proof -
  have "distinct (map fst (leases s))" using assms by (simp add: sched_ok_def leases_ok_def)
  then show ?thesis by (force simp: stale_leases_def dest: map_of_SomeD)
qed

lemma only_granted_step:
  "only_granted rid ph ph' \<Longrightarrow> wakes rid op \<Longrightarrow> elsewhere rid op \<Longrightarrow> \<not> hands_over rid ans \<Longrightarrow>
     (\<And>l. held_lease ph = Some l \<Longrightarrow> \<not> reclaims op l) \<Longrightarrow> lease_step rid op ans ph ph'"
  by (auto simp: only_granted_def intro: woken other)

lemma acquire_phase:
  assumes "sched_ok s"
  shows "lease_step rid (Acquire now mid m) (told (Acquire now mid m) s) (phase_of rid s) (phase_of rid (snd (acquire now mid m s)))"
proof (cases "fst (acquire now mid m s)")
  case (Inl err)
  then have "snd (acquire now mid m s) = s" by (auto simp: acquire_def Let_def case_prod_unfold split: option.splits if_splits sum.splits)
  with Inl show ?thesis by (auto intro: other)
next
  case (Inr a)
  show ?thesis
  proof (cases a)
    case (Waiting n)
    with Inr have "phase_of rid (snd (acquire now mid m s)) = phase_of rid s"
      by (auto simp: acquire_def Let_def case_prod_unfold phase_of_def split: option.splits if_splits sum.splits)
    with Inr Waiting show ?thesis by (auto intro: other)
  next
    case (Leased l)
    have ok: "leases_ok s" using assms by (simp add: sched_ok_def)
    from Inr Leased obtain p where l: "l = fst (issue now mid p s)" "snd (acquire now mid m s) = snd (issue now mid p s)"
      by (auto simp: acquire_def Let_def case_prod_unfold split: option.splits if_splits sum.splits)
    note step = issue_phase [OF ok, of rid now mid p]
    show ?thesis
    proof (cases "l_request_id l = rid")
      case True
      have "map_of (leases s) rid = None" "rid \<notin> tokens s ` {..<next_token s}"
        using token_fresh [OF ok] True ok l(1) by (auto simp: leases_ok_def inj_eq)
      then have "phase_of rid s = Unknown" by (auto simp: phase_of_def)
      moreover have "phase_of rid (snd (issue now mid p s)) = Active l"
        using True l(1) \<open>map_of (leases s) rid = None\<close> ok
        by (auto simp: phase_of_def alist.lookup_store leases_ok_def map_of_eq_None_iff)
      ultimately show ?thesis using Inr Leased l True by (auto intro: leased)
    next
      case False
      with step l(1) have "phase_of rid (snd (issue now mid p s)) = phase_of rid s"
        by (auto simp: only_granted_def phase_of_def alist.lookup_store split: option.splits if_splits)
      with Inr Leased l False show ?thesis by (auto intro: other)
    qed
  qed
qed

lemma redeem_phase:
  assumes "sched_ok s"
  shows "lease_step rid (Redeem now rid' mid) (Some (fst (redeem now rid' mid s))) (phase_of rid s) (phase_of rid (snd (redeem now rid' mid s)))"
proof (cases "map_of (leases s) rid'")
  case None
  then show ?thesis by (cases "rid' = rid") (auto simp: redeem_def intro: absent other)
next
  case (Some l)
  then have id: "l_request_id l = rid'"
    using assms by (auto simp: sched_ok_def leases_ok_def lease_ok_def dest!: map_of_SomeD)
  note rel = release_phase [OF assms, of rid' rid now]
  consider (wrong) "l_member l \<noteq> mid" | (late) "l_member l = mid" "l_expires_at l < now"
    | (again) "l_member l = mid" "\<not> l_expires_at l < now" "rid' \<in> redeemed s"
    | (first) "l_member l = mid" "\<not> l_expires_at l < now" "rid' \<notin> redeemed s" by blast
  then show ?thesis
  proof cases
    case wrong
    then show ?thesis using Some by (cases "rid' = rid") (auto simp: redeem_def intro: foreign other)
  next
    case late
    then have eq: "redeem now rid' mid s = (Inl LeasePastTtl, release now rid' s)" using Some by (simp add: redeem_def)
    show ?thesis
    proof (cases "rid' = rid")
      case True
      with rel Some late show ?thesis using refused [of "phase_of rid s" l now rid] unfolding eq by simp
    next
      case False
      with rel have "only_granted rid (phase_of rid s) (phase_of rid (release now rid' s))" by simp
      with False show ?thesis unfolding eq by (auto intro!: only_granted_step)
    qed
  next
    case again
    show ?thesis
    proof (cases "rid' = rid")
      case True
      with Some again have "phase_of rid s = Spent l" by (simp add: phase_of_def)
      with lease_step.again [of now l rid] True Some again show ?thesis by (simp add: redeem_def)
    next
      case False
      with Some again show ?thesis by (auto simp: redeem_def intro: other)
    qed
  next
    case first
    then have eq: "redeem now rid' mid s = (Inr l, s\<lparr>redeemed := insert rid' (redeemed s)\<rparr>)" using Some by (simp add: redeem_def)
    show ?thesis
    proof (cases "rid' = rid")
      case True
      with Some first have "phase_of rid s = Active l" "phase_of rid (s\<lparr>redeemed := insert rid' (redeemed s)\<rparr>) = Spent l"
        by (simp_all add: phase_of_def)
      with used [of now l rid] first True show ?thesis unfolding eq by simp
    next
      case False
      then have "phase_of rid (s\<lparr>redeemed := insert rid' (redeemed s)\<rparr>) = phase_of rid s" by (simp add: phase_of_def split: option.split)
      with False id show ?thesis by (auto simp: eq intro: other)
    qed
  qed
qed

lemma release_step:
  assumes "sched_ok s"
  shows "lease_step rid (Release now rid') None (phase_of rid s) (phase_of rid (release now rid' s))"
proof (cases "rid' = rid")
  case True
  note step = release_phase [OF assms, of rid rid now]
  show ?thesis
  proof (cases "held_lease (phase_of rid s)")
    case None
    with step not_held [OF None, of rid now] woken [of rid "Release now rid" None] True show ?thesis
      by (auto simp: only_granted_def)
  next
    case (Some l)
    with step given_back [of "phase_of rid s" rid now] True show ?thesis by simp
  qed
next
  case False
  with release_phase [OF assms, of rid' rid now] show ?thesis by (auto intro!: only_granted_step split: if_splits)
qed

lemma expire_step:
  assumes "sched_ok s"
  shows "lease_step rid (ExpireStale now) None (phase_of rid s) (phase_of rid (fold (release now) (stale_leases now s) s))"
proof (cases "rid \<in> set (stale_leases now s)")
  case True
  with stale_lease [OF assms] obtain l where l: "map_of (leases s) rid = Some l" "l_expires_at l < now" by blast
  then have "phase_of rid s \<noteq> Unknown" by (simp add: phase_of_def)
  with releases_phase [OF assms, of rid "stale_leases now s" now] True l
  have "phase_of rid (fold (release now) (stale_leases now s) s) = Gone" by simp
  with l expired [of "phase_of rid s" l now rid] show ?thesis by simp
next
  case False
  with releases_phase [OF assms, of rid "stale_leases now s" now]
  have "only_granted rid (phase_of rid s) (phase_of rid (fold (release now) (stale_leases now s) s))" by simp
  with False stale_lease [OF assms, of rid now] show ?thesis by (auto intro!: only_granted_step)
qed

lemma lease_steps:
  assumes "sched_ok s"
  shows "lease_step rid op (told op s) (phase_of rid s) (phase_of rid (sched_step op s))"
proof (cases op)
  case (Acquire now mid m)
  with acquire_phase [OF assms] show ?thesis by simp
next
  case (Release now rid')
  with release_step [OF assms] show ?thesis by simp
next
  case (Redeem now rid' mid)
  with redeem_phase [OF assms] show ?thesis by simp
next
  case (ExpireStale now)
  with expire_step [OF assms] show ?thesis by (simp add: expire_stale_def)
qed (auto simp: cancel_wait_def drop_waiter_def intro: other)

section \<open>Properties\<close>

text \<open>
  C13: the scheduler refines the life cycle of a request id: every operation, with what it answers, is a step of the
  automaton for every id. So an id names at most one lease ever; it is handed out when it becomes active; a
  redemption answers the lease exactly when it is active, the member is its own and it has not expired, which
  spends it, and every other redemption answers the error of its phase, \<open>AlreadyRedeemed\<close> when it is spent; and
  the lease is given up only by its release, or when it has expired.
\<close>
theorem scheduler_refines_lease_life:
  assumes "sched_ok s"
  shows "lease_step rid op (told op s) (phase_of rid s) (phase_of rid (sched_step op s))"
  using assms by (rule lease_steps)

section \<open>Witness\<close>

theorem scheduler_refines_lease_life_witness:
  "let s = demo_sched demo_queue; op = Redeem 1064 ''t'' ''c''; s' = sched_step op s in
   lease_step ''t'' op (Some (Inr demo_lease)) (Active demo_lease) (Spent demo_lease)
   \<and> phase_of ''t'' s = Active demo_lease \<and> phase_of ''t'' s' = Spent demo_lease
   \<and> told op s = Some (Inr demo_lease) \<and> told op s' = Some (Inl AlreadyRedeemed)"
proof -
  have "map_of (leases (demo_sched demo_queue)) ''t'' = Some demo_lease" "redeemed (demo_sched demo_queue) = {}" by code_simp+
  moreover from this have "phase_of ''t'' (demo_sched demo_queue) = Active demo_lease" by (simp add: phase_of_def)
  ultimately show ?thesis
    using scheduler_refines_lease_life [OF demo_sched_ok, of "''t''" "Redeem 1064 ''t'' ''c''" demo_queue]
    by (simp add: redeem_def phase_of_def demo_lease_def)
qed

end
