(* ===== verification/Grants.thy ===== *)
theory Grants
  imports LeaseLife
begin

text \<open>
  What a granted lease is worth later: over any run of the scheduler that does not give the lease up, the grant
  stays redeemable (\<open>Active\<close>), and a queued waiter whose future is granted is granted a lease of its own for the
  model it waits for. The future and the queue are those of \<open>acquire\<close> and \<open>_dispatch\<close> in
  \<open>coordinator/scheduler.py\<close>.
\<close>

section \<open>An active lease stays active\<close>

text \<open>
  The operations that leave a lease to its member: they do not release it, its member does not redeem it, and no
  expiry runs after its time to live.
\<close>

fun spares :: "lease \<Rightarrow> sched_op \<Rightarrow> bool" where
  "spares l (Release now rid) = (rid \<noteq> l_request_id l)"
| "spares l (Redeem now rid mid) = (rid \<noteq> l_request_id l \<or> mid \<noteq> l_member l)"
| "spares l (ExpireStale now) = (now \<le> l_expires_at l)"
| "spares l _ = True"

lemma spared_step:
  assumes "lease_step (l_request_id l) op ans (Active l) ph'" "spares l op" shows "ph' = Active l"
  using assms by (cases rule: lease_step.cases) auto

lemma phase_active: "phase_of rid s = Active l \<longleftrightarrow> map_of (leases s) rid = Some l \<and> rid \<notin> redeemed s"
  by (auto simp: phase_of_def split: option.splits if_splits)

section \<open>A waiter is granted what it waits for\<close>

text \<open>
  Where the task waiting under number \<open>n\<close> is, seen from one lease: its entry in the queue, if any, is the one
  \<open>acquire\<close> made, and if its future is this lease, the lease is its member's, for its model, and unspent.
\<close>

definition waits :: "nat \<Rightarrow> string \<Rightarrow> string \<Rightarrow> waiter list \<Rightarrow> bool" where
  "waits n mid m ws \<longleftrightarrow> (\<forall>w \<in> set ws. w_seq w = n \<longrightarrow> w_member w = mid \<and> w_model w = m)"

definition granted_ok :: "nat \<Rightarrow> string \<Rightarrow> string \<Rightarrow> lease \<Rightarrow> scheduler \<Rightarrow> bool" where
  "granted_ok n mid m l s \<longleftrightarrow> (future_of n s = Granted l \<longrightarrow>
     l_member l = mid \<and> p_model (l_peer l) = m \<and> phase_of (l_request_id l) s = Active l)"

definition waiting_ok :: "nat \<Rightarrow> string \<Rightarrow> string \<Rightarrow> lease \<Rightarrow> scheduler \<Rightarrow> bool" where
  "waiting_ok n mid m l s \<longleftrightarrow> n < next_seq s \<and> waits n mid m (waiters s) \<and> granted_ok n mid m l s"

lemma waits_simps [simp]:
  "waits n mid m []" "waits n mid m (w # ws) \<longleftrightarrow> (w_seq w = n \<longrightarrow> w_member w = mid \<and> w_model w = m) \<and> waits n mid m ws"
  "waits n mid m (xs @ ys) \<longleftrightarrow> waits n mid m xs \<and> waits n mid m ys"
  by (auto simp: waits_def)

lemma waits_push [simp]: "waits n mid m (fold heappush d ws) \<longleftrightarrow> waits n mid m d \<and> waits n mid m ws"
  by (auto simp: waits_def)

lemma granted_ok_cong:
  "future_of n s' = future_of n s \<Longrightarrow> phase_of (l_request_id l) s' = phase_of (l_request_id l) s \<Longrightarrow>
     granted_ok n mid m l s' = granted_ok n mid m l s"
  by (simp add: granted_ok_def)

text \<open>A lease a dispatch grants was unknown before it: its id is not that of any lease so far.\<close>

definition newly :: "nat \<Rightarrow> lease \<Rightarrow> scheduler \<Rightarrow> scheduler \<Rightarrow> bool" where
  "newly n l s s' \<longleftrightarrow> (future_of n s' = Granted l \<longrightarrow> future_of n s \<noteq> Granted l \<longrightarrow> phase_of (l_request_id l) s = Unknown)"

lemma serve_granted:
  assumes "leases_ok s" "pick now (w_model w) (reg s) = Some p" "m \<noteq> []" "granted_ok n mid m l s"
    "w_seq w = n \<longrightarrow> w_member w = mid \<and> w_model w = m"
  shows "granted_ok n mid m l (serve now w ws p s) \<and> newly n l s (serve now w ws p s)"
proof (cases "w_seq w = n")
  case True
  let ?new = "fst (issue now (w_member w) p s)"
  have "p_model p = m"
    using True assms(3,5) pick_Some [OF _ assms(2)] assms(1) by (simp add: leases_ok_def registry_ok_def)
  moreover have fresh: "map_of (leases s) (l_request_id ?new) = None" "l_request_id ?new \<notin> tokens s ` {..<next_token s}"
    using token_fresh [OF assms(1)] assms(1) by (auto simp: leases_ok_def inj_eq)
  moreover have "l_request_id ?new \<notin> redeemed s"
    using fresh(1) assms(1) by (auto simp: leases_ok_def map_of_eq_None_iff)
  ultimately show ?thesis using True assms(5)
    by (auto simp: granted_ok_def newly_def phase_active serve_def Let_def alist.lookup_store future_of_def)
       (simp_all add: phase_of_def issue_def Let_def)
next
  case False
  have "phase_of (l_request_id l) (serve now w ws p s) = Active l" if "phase_of (l_request_id l) s = Active l"
    using serve_phase [OF assms(1), of "l_request_id l" now w ws p] that by (auto dest: only_granted_held)
  with False assms(4) show ?thesis by (auto simp: granted_ok_def newly_def)
qed

lemma newly_refl [simp]: "future_of n s' = future_of n s \<Longrightarrow> newly n l s s'"
  by (simp add: newly_def)

lemma newly_trans:
  assumes "newly n l s t" "newly n l t u" "phase_of (l_request_id l) t = Unknown \<Longrightarrow> phase_of (l_request_id l) s = Unknown"
  shows "newly n l s u"
  using assms by (auto simp: newly_def)

lemma only_granted_unknown: "only_granted rid ph Unknown \<Longrightarrow> ph = Unknown"
  by (auto simp: only_granted_def)

lemma dispatch_loop_granted:
  assumes "m \<noteq> []"
  shows "leases_ok s \<Longrightarrow> waits n mid m (waiters s) \<Longrightarrow> waits n mid m d \<Longrightarrow> granted_ok n mid m l s \<Longrightarrow>
    waits n mid m (fst (dispatch_loop now d s)) \<and> granted_ok n mid m l (snd (dispatch_loop now d s))
    \<and> newly n l s (snd (dispatch_loop now d s))"
proof (induction d s rule: dispatch_loop_induct [where now = now])
  case (Nil d s)
  then show ?case by simp
next
  case (Done d s w ws)
  have "newly n l (s\<lparr>waiters := ws\<rparr>) u \<longleftrightarrow> newly n l s u" for u by (simp add: newly_def)
  with Done show ?case by (simp cong: leases_ok_cong granted_ok_cong)
next
  case (Defer d s w ws)
  have "newly n l (s\<lparr>waiters := ws\<rparr>) u \<longleftrightarrow> newly n l s u" for u by (simp add: newly_def)
  with Defer show ?case by (simp cong: leases_ok_cong granted_ok_cong)
next
  case (Serve d s w ws p)
  have w: "w_seq w = n \<longrightarrow> w_member w = mid \<and> w_model w = m" "waits n mid m ws"
    using Serve.prems(2) Serve.hyps(1) by simp_all
  note step = serve_granted [OF Serve.prems(1) Serve.hyps(3) assms Serve.prems(4) w(1), of ws]
  have "leases_ok (serve now w ws p s)" by (rule serve_ok [OF Serve.prems(1) Serve.hyps(3)])
  with Serve.IH Serve.prems(3) step w(2)
  have rest: "waits n mid m (fst (dispatch_loop now d (serve now w ws p s)))"
    "granted_ok n mid m l (snd (dispatch_loop now d (serve now w ws p s)))"
    "newly n l (serve now w ws p s) (snd (dispatch_loop now d (serve now w ws p s)))" by simp_all
  have "newly n l s (snd (dispatch_loop now d (serve now w ws p s)))"
  proof (rule newly_trans [OF conjunct2 [OF step] rest(3)])
    assume "phase_of (l_request_id l) (serve now w ws p s) = Unknown"
    with serve_phase [OF Serve.prems(1)] show "phase_of (l_request_id l) s = Unknown" by (metis only_granted_unknown)
  qed
  with rest show ?case unfolding Serve.hyps(4) by blast
qed

lemma dispatch_granted:
  assumes "m \<noteq> []" "leases_ok s" "waiting_ok n mid m l s"
  shows "waiting_ok n mid m l (dispatch now s) \<and> newly n l s (dispatch now s)"
proof -
  have "waits n mid m (waiters s)" "granted_ok n mid m l s" using assms(3) by (simp_all add: waiting_ok_def)
  note loop = dispatch_loop_granted [OF assms(1,2) this(1) _ this(2), of "[]" now]
  have "same_config s (dispatch now s)" using dispatch_frame by simp
  with loop assms(3) show ?thesis
    by (simp add: dispatch_eq waiting_ok_def granted_ok_def newly_def same_config_def)
qed

section \<open>Every operation keeps it\<close>

lemma release_begins:
  assumes "leases_ok s"
  obtains s1 where "release now rid s = dispatch now s1" "leases_ok s1" "waiters s1 = waiters s" "next_seq s1 = next_seq s"
    "futures s1 = futures s"
    "\<And>r. phase_of r s1 = (if r = rid \<and> held_lease (phase_of r s) \<noteq> None then Gone else phase_of r s)"
proof -
  have known: "r \<in> tokens s ` {..<next_token s}" if "map_of (leases s) r = Some l" for r l
    using assms map_of_SomeD [OF that] by (auto simp: leases_ok_def lease_ok_def)
  show ?thesis
  proof (cases "map_of (leases s) rid")
    case None
    then show ?thesis
      by (intro that [OF _ release_absent_ok [OF assms None]])
        (auto simp: release_def Let_def phase_of_def alist.lookup_remove split: option.splits)
  next
    case (Some l)
    then show ?thesis
      by (intro that [OF _ release_slots_ok [OF assms Some]])
        (auto simp: release_def Let_def phase_of_def alist.lookup_remove dest: known split: option.splits)
  qed
qed

lemma release_granted:
  assumes "m \<noteq> []" "leases_ok s" "waiting_ok n mid m l s" "future_of n s = Granted l \<longrightarrow> rid \<noteq> l_request_id l"
  shows "waiting_ok n mid m l (release now rid s) \<and> newly n l s (release now rid s)"
proof -
  obtain s1 where s1: "release now rid s = dispatch now s1" "leases_ok s1" "waiters s1 = waiters s" "next_seq s1 = next_seq s"
    "futures s1 = futures s"
    "\<And>r. phase_of r s1 = (if r = rid \<and> held_lease (phase_of r s) \<noteq> None then Gone else phase_of r s)"
    by (rule release_begins [OF assms(2), of now rid]) blast
  have fut: "future_of n s1 = future_of n s" using s1(5) by (simp add: future_of_def)
  have "waiting_ok n mid m l s1" using assms(3,4) s1(3,4,6) fut by (auto simp: waiting_ok_def granted_ok_def)
  from dispatch_granted [OF assms(1) s1(2) this] have d: "waiting_ok n mid m l (dispatch now s1)" "newly n l s1 (dispatch now s1)" by simp_all
  have "newly n l s (dispatch now s1)"
    by (rule newly_trans [OF newly_refl [OF fut] d(2)]) (simp add: s1(6) split: if_splits)
  with d(1) s1(1) show ?thesis by simp
qed

text \<open>An id whose lease is being taken back was known, so it is not that of a lease granted meanwhile.\<close>

lemma releases_granted:
  assumes "m \<noteq> []"
  shows "sched_ok s \<Longrightarrow> waiting_ok n mid m l s \<Longrightarrow> future_of n s = Granted l \<longrightarrow> l_request_id l \<notin> set rids \<Longrightarrow>
    l_request_id l \<in> set rids \<longrightarrow> phase_of (l_request_id l) s \<noteq> Unknown \<Longrightarrow>
    waiting_ok n mid m l (fold (release now) rids s)"
proof (induction rids arbitrary: s)
  case (Cons rid rids)
  have ok: "leases_ok s" using Cons.prems(1) by (simp add: sched_ok_def)
  have "future_of n s = Granted l \<longrightarrow> rid \<noteq> l_request_id l" using Cons.prems(3) by auto
  note one = release_granted [OF assms ok Cons.prems(2) this, of now]
  have "phase_of (l_request_id l) (release now rid s) \<noteq> Unknown" if "phase_of (l_request_id l) s \<noteq> Unknown"
    using release_phase [OF Cons.prems(1), of rid "l_request_id l" now] that by (auto dest: only_granted_held split: if_splits)
  with one Cons.prems have "waiting_ok n mid m l (fold (release now) rids (release now rid s))"
    by (intro Cons.IH release_ok) (auto simp: newly_def)
  then show ?case by simp
qed simp

lemma acquire_frame:
  "n < next_seq s \<Longrightarrow> future_of n (snd (acquire now mid' m' s)) = future_of n s
     \<and> (waits n mid m (waiters s) \<longrightarrow> waits n mid m (waiters (snd (acquire now mid' m' s))))
     \<and> next_seq s \<le> next_seq (snd (acquire now mid' m' s))"
  by (auto simp: acquire_def Let_def case_prod_unfold future_of_def waits_def heappush_def alist.lookup_store set_insort_key
      split: option.splits sum.splits)

lemma waiting_step:
  assumes ok: "sched_ok s" and wait: "waiting_ok n mid m l s" and m: "m \<noteq> []" and op: "spares l op"
  shows "waiting_ok n mid m l (sched_step op s)"
proof -
  let ?rid = "l_request_id l"
  have ok': "leases_ok s" using ok by (simp add: sched_ok_def)
  have act: "phase_of ?rid (sched_step op s) = Active l" if "phase_of ?rid s = Active l"
    using lease_steps [OF ok, of ?rid op] that op by (auto dest: spared_step)
  show ?thesis
  proof (cases op)
    case (Acquire now mid' m')
    with act acquire_frame [of n s now mid' m' mid m] wait show ?thesis
      by (auto simp: waiting_ok_def granted_ok_def)
  next
    case (Release now rid)
    with release_granted [OF m ok' wait] op show ?thesis by simp
  next
    case (Redeem now rid mid')
    show ?thesis
    proof (cases "snd (redeem now rid mid' s) = release now rid s")
      case True
      show ?thesis
      proof (cases "future_of n s = Granted l \<and> rid = ?rid")
        case same: True
        then have "map_of (leases s) rid = Some l" "mid' \<noteq> l_member l"
          using wait op Redeem by (auto simp: waiting_ok_def granted_ok_def phase_active)
        then have "snd (redeem now rid mid' s) = s" by (auto simp: redeem_def)
        with wait Redeem show ?thesis by simp
      next
        case False
        with release_granted [OF m ok' wait, of rid now] True Redeem show ?thesis by auto
      qed
    next
      case False
      then have "snd (redeem now rid mid' s) = s \<or> snd (redeem now rid mid' s) = s\<lparr>redeemed := insert rid (redeemed s)\<rparr>"
        by (auto simp: redeem_def split: option.splits if_splits)
      with Redeem act wait show ?thesis by (auto simp: waiting_ok_def granted_ok_def future_of_def)
    qed
  next
    case (ExpireStale now)
    have "?rid \<notin> set (stale_leases now s)" if "future_of n s = Granted l"
      using stale_lease [OF ok, of ?rid now] that wait op ExpireStale
      by (auto simp: waiting_ok_def granted_ok_def phase_active)
    moreover have "phase_of ?rid s \<noteq> Unknown" if "?rid \<in> set (stale_leases now s)"
      using stale_lease [OF ok, of ?rid now] that by (auto simp: phase_of_def split: if_splits)
    ultimately show ?thesis
      using releases_granted [OF m ok wait] ExpireStale by (simp add: expire_stale_def)
  next
    case (CancelWait k)
    with act wait show ?thesis
      by (auto simp: waiting_ok_def granted_ok_def cancel_wait_def future_of_def alist.lookup_store split: if_splits)
  next
    case (DropWaiter k)
    with wait show ?thesis
      by (simp add: waiting_ok_def granted_ok_def drop_waiter_def waits_def)
  next
    case (RegistryOp a)
    have "future_of n (s\<lparr>reg := r\<rparr>) = future_of n s" for r by (simp add: future_of_def)
    with RegistryOp wait show ?thesis by (simp add: waiting_ok_def granted_ok_def)
  qed
qed

text \<open>Runs: a lease stays redeemable, and a granted waiter's lease is its own and redeemable.\<close>

lemma active_run:
  assumes "sched_ok s" "phase_of (l_request_id l) s = Active l" "list_all (spares l) ops"
  shows "sched_ok (fold sched_step ops s) \<and> phase_of (l_request_id l) (fold sched_step ops s) = Active l"
  using assms
proof (induction ops arbitrary: s)
  case (Cons op ops)
  from lease_steps [OF Cons.prems(1), of "l_request_id l" op] Cons.prems(2,3)
  have "phase_of (l_request_id l) (sched_step op s) = Active l" by (auto dest: spared_step)
  with Cons.IH [OF sched_step_ok [OF Cons.prems(1)]] Cons.prems(3) show ?case by simp
qed simp

lemma waiting_run:
  assumes "sched_ok s" "waiting_ok n mid m l s" "m \<noteq> []" "list_all (spares l) ops"
  shows "sched_ok (fold sched_step ops s) \<and> waiting_ok n mid m l (fold sched_step ops s)"
  using assms by (induction ops arbitrary: s) (simp_all add: sched_step_ok waiting_step)

lemma active_redeemed:
  "phase_of (l_request_id l) s = Active l \<Longrightarrow> t \<le> l_expires_at l \<Longrightarrow> fst (redeem t (l_request_id l) (l_member l) s) = Inr l"
  by (simp add: phase_active redeem_def)

lemma active_peer:
  "sched_ok s \<Longrightarrow> phase_of rid s = Active l \<Longrightarrow> map_of (peers (reg_roster (reg s))) (p_id (l_peer l)) = Some (l_peer l)"
  by (auto simp: phase_active sched_ok_def leases_ok_def lease_ok_def dest!: map_of_SomeD)

text \<open>A task that starts to wait.\<close>

lemma acquire_waits:
  assumes "sched_ok s" "acquire now mid m s = (Inr (Waiting n), s')" shows "waiting_ok n mid m l s'"
proof -
  have "w_seq w \<noteq> next_seq s" if "w \<in> set (waiters s)" for w
    using assms(1) that by (auto simp: sched_ok_def queue_ok_def)
  with assms(2) show ?thesis
    by (auto simp: acquire_def Let_def case_prod_unfold waiting_ok_def waits_def granted_ok_def future_of_def heappush_def
        set_insort_key alist.lookup_store split: option.splits sum.splits if_splits)
qed

end
