(* ===== verification/Federation.thy ===== *)
theory Federation
  imports Coordinator PeerNode Client WireText Grants
begin

text \<open>
  The three roles together: a client's request, the coordinator that authorises and relays it, the peer that
  serves it, and the answer on its way back. Nothing new is modelled; \<open>federation_answer\<close> composes the
  operations of the other theories in the order their HTTP calls do.
\<close>

section \<open>Reading what a peer sent\<close>

lemma client_loop_append:
  "client_loop K master st (xs @ ys) =
     (case client_loop K master st xs of
        (evs, Inl e) \<Rightarrow> (evs, Inl e)
      | (evs, Inr st') \<Rightarrow> (let (more, res) = client_loop K master st' ys in (evs @ more, res)))"
  by (induction xs arbitrary: st) (auto simp: Let_def split: sum.splits prod.splits)

lemma client_line_chunk:
  assumes "chunk_ok c"
  shows "client_line K master st (Json (chunk_to_dict c)) = client_chunk K master st c"
proof -
  obtain d where d: "chunk_to_dict c = JObj d" "obj_get d ''kind'' = JStr KIND_CHUNK" by (simp add: chunk_to_dict_def)
  with chunk_codec.dec_enc [OF assms] show ?thesis by (simp add: client_line_def decode_frame_def KIND_CHUNK_def)
qed

lemma chunk_ok_answer:
  "crypto_laws K \<Longrightarrow> seal_chunk K data master sq = Inr ct \<Longrightarrow> request_id env \<noteq> [] \<Longrightarrow> chunk_ok (answer_chunk env sq ct fin)"
  using seal_chunk_nonempty [of K data master sq ct] chunk_nonce_Inr
  by (auto simp: chunk_ok_def answer_chunk_def PROTO_VERSION_def seal_chunk_Inr)

lemma client_chunk_sealed:
  assumes "crypto_laws K" "seal_chunk K data master sq = Inr ct" "request_id env \<noteq> []" "expected_seq st = sq"
  shows "client_line K master st (Json (chunk_to_dict (answer_chunk env sq ct fin))) =
    (if fin then (if data = [] then Inr ([], st\<lparr>expected_seq := sq + 1, saw_final := True\<rparr>) else Inl (ClientError ForgedFinal))
     else Inr (if data = [] then [] else [TextEvent data], st\<lparr>expected_seq := sq + 1\<rparr>))"
  using assms unseal_seal_chunk [OF assms(1,2)]
  by (simp add: client_line_chunk chunk_ok_answer) (simp add: client_chunk_def answer_chunk_def)

lemma client_loop_sealed:
  assumes "crypto_laws K" "request_id (jb_env j) \<noteq> []" "sealed_run K j sq cs ss" "[] \<notin> set ss" "expected_seq st = sq"
  shows "client_loop K (jb_master j) st (map (\<lambda>c. Json (chunk_to_dict c)) cs) =
    (map (\<lambda>s. TextEvent (utf8 s)) ss, Inr (st\<lparr>expected_seq := sq + int (length cs)\<rparr>))"
  using assms
proof (induction K j sq cs ss arbitrary: st rule: sealed_run.induct)
  case (1 K j sq)
  then have "st\<lparr>expected_seq := sq\<rparr> = st" by (cases st) simp
  then show ?case by simp
next
  case (2 K j sq c cs s ss)
  then obtain ct where ct: "seal_chunk K (utf8 s) (jb_master j) sq = Inr ct" "c = answer_chunk (jb_env j) sq ct False" by auto
  let ?st = "st\<lparr>expected_seq := sq + 1\<rparr>"
  have "client_line K (jb_master j) st (Json (chunk_to_dict c)) = Inr ([TextEvent (utf8 s)], ?st)"
    using client_chunk_sealed [OF 2(2) ct(1) 2(3) 2(6), of False] 2(5) ct(2) by auto
  moreover have "client_loop K (jb_master j) ?st (map (\<lambda>c. Json (chunk_to_dict c)) cs) =
      (map (\<lambda>s. TextEvent (utf8 s)) ss, Inr (?st\<lparr>expected_seq := sq + 1 + int (length cs)\<rparr>))"
    using 2 by (intro "2.IH") auto
  ultimately show ?case by (simp add: algebra_simps)
qed simp_all

text \<open>
  Counts an engine may report: no bool, not negative and within SQLite's integers, so that the receipt
  parses and can be stored.
\<close>

definition usage_ok :: "usage \<Rightarrow> bool" where
  "usage_ok u \<longleftrightarrow> (\<exists>m n. u_prompt u = JInt m \<and> u_completion u = JInt n \<and> 0 \<le> m \<and> 0 \<le> n \<and> m < 2 ^ 63 \<and> n < 2 ^ 63)"

definition items_ok :: "engine_item list \<Rightarrow> bool" where
  "items_ok items \<longleftrightarrow> (\<forall>u. UsageItem u \<in> set items \<longrightarrow> usage_ok u)"

lemma serve_items_reported:
  "serve_items K j st items = (cs, Inr st') \<Longrightarrow> items_ok items \<Longrightarrow> (\<forall>u. reported st = Some u \<longrightarrow> usage_ok u) \<Longrightarrow>
     reported st' = Some u \<Longrightarrow> usage_ok u"
proof (induction K j st items arbitrary: cs st' rule: serve_items.induct)
  case (2 K j st u' items)
  then show ?case by (auto simp: items_ok_def)
next
  case (3 K j st s items)
  have ok: "items_ok items" using 3(4) by (simp add: items_ok_def)
  show ?case
  proof (cases "s = []")
    case True
    with 3(1) 3(3,5,6) ok show ?thesis by simp
  next
    case False
    with 3(3) obtain ct where ct: "seal_chunk K (utf8 s) (jb_master j) (next_seq st) = Inr ct"
      by (cases "seal_chunk K (utf8 s) (jb_master j) (next_seq st)") simp_all
    let ?st = "st\<lparr>next_seq := next_seq st + 1, produced := produced st + length s\<rparr>"
    obtain cs1 res where rest: "serve_items K j ?st items = (cs1, res)" by fastforce
    with 3(3) False ct have "res = Inr st'" by simp
    with 3(2) [OF False ct, of cs1 st'] rest ok 3(5,6) show ?thesis by simp
  qed
qed simp

lemma serve_items_produced:
  "serve_items K j st items = (cs, Inr st') \<Longrightarrow> produced st' = produced st + length (concat (answers items))"
proof (induction K j st items arbitrary: cs st' rule: serve_items.induct)
  case (3 K j st s items)
  show ?case
  proof (cases "s = []")
    case True
    with 3(1,3) show ?thesis by simp
  next
    case False
    with 3(3) obtain ct where ct: "seal_chunk K (utf8 s) (jb_master j) (next_seq st) = Inr ct"
      by (cases "seal_chunk K (utf8 s) (jb_master j) (next_seq st)") simp_all
    let ?st = "st\<lparr>next_seq := next_seq st + 1, produced := produced st + length s\<rparr>"
    obtain cs1 res where rest: "serve_items K j ?st items = (cs1, res)" by fastforce
    with 3(3) False ct have "res = Inr st'" by simp
    with 3(2) [OF False ct, of cs1 st'] rest False show ?thesis by simp
  qed
qed auto

lemma estimate_le: "estimate_tokens n \<le> int n"
  by (auto simp: estimate_tokens_def max_def)

lemma estimate_nonneg [simp]: "0 \<le> estimate_tokens n"
  by (auto simp: estimate_tokens_def max_def)

lemma count_or_nonneg: "0 \<le> m \<Longrightarrow> \<exists>p. count_or (JInt m) n = JInt p \<and> 0 \<le> p"
  by (simp add: count_or_def)

definition receipt_of :: "peer_config \<Rightarrow> json \<Rightarrow> json \<Rightarrow> job \<Rightarrow> progress \<Rightarrow> receipt" where
  "receipt_of cfg name version j st =
     (case receipt_from_dict (receipt_frame cfg name version j st) of
        Inl e \<Rightarrow> \<lparr>r_request_id = [], prompt_tokens = 0, completion_tokens = 0, r_engine = JNull, r_engine_version = JNull,
          r_hw_class = JNull, finish_reason = [], r_v = 1\<rparr>
      | Inr r \<Rightarrow> r)"

text \<open>The receipt frame; its counts fit SQLite's integers when the estimates do.\<close>

lemma receipt_frame_shape:
  assumes "\<forall>u. reported st = Some u \<longrightarrow> usage_ok u"
  obtains p c f where "receipt_frame cfg name version j st = JObj [(''kind'', JStr KIND_RECEIPT), (''v'', JInt PROTO_VERSION),
       (''request_id'', JStr (request_id (jb_env j))), (''prompt_tokens'', JInt p), (''completion_tokens'', JInt c),
       (''engine'', name), (''engine_version'', version), (''hw_class'', JStr (pc_hw_class cfg)), (''finish_reason'', JStr f)]"
    "0 \<le> p" "0 \<le> c" "int (jb_chars j) < 2 ^ 63 \<Longrightarrow> p < 2 ^ 63" "int (produced st) < 2 ^ 63 \<Longrightarrow> c < 2 ^ 63"
proof (cases "reported st")
  case None
  then show ?thesis using estimate_le [of "jb_chars j"] estimate_le [of "produced st"]
    by (intro that [of "estimate_tokens (jb_chars j)" "estimate_tokens (produced st)" "[]"]) (simp_all add: receipt_frame_def)
next
  case (Some u)
  with assms obtain m n where u: "u_prompt u = JInt m" "u_completion u = JInt n" "0 \<le> m" "0 \<le> n" "m < 2 ^ 63" "n < 2 ^ 63"
    by (auto simp: usage_ok_def)
  have count: "\<exists>q. count_or (JInt k) chars = JInt q \<and> 0 \<le> q \<and> (int chars < 2 ^ 63 \<longrightarrow> q < 2 ^ 63)"
    if "0 \<le> k" "k < 2 ^ 63" for k chars
    using that estimate_le [of chars] by (simp add: count_or_def)
  from count [OF u(3,5), of "jb_chars j"] obtain p where
    p: "count_or (JInt m) (jb_chars j) = JInt p" "0 \<le> p" "int (jb_chars j) < 2 ^ 63 \<longrightarrow> p < 2 ^ 63" by blast
  from count [OF u(4,6), of "produced st"] obtain c where
    c: "count_or (JInt n) (produced st) = JInt c" "0 \<le> c" "int (produced st) < 2 ^ 63 \<longrightarrow> c < 2 ^ 63" by blast
  show ?thesis
    by (rule that [of p c "u_finish u"]) (use p c Some u(1,2) in \<open>simp_all add: receipt_frame_def\<close>)
qed

lemma receipt_parses:
  assumes "request_id (jb_env j) \<noteq> []" "\<forall>u. reported st = Some u \<longrightarrow> usage_ok u"
  obtains d where "receipt_frame cfg name version j st = JObj d" "obj_get d ''kind'' = JStr KIND_RECEIPT"
    "receipt_from_dict (JObj d) = Inr (receipt_of cfg name version j st)"
proof (rule receipt_frame_shape [OF assms(2), of cfg name version j])
  fix p c f
  assume frame: "receipt_frame cfg name version j st = JObj [(''kind'', JStr KIND_RECEIPT), (''v'', JInt PROTO_VERSION),
       (''request_id'', JStr (request_id (jb_env j))), (''prompt_tokens'', JInt p), (''completion_tokens'', JInt c),
       (''engine'', name), (''engine_version'', version), (''hw_class'', JStr (pc_hw_class cfg)), (''finish_reason'', JStr f)]"
    and pos: "0 \<le> p" "0 \<le> c"
  have "\<exists>r. receipt_from_dict (receipt_frame cfg name version j st) = Inr r"
    using assms(1) pos by (simp add: frame receipt_from_dict_def as_object_def PROTO_VERSION_def check_version_def SUPPORTED_VERSIONS_def
        require_str_def read_count_def)
  then show ?thesis using that frame by (auto simp: receipt_of_def)
qed

text \<open>A finished run of the peer, as the client reads its frames.\<close>

lemma client_reads_peer:
  assumes "crypto_laws K" "request_id (jb_env j) \<noteq> []" "items_ok items"
    and "peer_stream K cfg name version j (items, Finished) = (frames, None)"
  obtains st where "client_receive K (jb_master j) (PeerStream (map Json frames) None) =
      (map (\<lambda>s. TextEvent (utf8 s)) (answers items) @ [ReceiptEvent (receipt_of cfg name version j st)], None)"
    "sniff_receipt (Json (receipt_frame cfg name version j st)) = Some (receipt_of cfg name version j st)"
    "\<forall>l \<in> set (butlast frames). sniff_receipt (Json l) = None" "last frames = receipt_frame cfg name version j st" "frames \<noteq> []"
    "\<forall>u. reported st = Some u \<longrightarrow> usage_ok u" "produced st = length (concat (answers items))"
proof -
  obtain cs ct st where serve: "serve_items K j start_progress items = (cs, Inr st)"
    and run: "sealed_run K j 0 cs (answers items)" and ct: "seal_chunk K [] (jb_master j) (int (length cs)) = Inr ct"
    and frames: "frames = map chunk_to_dict (cs @ [answer_chunk (jb_env j) (int (length cs)) ct True]) @ [receipt_frame cfg name version j st]"
    using assms(4) by (rule peer_stream_finished)
  let ?fin = "answer_chunk (jb_env j) (int (length cs)) ct True" and ?rec = "receipt_frame cfg name version j st"
  have usage: "\<forall>u. reported st = Some u \<longrightarrow> usage_ok u"
    using serve_items_reported [OF serve assms(3)] by (simp add: start_progress_def)
  have made: "produced st = length (concat (answers items))"
    using serve_items_produced [OF serve] by (simp add: start_progress_def)
  from assms(2) usage obtain d where d: "?rec = JObj d" "obj_get d ''kind'' = JStr KIND_RECEIPT"
      "receipt_from_dict (JObj d) = Inr (receipt_of cfg name version j st)"
    by (rule receipt_parses)
  have "[] \<notin> set (answers items)" by (simp add: answers_def)
  then have loop: "client_loop K (jb_master j) recv_start (map (\<lambda>c. Json (chunk_to_dict c)) cs) =
      (map (\<lambda>s. TextEvent (utf8 s)) (answers items), Inr (recv_start\<lparr>expected_seq := int (length cs)\<rparr>))"
    using client_loop_sealed [OF assms(1,2) run, of recv_start] by (simp add: recv_start_def)
  have fin: "client_line K (jb_master j) (recv_start\<lparr>expected_seq := int (length cs)\<rparr>) (Json (chunk_to_dict ?fin)) =
      Inr ([], recv_start\<lparr>expected_seq := int (length cs) + 1, saw_final := True\<rparr>)"
    using client_chunk_sealed [OF assms(1) ct assms(2), of "recv_start\<lparr>expected_seq := int (length cs)\<rparr>" True] by simp
  have rec: "client_line K m st' (Json ?rec) = Inr ([ReceiptEvent (receipt_of cfg name version j st)], st')" for m st'
    using d by (simp add: client_line_def decode_frame_def KIND_CHUNK_def KIND_RECEIPT_def)
  have rows: "map Json frames = map (\<lambda>c. Json (chunk_to_dict c)) cs @ [Json (chunk_to_dict ?fin), Json ?rec]"
    by (simp add: frames)
  have "client_loop K (jb_master j) recv_start (map Json frames) =
      (map (\<lambda>s. TextEvent (utf8 s)) (answers items) @ [ReceiptEvent (receipt_of cfg name version j st)],
       Inr (recv_start\<lparr>expected_seq := int (length cs) + 1, saw_final := True\<rparr>))"
    unfolding rows client_loop_append loop by (simp add: fin rec)
  then have "client_receive K (jb_master j) (PeerStream (map Json frames) None) =
      (map (\<lambda>s. TextEvent (utf8 s)) (answers items) @ [ReceiptEvent (receipt_of cfg name version j st)], None)"
    by (simp add: client_receive_def)
  moreover have "sniff_receipt (Json (chunk_to_dict c)) = None" for c
    by (simp add: sniff_receipt_def chunk_to_dict_def KIND_CHUNK_def KIND_RECEIPT_def)
  then have "\<forall>l \<in> set (butlast frames). sniff_receipt (Json l) = None" by (auto simp: frames butlast_append)
  moreover have "sniff_receipt (Json ?rec) = Some (receipt_of cfg name version j st)" using d by (simp add: sniff_receipt_def)
  ultimately show ?thesis using that [of st] usage made by (simp add: frames)
qed

lemma receipt_of_bindable:
  assumes "request_id (jb_env j) \<noteq> []" "\<forall>u. reported st = Some u \<longrightarrow> usage_ok u"
    and "int (jb_chars j) < 2 ^ 63" "int (produced st) < 2 ^ 63" "nm \<noteq> []" "ver \<noteq> []" "pc_hw_class cfg \<noteq> []"
  shows "\<not> sql_error (consumption_of env l (receipt_of cfg (JStr nm) (JStr ver) j st))"
proof (rule receipt_frame_shape [OF assms(2), of cfg "JStr nm" "JStr ver" j])
  fix p c f
  let ?r = "receipt_of cfg (JStr nm) (JStr ver) j st"
  assume frame: "receipt_frame cfg (JStr nm) (JStr ver) j st = JObj [(''kind'', JStr KIND_RECEIPT), (''v'', JInt PROTO_VERSION),
       (''request_id'', JStr (request_id (jb_env j))), (''prompt_tokens'', JInt p), (''completion_tokens'', JInt c),
       (''engine'', JStr nm), (''engine_version'', JStr ver), (''hw_class'', JStr (pc_hw_class cfg)), (''finish_reason'', JStr f)]"
    and b: "0 \<le> p" "0 \<le> c" "int (jb_chars j) < 2 ^ 63 \<Longrightarrow> p < 2 ^ 63" "int (produced st) < 2 ^ 63 \<Longrightarrow> c < 2 ^ 63"
  have "prompt_tokens ?r = p" "completion_tokens ?r = c" "r_engine ?r = JStr nm" "r_engine_version ?r = JStr ver"
      "r_hw_class ?r = JStr (pc_hw_class cfg)"
    using assms(1) b(1,2) by (simp_all add: receipt_of_def frame receipt_from_dict_def as_object_def PROTO_VERSION_def check_version_def
        SUPPORTED_VERSIONS_def require_str_def read_count_def)
  with b assms(3-) show ?thesis by (simp add: sql_error_def row_meta_def consumption_of_def or_else_def)
qed

text \<open>Every frame of a finished run prints as a line that reads back.\<close>

lemma chunk_printable:
  "seal_chunk K data master sq = Inr ct \<Longrightarrow> printable frepr (chunk_to_dict (answer_chunk env sq ct b))"
  by (auto simp: seal_chunk_Inr chunk_to_dict_def answer_chunk_def PROTO_VERSION_def intro!: short_intI dest: chunk_nonce_Inr)

lemma sealed_run_printable: "sealed_run K j sq cs ss \<Longrightarrow> c \<in> set cs \<Longrightarrow> printable frepr (chunk_to_dict c)"
  by (induction K j sq cs ss rule: sealed_run.induct) (auto intro: chunk_printable)

lemma frames_printable:
  assumes "peer_stream K cfg (JStr nm) (JStr ver) j (items, Finished) = (frames, None)" "items_ok items"
    and "int (jb_chars j) < 2 ^ 63" "int (length (concat (answers items))) < 2 ^ 63" "f \<in> set frames"
  shows "printable frepr f \<and> (\<exists>d. f = JObj d)"
proof -
  obtain cs ct st where serve: "serve_items K j start_progress items = (cs, Inr st)"
    and run: "sealed_run K j 0 cs (answers items)" and ct: "seal_chunk K [] (jb_master j) (int (length cs)) = Inr ct"
    and frames: "frames = map chunk_to_dict (cs @ [answer_chunk (jb_env j) (int (length cs)) ct True]) @ [receipt_frame cfg (JStr nm) (JStr ver) j st]"
    using assms(1) by (rule peer_stream_finished)
  have usage: "\<forall>u. reported st = Some u \<longrightarrow> usage_ok u"
    using serve_items_reported [OF serve assms(2)] by (simp add: start_progress_def)
  have made: "int (produced st) < 2 ^ 63"
    using serve_items_produced [OF serve] assms(4) by (simp add: start_progress_def)
  have rec: "printable frepr (receipt_frame cfg (JStr nm) (JStr ver) j st) \<and> (\<exists>d. receipt_frame cfg (JStr nm) (JStr ver) j st = JObj d)"
    by (rule receipt_frame_shape [OF usage, of cfg "JStr nm" "JStr ver" j])
       (use assms(3) made in \<open>simp add: PROTO_VERSION_def short_intI\<close>)
  have "\<exists>d. chunk_to_dict c = JObj d" for c by (simp add: chunk_to_dict_def)
  with assms(5) rec sealed_run_printable [OF run] chunk_printable [OF ct] show ?thesis by (auto simp: frames)
qed

section \<open>The parts of an honest run\<close>

lemma seal_total: "length master = 32 \<Longrightarrow> 0 \<le> sq \<Longrightarrow> sq < 2 ^ 96 \<Longrightarrow> \<exists>ct. seal_chunk K data master sq = Inr ct"
  using chunk_nonce_total [of sq] by (auto simp: seal_chunk_Inr)

lemma serve_items_total:
  "length (jb_master j) = 32 \<Longrightarrow> 0 \<le> next_seq st \<Longrightarrow> next_seq st + int (length (answers items)) < 2 ^ 96 \<Longrightarrow>
     \<exists>cs st'. serve_items K j st items = (cs, Inr st')"
proof (induction K j st items rule: serve_items.induct)
  case (3 K j st s items)
  show ?case
  proof (cases "s = []")
    case True
    with 3(1,3-5) show ?thesis by simp
  next
    case False
    with 3(3-5) seal_total [of "jb_master j" "next_seq st" K "utf8 s"] obtain ct where
      ct: "seal_chunk K (utf8 s) (jb_master j) (next_seq st) = Inr ct" by auto
    from 3(2) [OF False ct] 3(3-5) False obtain cs st' where
      "serve_items K j (st\<lparr>next_seq := next_seq st + 1, produced := produced st + length s\<rparr>) items = (cs, Inr st')" by auto
    with ct False show ?thesis by simp
  qed
qed simp_all

lemma peer_stream_total:
  assumes "length (jb_master j) = 32" "int (length (answers items)) < 2 ^ 96"
  shows "\<exists>frames. peer_stream K cfg name version j (items, Finished) = (frames, None)"
proof -
  obtain cs st where run: "serve_items K j start_progress items = (cs, Inr st)"
    using serve_items_total [of j start_progress items K] assms by (auto simp: start_progress_def)
  have "next_seq st = int (length (answers items))"
    using serve_items_sealed [OF run] sealed_run_length by (fastforce simp: start_progress_def)
  then obtain ct where "seal_chunk K [] (jb_master j) (next_seq st) = Inr ct"
    using seal_total [of "jb_master j" "next_seq st" K "[]"] assms by auto
  with run show ?thesis by (simp add: peer_stream_def)
qed

lemma stream_events_all:
  "(\<And>r. GotReceipt r \<in> set evs \<Longrightarrow> \<not> sql_error (consumption_of env l r)) \<Longrightarrow> RelayCrash \<notin> set evs \<Longrightarrow>
     fst (stream_events env l evs c) = map Line (yielded evs) \<and> fst (snd (stream_events env l evs c))"
  by (induction env l evs c rule: stream_events.induct) (auto simp: yielded_def case_prod_unfold Let_def)

text \<open>Whether an exception that the generator does not catch cuts the response short.\<close>

definition stream_aborted :: "envelope \<Rightarrow> lease \<Rightarrow> peer_answer \<Rightarrow> coordinator \<Rightarrow> bool" where
  "stream_aborted env l ans c \<longleftrightarrow> \<not> fst (snd (stream_events env l (fst (relay_to_peer ans)) c))"

lemma relay_lines_clean: "Overlong \<notin> set rows \<Longrightarrow> relay_lines rows = concat (map relay_line rows)"
  by (induction rows) auto

lemma relay_delivers:
  assumes "\<And>x r. x \<in> set rows \<Longrightarrow> sniff_receipt x = Some r \<Longrightarrow> \<not> sql_error (consumption_of env l r)"
    and "Blank \<notin> set rows" "Overlong \<notin> set rows"
  shows "fst (infer_stream w t env l (PeerStream rows None) None c) = map Line rows"
    "\<not> stream_aborted env l (PeerStream rows None) c"
proof -
  let ?evs = "fst (relay_to_peer (PeerStream rows None))"
  have evs: "?evs = concat (map relay_line rows)" using assms(3) by (simp add: relay_to_peer_def relay_lines_clean)
  have y: "yielded (concat (map relay_line rows)) = rows"
    using assms(2) by (induction rows) (auto simp: yielded_def relay_line_def split: option.splits)
  have "\<not> sql_error (consumption_of env l r)" if "GotReceipt r \<in> set ?evs" for r
    using that assms(1) by (auto simp: evs relay_line_def split: option.splits if_splits)
  moreover have "RelayCrash \<notin> set ?evs" by (auto simp: evs relay_line_def split: option.splits if_splits)
  ultimately have all: "fst (stream_events env l ?evs c) = map Line rows \<and> fst (snd (stream_events env l ?evs c))"
    using stream_events_all [of ?evs env l c] y by (simp add: evs)
  then show "\<not> stream_aborted env l (PeerStream rows None) c" by (simp add: stream_aborted_def)
  have "snd (relay_to_peer (PeerStream rows None)) = None" by (simp add: relay_to_peer_def)
  with all show "fst (infer_stream w t env l (PeerStream rows None) None c) = map Line rows"
    by (simp add: infer_stream_def case_prod_unfold Let_def)
qed

lemma infer_begin_accepts:
  assumes "envelope_ok env" "map_of (members (roster_of c)) (sender env) = Some m" "unb64 (m_sign_pub m) = Inr key"
    "verify_envelope K env key = Inr ()" "check_fresh (ts env) w DEFAULT_MAX_AGE = Inr ()"
    "redeem t (request_id env) (sender env) (sched c) = (Inr l, s1)"
  shows "\<exists>c1. infer_begin K w t (Some (envelope_to_dict env)) c = (Streaming env l, c1)"
  using assms by (simp add: infer_begin_def env_codec.dec_enc roster_member_def)

section \<open>A granted lease\<close>

lemma acquire_leased:
  assumes "sched_ok s" "acquire now mid m s = (Inr (Leased l), s')" "m \<noteq> []"
  shows "l_member l = mid \<and> p_model (l_peer l) = m \<and> map_of (leases s') (l_request_id l) = Some l \<and> l_request_id l \<notin> redeemed s'
    \<and> map_of (peers (reg_roster (reg s'))) (p_id (l_peer l)) = Some (l_peer l)"
proof -
  from assms(2) obtain p where p: "pick now m (reg s) = Some p" and i: "issue now mid p s = (l, s')"
    by (auto simp: acquire_def sql_balance_def Let_def split: if_splits option.splits prod.splits)
  have "roster_ok (reg_roster (reg s))" using assms(1) by (simp add: sched_ok_def leases_ok_def registry_ok_def)
  from pick_Some [OF this p] assms(3) have "map_of (peers (reg_roster (reg s))) (p_id p) = Some p" "p_model p = m" by simp_all
  moreover have "tokens s (next_token s) \<notin> redeemed s"
    using assms(1) token_fresh [of s] by (auto simp: sched_ok_def leases_ok_def map_of_eq_None_iff)
  ultimately show ?thesis using i by (auto simp: issue_def Let_def alist.lookup_store)
qed

section \<open>The whole path of a request\<close>

text \<open>A stream item as the client's HTTP library hands it over, and a peer's reply as the coordinator's does.\<close>

definition stream_line :: "stream_item \<Rightarrow> wire_line" where
  "stream_line it =
     (case it of
        Line l \<Rightarrow> l
      | ErrorFrame rid msg \<Rightarrow>
          Json (JObj [(''kind'', JStr ''error''), (''v'', JInt 1), (''request_id'', JStr rid), (''message'', JStr msg)]))"

definition peer_http :: "pylib \<Rightarrow> (string \<Rightarrow> string list) \<Rightarrow> (rat \<Rightarrow> string) \<Rightarrow> (job \<Rightarrow> json list \<times> stream_abort option) \<Rightarrow> peer_reply \<Rightarrow> peer_answer" where
  "peer_http L lines_of frepr respond reply =
     (case reply of
        Refused code msg \<Rightarrow> HttpStatus (int code) msg
      | HandlerCrash x \<Rightarrow> HttpStatus 500 []
      | Serve j \<Rightarrow>
          (let (frames, abort) = respond j
           in PeerStream (body_rows L lines_of (print_frames frepr frames)) (if abort = None then None else Some ''incomplete response'')))"

text \<open>
  What the client gets for an envelope: the coordinator \<open>c\<close> authorises it and relays it to the peer with
  state \<open>n\<close> and private key \<open>priv\<close>, whose engine runs \<open>run\<close>. The clock readings are \<open>w\<close>/\<open>t\<close> of the
  coordinator when the request arrives, \<open>w'\<close> of the peer, and \<open>w''\<close>/\<open>t''\<close> when the stream ends.
\<close>

record clocks =
  ck_w :: rat
  ck_t :: rat
  ck_peer :: rat
  ck_end_w :: rat
  ck_end_t :: rat

definition federation_answer :: "crypto \<Rightarrow> pylib \<Rightarrow> (string \<Rightarrow> string list) \<Rightarrow> peer_config \<Rightarrow> json \<Rightarrow> json \<Rightarrow> engine_run \<Rightarrow> bytes \<Rightarrow> clocks
    \<Rightarrow> node \<Rightarrow> coordinator \<Rightarrow> json \<Rightarrow> peer_answer" where
  "federation_answer K L lines_of cfg name version run priv ck n c doc =
     (case infer_begin K (ck_w ck) (ck_t ck) (Some doc) c of
        (Streaming env l, c1) \<Rightarrow>
          (let reply = fst (peer_infer K L cfg (roster_of c) priv (ck_peer ck) (Some (envelope_to_dict env)) n);
               ans = peer_http L lines_of (float_repr K) (\<lambda>j. peer_stream K cfg name version j run) reply
           in PeerStream (map stream_line (fst (infer_stream (ck_end_w ck) (ck_end_t ck) env l ans None c1)))
                (if stream_aborted env l ans c1 then Some ''incomplete response'' else None))
      | (ErrorReply code msg, c1) \<Rightarrow> HttpStatus (int code) msg
      | _ \<Rightarrow> HttpStatus 500 [])"

lemma check_fresh_finite: "check_fresh t w a = Inr () \<Longrightarrow> json_finite (JNum t)"
  by (cases t) (auto simp: check_fresh_def isfinite_def)

lemma client_seal_ok:
  assumes "map_of d ''request_id'' = Some (JStr rid)" "length (ce_master ce) = 32" "length key = 32" "json_finite (JNum (ce_now ce))"
  obtains e0 e where
    "seal_request K (client_plaintext K q) key rid (id_member i) (ce_now ce) (ce_master ce) (ce_iv ce) (ce_eph ce) = Inr (e0, ce_master ce)"
    "sign_envelope K e0 (id_sign_seed i) = Inr e"
    "client_seal K i q ce d key = Inr (e, ce_master ce)"
    "request_id e0 = rid" "sender e0 = id_member i" "ts e0 = ce_now ce" "proto_v e0 = 1"
    "sealed_key e0 = b64 (box_seal K key (ce_eph ce) (ce_master ce))" "iv e0 = b64 (ce_iv ce)"
    "ciphertext e0 = b64 (aead_enc K (hkdf K (ce_master ce) INFO_REQUEST) (ce_iv ce) (client_plaintext K q))"
proof -
  obtain e0 where e0: "seal_request K (client_plaintext K q) key rid (id_member i) (ce_now ce) (ce_master ce) (ce_iv ce) (ce_eph ce) = Inr (e0, ce_master ce)"
    "request_id e0 = rid" "sender e0 = id_member i" "ts e0 = ce_now ce" "proto_v e0 = 1"
    "sealed_key e0 = b64 (box_seal K key (ce_eph ce) (ce_master ce))" "iv e0 = b64 (ce_iv ce)"
    "ciphertext e0 = b64 (aead_enc K (hkdf K (ce_master ce) INFO_REQUEST) (ce_iv ce) (client_plaintext K q))"
    using assms(2,3) by (simp add: seal_request_def derive_def MASTER_LEN_def PROTO_VERSION_def)
  moreover obtain e where "sign_envelope K e0 (id_sign_seed i) = Inr e"
    using assms(4) e0(4) by (simp add: sign_envelope_def signed_bytes_def canonical_def envelope_fields_def)
  moreover from e0(1) this have "client_seal K i q ce d key = Inr (e, ce_master ce)"
    using assms(1) by (simp add: client_seal_def)
  ultimately show ?thesis using that by blast
qed

lemma signed_fields:
  "sign_envelope K e0 seed = Inr e \<Longrightarrow> request_id e = request_id e0 \<and> sender e = sender e0 \<and> ts e = ts e0
     \<and> (envelope_ok e0 \<longrightarrow> envelope_ok e)"
  by (auto simp: sign_envelope_def rbind_Inr_iff envelope_ok_def)

lemma accept_honest_payload:
  assumes "loads_bytes L payload = Some (client_payload q)" "rq_messages q \<noteq> []" "rmap content_len (rq_messages q) = Inr ls"
    and "py_float (JNum (rq_temperature q)) = Inr te" "py_float (JNum (rq_top_p q)) = Inr tp"
  shows "\<exists>j. accept_payload L cfg env payload master = Serve j \<and> jb_env j = env \<and> jb_master j = master \<and> jb_chars j = sum_list ls"
proof -
  obtain m ms where "rq_messages q = m # ms" using assms(2) by (cases "rq_messages q") auto
  with assms show ?thesis
    by (simp add: accept_payload_def client_payload_def params_from_request_def py_int_def split: option.splits)
qed

text \<open>What the client, the coordinator and the peer have to agree on for a request to go through.\<close>

definition may_ask :: "crypto \<Rightarrow> identity \<Rightarrow> request_params \<Rightarrow> bytes \<Rightarrow> roster \<Rightarrow> peer \<Rightarrow> bool" where
  "may_ask K i q priv ro p \<longleftrightarrow>
     id_member i \<noteq> [] \<and> (\<exists>m. map_of (members ro) (id_member i) = Some m \<and> m_sign_pub m = b64 (ed_pub K (id_sign_seed i)))
     \<and> p_id p \<noteq> [] \<and> map_of (peers ro) (p_id p) = Some p \<and> p_enc_pub p = b64 (box_pub K priv)
     \<and> length (box_pub K priv) = 32 \<and> p_model p = rq_model q"

definition entropy_ok :: "crypto \<Rightarrow> bytes \<Rightarrow> client_entropy \<Rightarrow> bool" where
  "entropy_ok K key ce \<longleftrightarrow> length (ce_master ce) = 32 \<and> ce_iv ce \<noteq> [] \<and> box_seal K key (ce_eph ce) (ce_master ce) \<noteq> []"

definition clocks_ok :: "pynum \<Rightarrow> clocks \<Rightarrow> bool" where
  "clocks_ok sent ck \<longleftrightarrow> check_fresh sent (ck_w ck) DEFAULT_MAX_AGE = Inr () \<and> check_fresh sent (ck_peer ck) DEFAULT_MAX_AGE = Inr ()"

text \<open>A prompt the payload checks accept, and its size; the payload survives the encoding.\<close>

definition prompt_ok :: "crypto \<Rightarrow> request_params \<Rightarrow> bool" where
  "prompt_ok K q \<longleftrightarrow>
     printable (float_repr K) (client_payload q) \<and> rq_messages q \<noteq> []
     \<and> (\<exists>ls. rmap content_len (rq_messages q) = Inr ls \<and> int (sum_list ls) < 2 ^ 63)
     \<and> (\<exists>te tp. py_float (JNum (rq_temperature q)) = Inr te \<and> py_float (JNum (rq_top_p q)) = Inr tp)"

definition answer_ok :: "engine_item list \<Rightarrow> bool" where
  "answer_ok items \<longleftrightarrow> items_ok items \<and> int (length (answers items)) < 2 ^ 96 \<and> int (length (concat (answers items))) < 2 ^ 63"

lemma may_ask_recipient:
  assumes "may_ask K i q priv ro p" "l_peer l = p"
  shows "recipient ro (lease_to_dict l) (rq_model q) = Inr (box_pub K priv)"
  using assms by (auto simp: recipient_Inr may_ask_def lease_to_dict_def unb64_b64 offered_key_def)

text \<open>The peer's side: the request is accepted, the run finishes and its frames pass the coordinator.\<close>

lemma peer_serves:
  assumes K: "crypto_laws K" and ask: "may_ask K i q priv ro p" and ent: "entropy_ok K (box_pub K priv) ce"
    and seal: "seal_request K (client_plaintext K q) (box_pub K priv) rid (id_member i) (ce_now ce) (ce_master ce) (ce_iv ce) (ce_eph ce)
      = Inr (e0, ce_master ce)" "sign_envelope K e0 (id_sign_seed i) = Inr e" "envelope_ok e0" "request_id e0 = rid"
    and fresh: "check_fresh (ce_now ce) w DEFAULT_MAX_AGE = Inr ()" "check_and_add w rid (replay n) = (Inr (), cache)"
    and prompt: "prompt_ok K q" and run: "answer_ok items"
  obtains j frames where "peer_infer K L cfg ro priv w (Some (envelope_to_dict e)) n = (Serve j, n\<lparr>replay := cache\<rparr>)"
    "jb_env j = e" "jb_master j = ce_master ce" "int (jb_chars j) < 2 ^ 63"
    "peer_stream K cfg name version j (items, Finished) = (frames, None)"
proof -
  obtain m where m: "map_of (members ro) (id_member i) = Some m" "m_sign_pub m = b64 (ed_pub K (id_sign_seed i))"
    using ask by (auto simp: may_ask_def)
  have infer: "peer_infer K L cfg ro priv w (Some (envelope_to_dict e)) n =
      (accept_payload L cfg e (client_plaintext K q) (ce_master ce), n\<lparr>replay := cache\<rparr>)"
    by (rule peer_infer_accepts [OF K seal(1,2,3) m fresh])
  obtain j where j: "accept_payload L cfg e (client_plaintext K q) (ce_master ce) = Serve j"
      "jb_env j = e" "jb_master j = ce_master ce" "int (jb_chars j) < 2 ^ 63"
  proof -
    from prompt have "loads_bytes L (client_plaintext K q) = Some (client_payload q)"
      by (simp add: prompt_ok_def client_plaintext_def loads_wire_text)
    moreover from prompt obtain ls te tp where p: "rq_messages q \<noteq> []"
        "rmap content_len (rq_messages q) = Inr ls" "py_float (JNum (rq_temperature q)) = Inr te" "py_float (JNum (rq_top_p q)) = Inr tp"
      and size: "int (sum_list ls) < 2 ^ 63"
      unfolding prompt_ok_def by blast
    ultimately show ?thesis using accept_honest_payload [OF _ p, of L "client_plaintext K q" cfg e "ce_master ce"] size that by auto
  qed
  obtain frames where "peer_stream K cfg name version j (items, Finished) = (frames, None)"
    using peer_stream_total [of j items K cfg name version] ent run j(3) by (auto simp: entropy_ok_def answer_ok_def)
  with infer j that show ?thesis by simp
qed

text \<open>The coordinator's side: what it relays of a finished run is every frame of it.\<close>

lemma relay_finished:
  assumes K: "crypto_laws K" "request_id (jb_env j) \<noteq> []" and run: "answer_ok items" and lines: "line_laws lines_of"
    and stream: "peer_stream K cfg (JStr nm) (JStr ver) j (items, Finished) = (frames, None)"
    and sizes: "int (jb_chars j) < 2 ^ 63" "nm \<noteq> []" "ver \<noteq> []" "pc_hw_class cfg \<noteq> []"
  obtains r where "body_rows L lines_of (print_frames frepr frames) = map Json frames"
    "map stream_line (fst (infer_stream w t env l (PeerStream (map Json frames) None) None c)) = map Json frames"
    "\<not> stream_aborted env l (PeerStream (map Json frames) None) c"
    "client_receive K (jb_master j) (PeerStream (map Json frames) None) =
      (map (\<lambda>s. TextEvent (utf8 s)) (answers items) @ [ReceiptEvent r], None)"
proof -
  have items: "items_ok items" and made: "int (length (concat (answers items))) < 2 ^ 63" using run by (simp_all add: answer_ok_def)
  from K items stream obtain st where
    read: "client_receive K (jb_master j) (PeerStream (map Json frames) None) =
      (map (\<lambda>s. TextEvent (utf8 s)) (answers items) @ [ReceiptEvent (receipt_of cfg (JStr nm) (JStr ver) j st)], None)"
    and sniff: "sniff_receipt (Json (receipt_frame cfg (JStr nm) (JStr ver) j st)) = Some (receipt_of cfg (JStr nm) (JStr ver) j st)"
      "\<forall>l \<in> set (butlast frames). sniff_receipt (Json l) = None"
    and last: "last frames = receipt_frame cfg (JStr nm) (JStr ver) j st" "frames \<noteq> []"
    and usage: "\<forall>u. reported st = Some u \<longrightarrow> usage_ok u" "produced st = length (concat (answers items))"
    by (rule client_reads_peer)
  let ?r = "receipt_of cfg (JStr nm) (JStr ver) j st"
  have bind: "\<not> sql_error (consumption_of env l ?r)"
    using K(2) usage sizes made by (intro receipt_of_bindable) auto
  have split: "set frames = insert (last frames) (set (butlast frames))"
    using append_butlast_last_id [OF last(2)] by (metis set_append list.simps(15) list.set(1) Un_insert_right Un_empty_right)
  have "r' = ?r" if "x \<in> set (map Json frames)" "sniff_receipt x = Some r'" for x r'
    using that sniff last(1) by (auto simp: split)
  with bind have "\<not> sql_error (consumption_of env l r')" if "x \<in> set (map Json frames)" "sniff_receipt x = Some r'" for x r'
    using that by blast
  note all = relay_delivers [of "map Json frames" env l, OF this]
  have "fst (infer_stream w t env l (PeerStream (map Json frames) None) None c) = map Line (map Json frames)"
    and whole: "\<not> stream_aborted env l (PeerStream (map Json frames) None) c"
    by (rule all; auto)+
  then have out: "map stream_line (fst (infer_stream w t env l (PeerStream (map Json frames) None) None c)) = map Json frames"
    by (simp add: stream_line_def)
  have "body_rows L lines_of (print_frames frepr frames) = map Json frames"
    using lines frames_printable [OF stream items sizes(1) made] by (rule rows_of_frames)
  from that [OF this out whole] read show ?thesis by simp
qed

lemma envelope_ok_sealed:
  assumes "crypto_laws K" "entropy_ok K (box_pub K priv) ce" "may_ask K i q priv ro p"
    and "request_id e0 = rid" "rid \<noteq> []" "sender e0 = id_member i" "proto_v e0 = 1"
    "sealed_key e0 = b64 (box_seal K (box_pub K priv) (ce_eph ce) (ce_master ce))" "iv e0 = b64 (ce_iv ce)"
    "ciphertext e0 = b64 (aead_enc K k (ce_iv ce) data)"
  shows "envelope_ok e0"
proof -
  have "aead_enc K k (ce_iv ce) data \<noteq> []" using crypto_lawsD [OF assms(1)] by blast
  with assms(2-) show ?thesis by (simp add: envelope_ok_def entropy_ok_def may_ask_def b64_Nil_iff)
qed

text \<open>The buffered form of an answer's events is their concatenation.\<close>

lemma fold_texts:
  "(\<And>s. s \<in> set ss \<Longrightarrow> decode (utf8 s) = s) \<Longrightarrow>
     fold (collect decode) (map (\<lambda>s. TextEvent (utf8 s)) ss) cp = cp\<lparr>cp_text := cp_text cp @ concat ss\<rparr>"
  by (induction ss arbitrary: cp) auto

lemma complete_texts:
  assumes "\<And>s. s \<in> set ss \<Longrightarrow> decode (utf8 s) = s"
  shows "\<exists>cp. complete decode (PeerEvent pid # map (\<lambda>s. TextEvent (utf8 s)) ss @ [ReceiptEvent r], None) = Inr cp
    \<and> cp_text cp = concat ss \<and> cp_peer cp = pid"
  using fold_texts [OF assms, of ss] by (simp add: complete_def blank_completion_def)

text \<open>
  C1: an honest request is answered, whole and unaltered: when the client's member and the peer are on the
  roster, the lease is granted and live, the clocks agree and the request id is new to the peer, the client's
  events over the real coordinator and the real peer are the texts of the engine's run in order and one
  receipt, without error; and the buffered form is their concatenation. The prompt and the peer's frames travel
  as the JSON text that is printed for them, cut into lines by anything with \<open>line_laws\<close>.
\<close>
theorem request_answered:
  assumes "crypto_laws K" "may_ask K i q priv (roster_of c) (l_peer l)" "entropy_ok K (box_pub K priv) ce"
    and "clocks_ok (ce_now ce) ck" "l_request_id l \<noteq> []" "redeem (ck_t ck) (l_request_id l) (id_member i) (sched c) = (Inr l, s1)"
    and "check_and_add (ck_peer ck) (l_request_id l) (replay n) = (Inr (), cache)"
    and "prompt_ok K q" "answer_ok items" "line_laws lines_of" "nm \<noteq> []" "ver \<noteq> []" "pc_hw_class cfg \<noteq> []"
    and "run = client_events K i (roster_of c) q ce (200, Some (lease_to_dict l))
        (federation_answer K L lines_of cfg (JStr nm) (JStr ver) (items, Finished) priv ck n c)"
  shows "(\<exists>r. run = (PeerEvent (p_id (l_peer l)) # map (\<lambda>s. TextEvent (utf8 s)) (answers items) @ [ReceiptEvent r], None))
    \<and> ((\<forall>s \<in> set (answers items). decode (utf8 s) = s) \<longrightarrow>
         (\<exists>cp. complete decode run = Inr cp \<and> cp_text cp = concat (answers items) \<and> cp_peer cp = p_id (l_peer l)))"
proof -
  let ?key = "box_pub K priv" and ?rid = "l_request_id l" and ?ro = "roster_of c"
  let ?answer = "federation_answer K L lines_of cfg (JStr nm) (JStr ver) (items, Finished) priv ck n c"
  obtain d where d: "lease_to_dict l = JObj d" "map_of d ''request_id'' = Some (JStr ?rid)" "obj_get d ''peer_id'' = JStr (p_id (l_peer l))"
    by (simp add: lease_to_dict_def)
  have fresh: "check_fresh (ce_now ce) (ck_w ck) DEFAULT_MAX_AGE = Inr ()" "check_fresh (ce_now ce) (ck_peer ck) DEFAULT_MAX_AGE = Inr ()"
    using assms(4) by (simp_all add: clocks_ok_def)
  have len: "length (ce_master ce) = 32" "length ?key = 32" using assms(2,3) by (simp_all add: entropy_ok_def may_ask_def)
  from d(2) len check_fresh_finite [OF fresh(1)] obtain e0 e where
    seal: "seal_request K (client_plaintext K q) ?key ?rid (id_member i) (ce_now ce) (ce_master ce) (ce_iv ce) (ce_eph ce) = Inr (e0, ce_master ce)"
      "sign_envelope K e0 (id_sign_seed i) = Inr e" "client_seal K i q ce d ?key = Inr (e, ce_master ce)"
    and e0: "request_id e0 = ?rid" "sender e0 = id_member i" "ts e0 = ce_now ce" "proto_v e0 = 1"
      "sealed_key e0 = b64 (box_seal K ?key (ce_eph ce) (ce_master ce))" "iv e0 = b64 (ce_iv ce)"
      "ciphertext e0 = b64 (aead_enc K (hkdf K (ce_master ce) INFO_REQUEST) (ce_iv ce) (client_plaintext K q))"
    by (rule client_seal_ok)
  have ok0: "envelope_ok e0" by (rule envelope_ok_sealed [OF assms(1,3,2) e0(1) assms(5) e0(2,4-7)])
  with signed_fields [OF seal(2)] e0 have e: "request_id e = ?rid" "sender e = id_member i" "ts e = ce_now ce" "envelope_ok e" by simp_all
  obtain m where m: "map_of (members ?ro) (id_member i) = Some m" "m_sign_pub m = b64 (ed_pub K (id_sign_seed i))"
    using assms(2) by (auto simp: may_ask_def)
  have "\<exists>c1. infer_begin K (ck_w ck) (ck_t ck) (Some (envelope_to_dict e)) c = (Streaming e l, c1)"
    using e m fresh(1) assms(6) verify_sign_envelope [OF assms(1) seal(2)]
    by (intro infer_begin_accepts [where m = m and key = "ed_pub K (id_sign_seed i)" and ?s1.0 = s1]) (simp_all add: unb64_b64)
  then obtain c1 where begun: "infer_begin K (ck_w ck) (ck_t ck) (Some (envelope_to_dict e)) c = (Streaming e l, c1)" by blast
  from assms(1-3) seal(1,2) ok0 e0(1) fresh(2) assms(7-9) obtain j frames where
    served: "peer_infer K L cfg ?ro priv (ck_peer ck) (Some (envelope_to_dict e)) n = (Serve j, n\<lparr>replay := cache\<rparr>)"
      "jb_env j = e" "jb_master j = ce_master ce" "int (jb_chars j) < 2 ^ 63"
      "peer_stream K cfg (JStr nm) (JStr ver) j (items, Finished) = (frames, None)"
    by (rule peer_serves)
  have "request_id (jb_env j) \<noteq> []" using served(2) e(1) assms(5) by simp
  from assms(1) this assms(9,10) served(5,4) assms(11-13) obtain r where
    relayed: "body_rows L lines_of (print_frames (float_repr K) frames) = map Json frames"
      "map stream_line (fst (infer_stream (ck_end_w ck) (ck_end_t ck) e l (PeerStream (map Json frames) None) None c1)) = map Json frames"
      "\<not> stream_aborted e l (PeerStream (map Json frames) None) c1"
      "client_receive K (jb_master j) (PeerStream (map Json frames) None) =
        (map (\<lambda>s. TextEvent (utf8 s)) (answers items) @ [ReceiptEvent r], None)"
    by (rule relay_finished)
  have "?answer (envelope_to_dict e) = PeerStream (map Json frames) None"
    using begun served(1,5) relayed(1-3) by (simp add: federation_answer_def peer_http_def Let_def)
  then have "client_events K i ?ro q ce (200, Some (lease_to_dict l)) ?answer =
      (PeerEvent (p_id (l_peer l)) # map (\<lambda>s. TextEvent (utf8 s)) (answers items) @ [ReceiptEvent r], None)"
    using relayed(4) seal(3) d served(3) may_ask_recipient [OF assms(2) refl]
    by (simp add: client_events_def lease_response_def as_object_def str_or_empty_def Let_def)
  then have run: "run = (PeerEvent (p_id (l_peer l)) # map (\<lambda>s. TextEvent (utf8 s)) (answers items) @ [ReceiptEvent r], None)"
    by (simp add: assms(14))
  with complete_texts [of "answers items" decode "p_id (l_peer l)" r] show ?thesis by blast
qed

text \<open>
  A request for a lease as its caller sees it: granted at once, or queued and, after the scheduler has done \<open>ops\<close>,
  woken with a grant.
\<close>

inductive lease_granted :: "crypto \<Rightarrow> rat \<Rightarrow> rat \<Rightarrow> json option \<Rightarrow> coordinator \<Rightarrow> sched_op list \<Rightarrow> json \<Rightarrow> coordinator \<Rightarrow> bool"
  for K w t rq c where
  at_once: "lease_handler K w t rq c = (LeaseReply doc, c') \<Longrightarrow> lease_granted K w t rq c [] doc c'"
| woken: "lease_handler K w t rq c = (Queued n, c1) \<Longrightarrow> sched c2 = fold sched_step ops (sched c1) \<Longrightarrow>
    lease_resume w' n mid m c2 = (LeaseReply doc, c') \<Longrightarrow> lease_granted K w t rq c ops doc c'"

lemma lease_handler_asks:
  assumes "lease_handler K w t rq c = (res, c')" "(\<exists>doc. res = LeaseReply doc) \<or> (\<exists>n. res = Queued n)"
  obtains req mid body m n s2 a where "rq = Some req" "verify_signed_request K w (roster_of c) req (nonces c) = (Inr (mid, body), n)"
    "obj_get body ''model'' = JStr m" "m \<noteq> []" "acquire t mid m (snd (expire_stale t (sched c))) = (Inr a, s2)"
    "case a of Leased l \<Rightarrow> res = LeaseReply (lease_to_dict l) \<and> c' = observe w ''lease'' mid m (put_sched s2 (c\<lparr>nonces := n\<rparr>))
       | Waiting k \<Rightarrow> res = Queued k \<and> sched c' = s2"
proof -
  from assms obtain req mid body n where v: "rq = Some req" "verify_signed_request K w (roster_of c) req (nonces c) = (Inr (mid, body), n)"
    and b: "lease_body w t mid body (c\<lparr>nonces := n\<rparr>) = (res, c')"
    by (auto simp: lease_handler_def signed_def refuse_def split: option.splits sum.splits prod.splits auth_error.splits crash.splits)
  from b assms(2) show ?thesis
    by (auto simp: lease_body_def Let_def split: option.splits sum.splits prod.splits sched_error.splits acquired.splits
        intro!: that [OF v])
qed

lemma observe_phase [simp]: "phase_of rid (sched (observe w e m md c)) = phase_of rid (sched c)"
  by (rule phase_cong) simp_all

lemma active_usable:
  assumes "coord_ok c'" "phase_of (l_request_id l) (sched c') = Active l" "p_model (l_peer l) = m" "doc = lease_to_dict l"
  shows "map_of (peers (roster_of c')) (p_id (l_peer l)) = Some (l_peer l)
    \<and> (\<forall>key. p_id (l_peer l) \<noteq> [] \<longrightarrow> unb64 (p_enc_pub (l_peer l)) = Inr key \<longrightarrow> recipient (roster_of c') doc m = Inr key)
    \<and> (\<forall>later t'. list_all (spares l) later \<longrightarrow> t' \<le> l_expires_at l \<longrightarrow>
         fst (redeem t' (l_request_id l) (l_member l) (fold sched_step later (sched c'))) = Inr l)"
proof -
  have ok: "sched_ok (sched c')" using assms(1) by (simp add: coord_ok_def)
  have p: "map_of (peers (roster_of c')) (p_id (l_peer l)) = Some (l_peer l)" by (rule active_peer [OF ok assms(2)])
  then have "recipient (roster_of c') doc m = Inr key" if "p_id (l_peer l) \<noteq> []" "unb64 (p_enc_pub (l_peer l)) = Inr key" for key
    using that assms(3,4) by (auto simp: recipient_Inr lease_to_dict_def offered_key_def)
  with p active_run [OF ok assms(2)] active_redeemed show ?thesis by blast
qed

text \<open>
  C9: a lease the coordinator grants, at once or to a request that waited in its queue, is one its member can use: it
  is for the requester and the model asked for, on a peer of the roster, the client finds the roster's key for
  it, and until it expires the member's first redemption of that request id succeeds, whatever the scheduler
  does meanwhile: other requests, heartbeats, expiries and redemptions, save the release of this very lease.
\<close>
theorem granted_lease_usable:
  assumes "coord_ok c" "lease_granted K w t rq c ops doc c'"
  shows "\<exists>req mid body m l. rq = Some req \<and> fst (verify_signed_request K w (roster_of c) req (nonces c)) = Inr (mid, body)
    \<and> obj_get body ''model'' = JStr m \<and> doc = lease_to_dict l
    \<and> (list_all (spares l) ops \<longrightarrow> l_member l = mid \<and> p_model (l_peer l) = m
        \<and> map_of (peers (roster_of c')) (p_id (l_peer l)) = Some (l_peer l)
        \<and> (\<forall>key. p_id (l_peer l) \<noteq> [] \<longrightarrow> unb64 (p_enc_pub (l_peer l)) = Inr key \<longrightarrow> recipient (roster_of c') doc m = Inr key)
        \<and> (\<forall>later t'. list_all (spares l) later \<longrightarrow> t' \<le> l_expires_at l \<longrightarrow>
             fst (redeem t' (l_request_id l) mid (fold sched_step later (sched c'))) = Inr l))"
  using assms(2)
proof cases
  case at_once
  obtain req mid body m n s2 a where asks: "rq = Some req" "verify_signed_request K w (roster_of c) req (nonces c) = (Inr (mid, body), n)"
    "obj_get body ''model'' = JStr m" "m \<noteq> []" "acquire t mid m (snd (expire_stale t (sched c))) = (Inr a, s2)"
    "case a of Leased l \<Rightarrow> LeaseReply doc = LeaseReply (lease_to_dict l) \<and> c' = observe w ''lease'' mid m (put_sched s2 (c\<lparr>nonces := n\<rparr>))
       | Waiting k \<Rightarrow> LeaseReply doc = Queued k \<and> sched c' = s2"
    by (rule lease_handler_asks [OF at_once(2)]) blast+
  then obtain l where l: "a = Leased l" "doc = lease_to_dict l" "c' = observe w ''lease'' mid m (put_sched s2 (c\<lparr>nonces := n\<rparr>))"
    by (auto split: acquired.splits)
  have ok: "sched_ok (snd (expire_stale t (sched c)))" using assms(1) expire_ok by (simp add: coord_ok_def)
  from asks(5) l(1) have acq: "acquire t mid m (snd (expire_stale t (sched c))) = (Inr (Leased l), s2)" by simp
  note got = acquire_leased [OF ok acq asks(4)]
  have "sched_ok s2" using acquire_ok [OF ok, of t mid m] acq by simp
  then have "coord_ok c'" unfolding l(3) by (intro coord_ok_observe) simp
  moreover have "phase_of (l_request_id l) (sched c') = Active l" using got by (simp add: l(3) phase_active)
  ultimately show ?thesis using active_usable [of c' l m doc] got l(2) asks(1-3) by auto
next
  case (woken n c1 c2 w' mid' m')
  obtain req mid body m k s2 a where asks: "rq = Some req" "verify_signed_request K w (roster_of c) req (nonces c) = (Inr (mid, body), k)"
    "obj_get body ''model'' = JStr m" "m \<noteq> []" "acquire t mid m (snd (expire_stale t (sched c))) = (Inr a, s2)"
    "case a of Leased l \<Rightarrow> Queued n = LeaseReply (lease_to_dict l) \<and> c1 = observe w ''lease'' mid m (put_sched s2 (c\<lparr>nonces := k\<rparr>))
       | Waiting i \<Rightarrow> Queued n = Queued i \<and> sched c1 = s2"
    by (rule lease_handler_asks [OF woken(1)]) blast+
  then have acq: "acquire t mid m (snd (expire_stale t (sched c))) = (Inr (Waiting n), s2)" "sched c1 = s2"
    by (auto split: acquired.splits)
  have ok: "sched_ok (snd (expire_stale t (sched c)))" using assms(1) expire_ok by (simp add: coord_ok_def)
  then have ok2: "sched_ok (sched c1)" using acquire_ok [OF ok, of t mid m] acq by simp
  from woken(3) obtain l where l: "future_of n (sched c2) = Granted l" "doc = lease_to_dict l" "c' = observe w' ''lease'' mid' m' c2"
    by (auto simp: lease_resume_def split: future.splits)
  have "l_member l = mid \<and> p_model (l_peer l) = m \<and> phase_of (l_request_id l) (sched c') = Active l \<and> coord_ok c'"
    if sp: "list_all (spares l) ops"
  proof -
    have "waiting_ok n mid m l (sched c1)" using acquire_waits [OF ok acq(1)] acq(2) by simp
    from waiting_run [OF ok2 this asks(4) sp] woken(2) have "sched_ok (sched c2)" "waiting_ok n mid m l (sched c2)" by simp_all
    with l show ?thesis by (auto simp: waiting_ok_def granted_ok_def coord_ok_def [of c2] intro!: coord_ok_observe)
  qed
  then show ?thesis using active_usable [of c' l m doc] l(2) asks(1-3)
    by (intro exI [of _ req] exI [of _ mid] exI [of _ body] exI [of _ m] exI [of _ l]) auto
qed

section \<open>Witness\<close>

text \<open>Member \<open>b\<close> holds a lease on peer \<open>g\<close>; the peer's engine says one word and reports what it used.\<close>

definition demo_fed_roster :: roster where
  "demo_fed_roster = demo_full_roster\<lparr>peers := [(''g'', demo_peer\<lparr>p_enc_pub := demo_pub\<rparr>)]\<rparr>"

definition demo_fed :: coordinator where
  "demo_fed = \<lparr>sched = fold sched_step [demo_beat 1000, Acquire 1001 ''b'' ''m''] (new_scheduler (new_registry demo_fed_roster) demo_tokens),
     nonces = demo_cache, concurrency = []\<rparr>"

definition demo_fed_lease :: lease where
  "demo_fed_lease = \<lparr>l_request_id = ''t'', l_member = ''b'', l_peer = demo_peer\<lparr>p_enc_pub := demo_pub\<rparr>, l_expires_at = 1301\<rparr>"

definition demo_fed_query :: request_params where
  "demo_fed_query = demo_query\<lparr>rq_messages := [JObj [(''content'', JStr ''hi'')]], rq_temperature := IntN 0, rq_top_p := IntN 1\<rparr>"

definition demo_clocks :: clocks where
  "demo_clocks = \<lparr>ck_w = 1002, ck_t = 1002, ck_peer = 1003, ck_end_w = 1004, ck_end_t = 1004\<rparr>"

lemma demo_fed_redeem:
  "redeem 1002 ''t'' ''b'' (sched demo_fed) = (Inr demo_fed_lease, snd (redeem 1002 ''t'' ''b'' (sched demo_fed)))"
  by (rule prod_eqI) (simp_all, code_simp)

theorem request_answered_witness:
  "\<exists>r. client_events demo_crypto demo_identity demo_fed_roster demo_fed_query demo_entropy (200, Some (lease_to_dict demo_fed_lease))
       (federation_answer demo_crypto demo_lib text_lines (peer_defaults ''g'') (JStr ''mock'') (JStr ''1'') (demo_items, Finished) demo_key demo_clocks demo_node demo_fed)
     = ([PeerEvent ''g'', TextEvent (utf8 ''hi''), ReceiptEvent r], None)"
proof -
  have ro: "roster_of demo_fed = demo_fed_roster" by code_simp
  have key: "b64 demo_key = demo_pub" by code_simp
  have keys: "box_pub demo_crypto k = k" "ed_pub demo_crypto k = k" "length demo_key = 32" for k
    by (simp_all add: demo_crypto_def demo_key_def)
  have ident: "id_member demo_identity = ''b''" "id_sign_seed demo_identity = demo_key"
    by (simp_all add: demo_identity_def generate_identity_def new_signing_keypair_def new_encryption_keypair_def)
  have "map_of (members demo_fed_roster) ''b'' = Some ((demo_member ''b'')\<lparr>m_sign_pub := demo_pub\<rparr>)"
    by (simp add: demo_fed_roster_def demo_full_roster_def)
  then have ask: "may_ask demo_crypto demo_identity demo_fed_query demo_key (roster_of demo_fed) (l_peer demo_fed_lease)"
    by (simp add: may_ask_def ro key keys ident demo_fed_roster_def demo_fed_lease_def demo_peer_def demo_fed_query_def demo_query_def)
  have ent: "entropy_ok demo_crypto (box_pub demo_crypto demo_key) demo_entropy"
    by (simp add: entropy_ok_def demo_entropy_def demo_crypto_def)
  have "check_fresh (IntN 1000) 1002 DEFAULT_MAX_AGE = Inr ()" "check_fresh (IntN 1000) 1003 DEFAULT_MAX_AGE = Inr ()" by code_simp+
  then have clk: "clocks_ok (ce_now demo_entropy) demo_clocks" by (simp add: clocks_ok_def demo_entropy_def demo_clocks_def)
  have rid: "l_request_id demo_fed_lease = ''t''" "id_member demo_identity = ''b''" "ck_t demo_clocks = 1002" "ck_peer demo_clocks = 1003"
    by (simp_all add: demo_fed_lease_def demo_identity_def generate_identity_def new_signing_keypair_def new_encryption_keypair_def demo_clocks_def)
  have new: "check_and_add 1003 ''t'' (replay demo_node) = (Inr (), small_cache\<lparr>seen := [(''t'', 1243)]\<rparr>)"
    by (simp add: check_and_add_def demo_node_def small_cache_def)
  have prompt: "prompt_ok demo_crypto demo_fed_query"
    by (simp add: prompt_ok_def demo_fed_query_def demo_query_def client_payload_def short_intI float_overflows_def content_len_def message_content_def py_float_def)
  have ans: "answer_ok demo_items" by (simp add: answer_ok_def demo_items_def items_ok_def usage_ok_def)
  have "\<exists>r. client_events demo_crypto demo_identity (roster_of demo_fed) demo_fed_query demo_entropy (200, Some (lease_to_dict demo_fed_lease))
       (federation_answer demo_crypto demo_lib text_lines (peer_defaults ''g'') (JStr ''mock'') (JStr ''1'') (demo_items, Finished) demo_key demo_clocks demo_node demo_fed)
     = (PeerEvent (p_id (l_peer demo_fed_lease)) # map (\<lambda>s. TextEvent (utf8 s)) (answers demo_items) @ [ReceiptEvent r], None)"
    using demo_fed_redeem new
    by (intro conjunct1 [OF request_answered [OF demo_crypto_laws ask ent clk _ _ _ prompt ans line_laws_text_lines, where ver = "''1''"]])
       (simp_all add: rid peer_defaults_def)
  then show ?thesis by (simp add: ro demo_items_def demo_fed_lease_def demo_peer_def)
qed

text \<open>
  Member \<open>b\<close> asks for model \<open>m\<close> while its only peer is taken, waits, and is granted the slot when it is released;
  later the coordinator expires old leases and another member tries the lease.
\<close>

lemma demo_fed_ok: "coord_ok demo_fed"
proof -
  have "roster_ok demo_fed_roster"
    using demo_full_roster_ok by (auto simp: roster_ok_def demo_fed_roster_def demo_full_roster_def demo_roster_def demo_peer_def
        peer_ok_def members_known_def total_gb_def contribution_ok_def)
  then have "sched_ok (fold sched_step [demo_beat 1000, Acquire 1001 ''b'' ''m''] (new_scheduler (new_registry demo_fed_roster) demo_tokens))"
    by (intro sched.run_inv sched_ok_new demo_tokens_inj)
  then show ?thesis by (simp add: coord_ok_def demo_fed_def)
qed

definition demo_woken :: coordinator where
  "demo_woken = put_sched (fold sched_step [ExpireStale 1002, Acquire 1002 ''b'' ''m'', Release 1003 ''t''] (sched demo_fed)) demo_fed"

definition demo_woken_lease :: lease where
  "demo_woken_lease = demo_fed_lease\<lparr>l_request_id := demo_tokens 1, l_expires_at := 1303\<rparr>"

lemma demo_waits:
  "lease_granted demo_crypto 1010 1002 (Some demo_request) demo_fed [Release 1003 ''t''] (lease_to_dict demo_woken_lease)
     (observe 1011 ''lease'' ''b'' ''m'' demo_woken)"
proof -
  have ro: "roster_of demo_fed = demo_fed_roster" by code_simp
  have key: "b64 demo_key = demo_pub" by code_simp
  have m: "map_of (members (roster_of demo_fed)) ''b'' = Some ((demo_member ''b'')\<lparr>m_sign_pub := demo_pub\<rparr>)"
    by (simp add: ro demo_fed_roster_def demo_full_roster_def)
  have fresh: "check_fresh (IntN 1000) 1010 DEFAULT_MAX_AGE = Inr ()" by code_simp
  have new: "check_and_add 1010 ''n1'' (nonces demo_fed) = (Inr (), demo_cache\<lparr>seen := [(''n1'', 1250)]\<rparr>)"
    by (simp add: check_and_add_def demo_fed_def demo_cache_def prune_def)
  have v: "verify_signed_request demo_crypto 1010 (roster_of demo_fed) demo_request (nonces demo_fed) =
      (Inr (''b'', demo_body), demo_cache\<lparr>seen := [(''n1'', 1250)]\<rparr>)"
    by (rule signed_request_accepted [OF demo_crypto_laws m _ _ _ demo_request_signed _ fresh new])
       (simp_all add: key demo_crypto_def demo_key_def flip: key)
  let ?s = "snd (expire_stale 1002 (sched demo_fed))"
  have "fst (acquire 1002 ''b'' ''m'' ?s) = Inr (Waiting 0)" by code_simp
  then obtain s2 where acq: "acquire 1002 ''b'' ''m'' ?s = (Inr (Waiting 0), s2)" by (metis prod.collapse)
  have q: "lease_handler demo_crypto 1010 1002 (Some demo_request) demo_fed =
      (Queued 0, put_sched s2 (demo_fed\<lparr>nonces := demo_cache\<lparr>seen := [(''n1'', 1250)]\<rparr>\<rparr>))"
    using acq by (simp add: lease_handler_def signed_def v lease_body_def demo_body_def Let_def)
  have "future_of 0 (sched demo_woken) = Granted demo_woken_lease" by code_simp
  then have "lease_resume 1011 0 ''b'' ''m'' demo_woken =
      (LeaseReply (lease_to_dict demo_woken_lease), observe 1011 ''lease'' ''b'' ''m'' demo_woken)"
    by (simp add: lease_resume_def)
  then show ?thesis by (rule lease_granted.woken [OF q, rotated]) (simp add: demo_woken_def acq)
qed

theorem granted_lease_usable_witness:
  "\<exists>doc c'. lease_granted demo_crypto 1010 1002 (Some demo_request) demo_fed [Release 1003 ''t''] doc c'
     \<and> recipient (roster_of c') doc ''m'' = Inr demo_key
     \<and> fst (redeem 1300 (demo_tokens 1) ''b'' (fold sched_step [ExpireStale 1200, Redeem 1210 (demo_tokens 1) ''a'', ExpireStale 1299] (sched c')))
       = Inr demo_woken_lease"
proof -
  let ?c = "observe 1011 ''lease'' ''b'' ''m'' demo_woken"
  have ro: "roster_of demo_fed = demo_fed_roster" "roster_of ?c = demo_fed_roster" by code_simp+
  have v: "fst (verify_signed_request demo_crypto 1010 (roster_of demo_fed) demo_request (nonces demo_fed)) = Inr (''b'', demo_body)"
    by code_simp
  from granted_lease_usable [OF demo_fed_ok demo_waits] v obtain l
    where l: "lease_to_dict demo_woken_lease = lease_to_dict l" "list_all (spares l) [Release 1003 ''t''] \<longrightarrow> l_member l = ''b''
        \<and> map_of (peers (roster_of ?c)) (p_id (l_peer l)) = Some (l_peer l)
        \<and> (\<forall>key. p_id (l_peer l) \<noteq> [] \<longrightarrow> unb64 (p_enc_pub (l_peer l)) = Inr key \<longrightarrow> recipient (roster_of ?c) (lease_to_dict demo_woken_lease) ''m'' = Inr key)
        \<and> (\<forall>later t'. list_all (spares l) later \<longrightarrow> t' \<le> l_expires_at l \<longrightarrow>
             fst (redeem t' (l_request_id l) ''b'' (fold sched_step later (sched ?c))) = Inr l)"
    by (auto simp: demo_body_def)
  from l(1) have id: "l_request_id l = demo_tokens 1" "l_expires_at l = 1303"
    by (simp_all add: lease_to_dict_def demo_woken_lease_def)
  have "''t'' \<noteq> demo_tokens 1" by (simp add: demo_tokens_def)
  with l(2) id have mem: "l_member l = ''b''" and p: "map_of (peers (roster_of ?c)) (p_id (l_peer l)) = Some (l_peer l)"
    and key: "\<And>key. p_id (l_peer l) \<noteq> [] \<Longrightarrow> unb64 (p_enc_pub (l_peer l)) = Inr key \<Longrightarrow> recipient (roster_of ?c) (lease_to_dict demo_woken_lease) ''m'' = Inr key"
    and red: "\<And>later t'. list_all (spares l) later \<Longrightarrow> t' \<le> 1303 \<Longrightarrow> fst (redeem t' (demo_tokens 1) ''b'' (fold sched_step later (sched ?c))) = Inr l"
    by simp_all
  from p have g: "l_peer l = demo_peer\<lparr>p_enc_pub := demo_pub\<rparr>"
    unfolding ro by (auto simp: demo_fed_roster_def demo_peer_def split: if_splits)
  with mem id have "l = demo_woken_lease" by (simp add: demo_woken_lease_def demo_fed_lease_def)
  with red [of "[ExpireStale 1200, Redeem 1210 (demo_tokens 1) ''a'', ExpireStale 1299]" 1300] id mem
  have "fst (redeem 1300 (demo_tokens 1) ''b'' (fold sched_step [ExpireStale 1200, Redeem 1210 (demo_tokens 1) ''a'', ExpireStale 1299] (sched ?c)))
      = Inr demo_woken_lease" by simp
  moreover have "recipient (roster_of ?c) (lease_to_dict demo_woken_lease) ''m'' = Inr demo_key"
    using key [of demo_key] demo_pub_eq by (simp add: g demo_peer_def)
  ultimately show ?thesis using demo_waits by blast
qed

end
