(* ===== verification/Transport.thy ===== *)
theory Transport
  imports Prelude
begin

text \<open>
  \<open>tlsconfig.py\<close>: the client's and the server's TLS settings. The file system is a predicate on paths; an
  \<open>SSLContext\<close> is the list of things that were put into it. \<open>argparse\<close> results are records of what the
  options hold, \<open>None\<close> when they were not given.
\<close>

datatype tls_error =
    NoSuchFile string string
  | CertNeedsKey
  | KeyNeedsCert
  | ServerNeedsBoth

record tls_config =
  ca_bundle :: "string option"
  client_cert :: "string option"
  client_key :: "string option"
  insecure :: bool

text \<open>The truth value of an optional string: an empty path counts as none.\<close>

definition given :: "string option \<Rightarrow> bool" where
  "given p = (case p of None \<Rightarrow> False | Some s \<Rightarrow> s \<noteq> [])"

fun check_paths :: "(string \<Rightarrow> bool) \<Rightarrow> (string \<times> string option) list \<Rightarrow> tls_error + unit" where
  "check_paths exists [] = Inr ()"
| "check_paths exists ((label, path) # rest) =
     (if given path \<and> \<not> exists (the path) then Inl (NoSuchFile label (the path)) else check_paths exists rest)"

text \<open>\<open>TLSConfig(...)\<close> with its \<open>__post_init__\<close>.\<close>

definition tls_init :: "(string \<Rightarrow> bool) \<Rightarrow> tls_config \<Rightarrow> tls_error + tls_config" where
  "tls_init exists c =
     rbind (check_paths exists
       [(''--ca-bundle'', ca_bundle c), (''--client-cert'', client_cert c), (''--client-key'', client_key c)]) (\<lambda>u.
     if given (client_cert c) \<and> \<not> given (client_key c) then Inl CertNeedsKey
     else if given (client_key c) \<and> \<not> given (client_cert c) then Inl KeyNeedsCert
     else Inr c)"

definition tls_cert :: "tls_config \<Rightarrow> (string \<times> string) option" where
  "tls_cert c =
     (if given (client_cert c) \<and> given (client_key c) then Some (the (client_cert c), the (client_key c)) else None)"

definition tls_enabled :: "tls_config \<Rightarrow> bool" where
  "tls_enabled c \<longleftrightarrow> given (ca_bundle c) \<or> tls_cert c \<noteq> None"

text \<open>
  What \<open>httpx\<close> is told to validate against: nothing, its own default, or a context whose trust anchors are
  the given bundle (or the system's) and whose client certificate is the given pair (or none).
\<close>

datatype verification =
    NoVerification
  | DefaultVerification
  | Context "string option" "(string \<times> string) option"

definition tls_verify :: "tls_config \<Rightarrow> verification" where
  "tls_verify c =
     (if insecure c then NoVerification
      else if \<not> tls_enabled c then DefaultVerification
      else Context (if given (ca_bundle c) then ca_bundle c else None) (tls_cert c))"

definition httpx_kwargs :: "tls_config \<Rightarrow> (string \<times> verification) list" where
  "httpx_kwargs c = [(''verify'', tls_verify c)]"

definition DEFAULT_TLS :: tls_config where
  "DEFAULT_TLS = \<lparr>ca_bundle = None, client_cert = None, client_key = None, insecure = False\<rparr>"

section \<open>Command-line options\<close>

record client_tls_args =
  a_ca_bundle :: "string option"
  a_client_cert :: "string option"
  a_client_key :: "string option"
  a_insecure :: bool

definition tls_from_args :: "(string \<Rightarrow> bool) \<Rightarrow> client_tls_args \<Rightarrow> tls_error + tls_config" where
  "tls_from_args exists a =
     tls_init exists \<lparr>ca_bundle = a_ca_bundle a, client_cert = a_client_cert a, client_key = a_client_key a, insecure = a_insecure a\<rparr>"

record server_tls_args =
  a_tls_cert :: "string option"
  a_tls_key :: "string option"
  a_tls_client_ca :: "string option"

text \<open>The keyword arguments for the server; client certificates are required exactly when \<open>ssl_ca_certs\<close> is set.\<close>

record server_tls =
  ssl_certfile :: string
  ssl_keyfile :: string
  ssl_ca_certs :: "string option"

definition server_tls_kwargs :: "(string \<Rightarrow> bool) \<Rightarrow> server_tls_args \<Rightarrow> tls_error + server_tls option" where
  "server_tls_kwargs exists a =
     (if \<not> given (a_tls_cert a) \<and> \<not> given (a_tls_key a) then Inr None
      else if \<not> (given (a_tls_cert a) \<and> given (a_tls_key a)) then Inl ServerNeedsBoth
      else rbind (check_paths exists [(''--tls-cert'', a_tls_cert a), (''--tls-key'', a_tls_key a)]) (\<lambda>u.
        let kw = \<lparr>ssl_certfile = the (a_tls_cert a), ssl_keyfile = the (a_tls_key a), ssl_ca_certs = None\<rparr> in
        if given (a_tls_client_ca a) then
          rbind (check_paths exists [(''--tls-client-ca'', a_tls_client_ca a)]) (\<lambda>u.
            Inr (Some (kw\<lparr>ssl_ca_certs := a_tls_client_ca a\<rparr>)))
        else Inr (Some kw)))"

section \<open>Lemmas\<close>

lemma check_paths_Inr:
  "check_paths exists ps = Inr u \<longleftrightarrow> (\<forall>(label, p) \<in> set ps. given p \<longrightarrow> exists (the p))"
  by (induction ps) (auto split: if_splits)

lemma given_some: "given p \<longleftrightarrow> (\<exists>s. p = Some s \<and> s \<noteq> [])"
  by (simp add: given_def split: option.splits)

section \<open>Properties\<close>

text \<open>
  A client TLS configuration is accepted only when its files exist and certificate and key come together,
  and then certificate verification is off exactly when \<open>--insecure\<close> was asked for: a bundle, when given, is
  the only trust anchor, and the client certificate is presented exactly when one was given.
\<close>
theorem tls_never_silently_weaker:
  assumes "tls_from_args exists a = Inr c"
  shows "(tls_verify c = NoVerification \<longleftrightarrow> a_insecure a)
    \<and> (\<not> a_insecure a \<and> given (a_ca_bundle a) \<longrightarrow> (\<exists>cert. tls_verify c = Context (a_ca_bundle a) cert))
    \<and> (\<not> a_insecure a \<and> given (a_client_cert a) \<longrightarrow>
         (\<exists>ca. tls_verify c = Context ca (Some (the (a_client_cert a), the (a_client_key a))))
         \<and> exists (the (a_client_cert a)) \<and> exists (the (a_client_key a)))
    \<and> (given (a_client_cert a) \<longleftrightarrow> given (a_client_key a))"
  using assms
  by (auto simp: tls_from_args_def tls_init_def rbind_Inr_iff check_paths_Inr tls_verify_def tls_enabled_def tls_cert_def
      split: if_splits)

text \<open>
  a server that was given a certificate and a key serves with TLS or not at all, and with a client CA it
  requires client certificates; but a client CA alone is ignored: the server then serves in clear although
  its operator asked for mutual TLS.
\<close>
theorem server_tls_all_or_nothing:
  "(given (a_tls_cert a) \<and> given (a_tls_key a) \<longrightarrow>
      (case server_tls_kwargs exists a of
         Inl e \<Rightarrow> (\<exists>label path. e = NoSuchFile label path \<and> \<not> exists path)
       | Inr kw \<Rightarrow> (\<exists>k. kw = Some k \<and> exists (ssl_certfile k) \<and> exists (ssl_keyfile k)
           \<and> (given (a_tls_client_ca a) \<longleftrightarrow> ssl_ca_certs k \<noteq> None)
           \<and> (\<forall>ca. ssl_ca_certs k = Some ca \<longrightarrow> a_tls_client_ca a = Some ca \<and> exists ca))))
   \<and> server_tls_kwargs exists \<lparr>a_tls_cert = None, a_tls_key = None, a_tls_client_ca = Some ca\<rparr> = Inr None"
  by (auto simp: server_tls_kwargs_def given_some Let_def split: sum.splits if_splits)

section \<open>Witnesses\<close>

definition demo_tls_args :: client_tls_args where
  "demo_tls_args = \<lparr>a_ca_bundle = Some ''ca'', a_client_cert = Some ''c'', a_client_key = Some ''k'', a_insecure = False\<rparr>"

theorem tls_never_silently_weaker_witness:
  "\<exists>c. tls_from_args (\<lambda>p. p \<in> {''ca'', ''c'', ''k''}) demo_tls_args = Inr c \<and> tls_verify c \<noteq> NoVerification"
proof -
  obtain c where c: "tls_from_args (\<lambda>p. p \<in> {''ca'', ''c'', ''k''}) demo_tls_args = Inr c"
    by (simp add: tls_from_args_def tls_init_def demo_tls_args_def given_def)
  with tls_never_silently_weaker [OF c] show ?thesis by (auto simp: demo_tls_args_def)
qed

theorem server_tls_all_or_nothing_witness:
  "\<exists>k. server_tls_kwargs (\<lambda>p. True) \<lparr>a_tls_cert = Some ''c'', a_tls_key = Some ''k'', a_tls_client_ca = Some ''ca''\<rparr> = Inr (Some k)
     \<and> ssl_ca_certs k \<noteq> None"
  using server_tls_all_or_nothing [of "\<lparr>a_tls_cert = Some ''c'', a_tls_key = Some ''k'', a_tls_client_ca = Some ''ca''\<rparr>" "\<lambda>p. True" "''x''"]
  by (auto simp: given_some split: sum.splits)

end
