(* ===== verification/Heartbeat.thy ===== *)
theory Heartbeat
  imports Coordinator PeerNode Transport
begin

text \<open>
  \<open>peer/heartbeat.py\<close>: the signed statement a peer sends about itself, and the loop that sends it. The
  rounds of the loop, each with the readiness verdict, the nonce, the time and the status of the answer
  (\<open>None\<close> when the coordinator was not reached), are an argument: the loop ends when they do, which is when
  \<open>stop\<close> is set. What the loop does is the list of its notices on stderr and the documents it sent.
\<close>

definition DEFAULT_INTERVAL :: rat where "DEFAULT_INTERVAL = 30"

section \<open>One heartbeat\<close>

definition beat_fields :: "string \<Rightarrow> pynum \<Rightarrow> bool \<Rightarrow> string \<Rightarrow> (string \<times> json) list" where
  "beat_fields pid gb up detail =
     [(''peer_id'', JStr pid), (''resident_gb'', JNum gb), (''healthy'', JBool up)]
     @ (if detail \<noteq> [] then [(''detail'', JStr detail)] else [])"

definition beat_doc :: "crypto \<Rightarrow> bytes \<Rightarrow> string \<Rightarrow> string \<Rightarrow> pynum \<Rightarrow> bool \<Rightarrow> string \<Rightarrow> string \<Rightarrow> pynum \<Rightarrow> value_error + json" where
  "beat_doc K seed mid pid gb up detail nonce now = sign_request K mid (beat_fields pid gb up detail) seed nonce now"

definition beat_ok :: "int option \<Rightarrow> bool" where
  "beat_ok status = (case status of None \<Rightarrow> False | Some code \<Rightarrow> code < 300)"

text \<open>The document sent and the value returned.\<close>

definition send_heartbeat :: "crypto \<Rightarrow> bytes \<Rightarrow> string \<Rightarrow> string \<Rightarrow> pynum \<Rightarrow> bool \<Rightarrow> string \<Rightarrow> string \<Rightarrow> pynum
    \<Rightarrow> int option \<Rightarrow> value_error + json \<times> bool" where
  "send_heartbeat K seed mid pid gb up detail nonce now status =
     rbind (beat_doc K seed mid pid gb up detail nonce now) (\<lambda>doc. Inr (doc, beat_ok status))"

section \<open>The loop\<close>

text \<open>What the readiness callable did, when there is one.\<close>

datatype readiness_verdict =
    NoReadiness
  | Reported readiness
  | PlainBool bool
  | CheckRaised string

definition judged :: "readiness_verdict \<Rightarrow> bool \<times> string" where
  "judged v =
     (case v of
        NoReadiness \<Rightarrow> (True, [])
      | Reported r \<Rightarrow> (rd_ok r, rd_reason r)
      | PlainBool b \<Rightarrow> (b, [])
      | CheckRaised exc \<Rightarrow> (False, ''readiness check raised: '' @ exc))"

record beat_round =
  br_verdict :: readiness_verdict
  br_nonce :: string
  br_now :: pynum
  br_status :: "int option"

datatype beat_event = Notice bool string | Sent json

definition notice :: "bool option \<Rightarrow> bool \<times> string \<Rightarrow> beat_event list" where
  "notice previous v =
     (if previous \<noteq> None \<and> previous \<noteq> Some (fst v) then [Notice (fst v) (snd v)] else [])"

fun heartbeat_loop :: "crypto \<Rightarrow> bytes \<Rightarrow> string \<Rightarrow> string \<Rightarrow> pynum \<Rightarrow> bool option \<Rightarrow> beat_round list
    \<Rightarrow> beat_event list \<times> value_error option" where
  "heartbeat_loop K seed mid pid gb previous [] = ([], None)"
| "heartbeat_loop K seed mid pid gb previous (rd # rest) =
     (let v = judged (br_verdict rd) in
      case send_heartbeat K seed mid pid gb (fst v) (snd v) (br_nonce rd) (br_now rd) (br_status rd) of
        Inl e \<Rightarrow> (notice previous v, Some e)
      | Inr (doc, ok) \<Rightarrow>
          (let (evs, err) = heartbeat_loop K seed mid pid gb (Some (fst v)) rest
           in (notice previous v @ [Sent doc] @ evs, err)))"

section \<open>Lemmas\<close>

definition notices :: "beat_event list \<Rightarrow> (bool \<times> string) list" where
  "notices evs = concat (map (\<lambda>e. case e of Notice b d \<Rightarrow> [(b, d)] | Sent doc \<Rightarrow> []) evs)"

definition sent :: "beat_event list \<Rightarrow> json list" where
  "sent evs = concat (map (\<lambda>e. case e of Notice b d \<Rightarrow> [] | Sent doc \<Rightarrow> [doc]) evs)"

lemma event_simps [simp]:
  "notices [] = []" "notices (Sent doc # evs) = notices evs" "notices (xs @ ys) = notices xs @ notices ys"
  "sent [] = []" "sent (Sent doc # evs) = doc # sent evs" "sent (xs @ ys) = sent xs @ sent ys"
  "sent (notice p v) = []"
  "notices (notice p v) = (if p \<noteq> None \<and> p \<noteq> Some (fst v) then [v] else [])"
  by (simp_all add: notices_def sent_def notice_def)

text \<open>The verdicts that differ from the one before, with the first one compared to \<open>p\<close>.\<close>

fun transitions :: "bool option \<Rightarrow> (bool \<times> string) list \<Rightarrow> (bool \<times> string) list" where
  "transitions p [] = []"
| "transitions p (v # vs) = (if p \<noteq> None \<and> p \<noteq> Some (fst v) then [v] else []) @ transitions (Some (fst v)) vs"

lemma heartbeat_loop_run:
  "heartbeat_loop K seed mid pid gb p rds = (evs, None) \<Longrightarrow>
     notices evs = transitions p (map (judged \<circ> br_verdict) rds)
     \<and> list_all2 (\<lambda>rd doc. beat_doc K seed mid pid gb (fst (judged (br_verdict rd))) (snd (judged (br_verdict rd)))
         (br_nonce rd) (br_now rd) = Inr doc) rds (sent evs)"
proof (induction rds arbitrary: p evs)
  case (Cons rd rest)
  from Cons.prems obtain doc more where "heartbeat_loop K seed mid pid gb (Some (fst (judged (br_verdict rd)))) rest = (more, None)"
      "evs = notice p (judged (br_verdict rd)) @ [Sent doc] @ more"
      "beat_doc K seed mid pid gb (fst (judged (br_verdict rd))) (snd (judged (br_verdict rd))) (br_nonce rd) (br_now rd) = Inr doc"
    by (auto simp: Let_def send_heartbeat_def rbind_Inr_iff split: sum.splits prod.splits)
  with Cons.IH [OF this(1)] show ?case by simp
qed simp

lemma transitions_change:
  "successively (\<lambda>v w. fst v \<noteq> fst w) (transitions p vs)
     \<and> (\<forall>b. p = Some b \<and> transitions p vs \<noteq> [] \<longrightarrow> fst (hd (transitions p vs)) \<noteq> b)"
proof (induction vs arbitrary: p)
  case (Cons v vs)
  from Cons.IH [of "Some (fst v)"] show ?case by (cases "transitions (Some (fst v)) vs") auto
qed simp

section \<open>What the coordinator makes of a heartbeat\<close>

lemma obj_get_beat [simp]:
  "obj_get (beat_fields pid gb up detail) ''peer_id'' = JStr pid"
  "obj_get_or (beat_fields pid gb up detail) ''resident_gb'' d = JNum gb"
  "obj_get_or (beat_fields pid gb up detail) ''healthy'' d = JBool up"
  "obj_get_or (beat_fields pid gb up detail) ''detail'' (JStr []) = JStr detail"
  by (auto simp: beat_fields_def obj_get_def obj_get_or_def)

lemma owner_beat_body:
  assumes "map_of (peers (roster_of c)) pid = Some p" "p_id p = pid" "p_owner p = mid" "num_gb p gb = Inr (Some g)"
  obtains r st where "heartbeat_body t t' mid (beat_fields pid gb up detail) c = (BeatReply pid ''owner'', put_reg r c)"
    "map_of (states r) pid = Some st" "healthy st = up" "last_seen st = t" "heartbeat_timeout r = heartbeat_timeout (reg (sched c))"
    "reg_roster r = roster_of c"
proof -
  obtain r st where beat: "heartbeat t t' pid g up (JStr detail) (reg (sched c)) = Inr r" "map_of (states r) pid = Some st"
      "healthy st = up" "last_seen st = t" "heartbeat_timeout r = heartbeat_timeout (reg (sched c))"
    using heartbeat_state [OF assms(1,2)] by metis
  with heartbeat_frame [OF beat(1)] assms that [of r st] show ?thesis by (simp add: heartbeat_body_def to_gb_def)
qed

section \<open>Properties\<close>

text \<open>
  C37: the loop says a change of readiness once: its notices are exactly the verdicts that differ from the
  round before, so they alternate, and it sends one document per round, signed over that round's verdict.
\<close>
theorem heartbeat_announces_transitions:
  assumes "heartbeat_loop K seed mid pid gb None rds = (evs, None)"
  shows "notices evs = transitions None (map (judged \<circ> br_verdict) rds)
    \<and> successively (\<lambda>v w. fst v \<noteq> fst w) (notices evs)
    \<and> list_all2 (\<lambda>rd doc. beat_doc K seed mid pid gb (fst (judged (br_verdict rd))) (snd (judged (br_verdict rd)))
         (br_nonce rd) (br_now rd) = Inr doc) rds (sent evs)"
  using heartbeat_loop_run [OF assms] transitions_change [of None "map (judged \<circ> br_verdict) rds"] by simp

text \<open>
  What readiness reports decides routing: a heartbeat its owner's peer signs reaches the coordinator's
  handler, is accepted while fresh, and afterwards the peer is offered for its model, for as long as the
  heartbeat timeout, exactly when the verdict was that it can serve.
\<close>
theorem readiness_gates_routing:
  assumes "crypto_laws K" "\<And>bs. ed_sign K seed bs \<noteq> []"
    and "map_of (members (roster_of c)) mid = Some m" "m_sign_pub m = b64 (ed_pub K seed)" "mid \<noteq> []" "nonce \<noteq> []"
    and "map_of (peers (roster_of c)) pid = Some p" "p_id p = pid" "p_owner p = mid" "num_gb p gb = Inr (Some g)"
    and "send_heartbeat K seed mid pid gb up detail nonce now status = Inr (doc, ok)"
    and "check_fresh now w DEFAULT_MAX_AGE = Inr ()" "check_and_add w nonce (nonces c) = (Inr u, n)"
    and "later - t \<le> heartbeat_timeout (reg (sched c))"
  shows "\<exists>c'. heartbeat_handler K w t t' (Some doc) c = (BeatReply pid ''owner'', c')
    \<and> (p \<in> set (live_peers later (p_model p) (reg (sched c'))) \<longleftrightarrow> up)"
proof -
  have "sign_request K mid (beat_fields pid gb up detail) seed nonce now = Inr doc"
    using assms(11) by (simp add: send_heartbeat_def beat_doc_def rbind_Inr_iff)
  then have v: "verify_signed_request K w (roster_of c) doc (nonces c) = (Inr (mid, beat_fields pid gb up detail), n)"
    using assms by (intro signed_request_accepted) auto
  let ?c = "c\<lparr>nonces := n\<rparr>"
  have "map_of (peers (roster_of ?c)) pid = Some p" using assms(7) by simp
  then obtain r st where body: "heartbeat_body t t' mid (beat_fields pid gb up detail) ?c = (BeatReply pid ''owner'', put_reg r ?c)"
      and st: "map_of (states r) pid = Some st" "healthy st = up" "last_seen st = t" "heartbeat_timeout r = heartbeat_timeout (reg (sched ?c))"
      and ro: "reg_roster r = roster_of ?c"
    using assms(8-10) by (rule owner_beat_body)
  have "p \<in> snd ` set (peers (reg_roster r))" using map_of_SomeD [OF assms(7)] by (force simp: ro)
  then have "p \<in> set (live_peers later (p_model p) r) \<longleftrightarrow> is_live later pid r"
    using assms(8) by (auto simp: live_peers_def peers_for_model_def)
  also have "is_live later pid r \<longleftrightarrow> up" using st assms(14) by (simp add: is_live_def)
  finally have "p \<in> set (live_peers later (p_model p) r) \<longleftrightarrow> up" .
  with v body show ?thesis by (simp add: heartbeat_handler_def signed_def)
qed

text \<open>
  a residency that is not a finite number, which \<open>--resident-gb\<close> accepts, ends the loop with an exception
  in its first round, before anything is sent: the peer then runs without ever being routed to.
\<close>
theorem nonfinite_residency_ends_loop:
  "heartbeat_loop K seed mid pid NaN None (rd # rds) = ([], Some NonFiniteJson)
   \<and> heartbeat_loop K seed mid pid (Inf b) None (rd # rds) = ([], Some NonFiniteJson)"
  by (simp add: Let_def send_heartbeat_def beat_doc_def beat_fields_def sign_request_def signed_payload_def canonical_def notice_def)

section \<open>Witnesses\<close>

definition demo_round :: "readiness_verdict \<Rightarrow> beat_round" where
  "demo_round v = \<lparr>br_verdict = v, br_nonce = ''n1'', br_now = IntN 1000, br_status = Some 200\<rparr>"

lemma demo_beat_doc:
  "\<exists>doc. send_heartbeat demo_crypto demo_key ''a'' ''g'' (IntN 8) up detail nonce (IntN 1000) (Some 200) = Inr (doc, True)"
  by (simp add: send_heartbeat_def beat_doc_def sign_request_def signed_payload_def canonical_def beat_fields_def beat_ok_def)

theorem heartbeat_announces_transitions_witness:
  "\<exists>evs. heartbeat_loop demo_crypto demo_key ''a'' ''g'' (IntN 8) None
        (map demo_round [PlainBool True, CheckRaised ''x'', PlainBool False, NoReadiness]) = (evs, None)
     \<and> map fst (notices evs) = [False, True]"
proof -
  let ?rds = "map demo_round [PlainBool True, CheckRaised ''x'', PlainBool False, NoReadiness]"
  obtain d1 d2 d3 where
    "send_heartbeat demo_crypto demo_key ''a'' ''g'' (IntN 8) True [] ''n1'' (IntN 1000) (Some 200) = Inr (d1, True)"
    "send_heartbeat demo_crypto demo_key ''a'' ''g'' (IntN 8) False ''readiness check raised: x'' ''n1'' (IntN 1000) (Some 200) = Inr (d2, True)"
    "send_heartbeat demo_crypto demo_key ''a'' ''g'' (IntN 8) False [] ''n1'' (IntN 1000) (Some 200) = Inr (d3, True)"
    using demo_beat_doc by metis
  then obtain evs where run: "heartbeat_loop demo_crypto demo_key ''a'' ''g'' (IntN 8) None ?rds = (evs, None)"
    by (simp add: demo_round_def judged_def Let_def)
  from heartbeat_announces_transitions [OF run] run show ?thesis by (auto simp: demo_round_def judged_def)
qed

theorem readiness_gates_routing_witness:
  "\<exists>doc c'. send_heartbeat demo_crypto demo_key ''a'' ''g'' (IntN 8) False ''probe failed'' ''n1'' (IntN 1000) (Some 200) = Inr (doc, True)
     \<and> heartbeat_handler demo_crypto 1010 5 5 (Some doc) demo_idle = (BeatReply ''g'' ''owner'', c')
     \<and> demo_peer \<notin> set (live_peers 6 ''m'' (reg (sched c')))"
proof -
  obtain doc where doc: "send_heartbeat demo_crypto demo_key ''a'' ''g'' (IntN 8) False ''probe failed'' ''n1'' (IntN 1000) (Some 200) = Inr (doc, True)"
    using demo_beat_doc by metis
  have m: "map_of (members (roster_of demo_idle)) ''a'' = Some ((demo_member ''a'')\<lparr>m_sign_pub := demo_pub\<rparr>)"
      "m_sign_pub ((demo_member ''a'')\<lparr>m_sign_pub := demo_pub\<rparr>) = b64 (ed_pub demo_crypto demo_key)"
    by (simp add: demo_idle_def new_scheduler_def new_registry_def demo_owner_roster_def) (code_simp)
  have p: "map_of (peers (roster_of demo_idle)) ''g'' = Some demo_peer" "p_id demo_peer = ''g''" "p_owner demo_peer = ''a''"
    by (simp_all add: demo_idle_def new_scheduler_def new_registry_def demo_owner_roster_def demo_roster_def demo_peer_def)
  have gb: "num_gb demo_peer (IntN 8) = Inr (Some 8)" by code_simp
  have fresh: "check_fresh (IntN 1000) 1010 DEFAULT_MAX_AGE = Inr ()" by code_simp
  have new: "check_and_add 1010 ''n1'' (nonces demo_idle) = (Inr (), demo_cache\<lparr>seen := [(''n1'', 1250)]\<rparr>)"
    by (simp add: check_and_add_def demo_idle_def demo_cache_def prune_def)
  have "heartbeat_timeout (reg (sched demo_idle)) = 90" by code_simp
  moreover have "ed_sign demo_crypto demo_key bs \<noteq> []" for bs by (simp add: demo_crypto_def demo_key_def)
  ultimately have "\<exists>c'. heartbeat_handler demo_crypto 1010 5 5 (Some doc) demo_idle = (BeatReply ''g'' ''owner'', c')
      \<and> demo_peer \<notin> set (live_peers 6 (p_model demo_peer) (reg (sched c')))"
    using readiness_gates_routing [OF demo_crypto_laws _ m _ _ p gb doc fresh new, where t = 5 and later = 6 and t' = 5]
    by auto
  with doc show ?thesis by (auto simp: demo_peer_def)
qed

end
