(* ===== verification/Commands.thy ===== *)
theory Commands
  imports Client Heartbeat
begin

text \<open>
  \<open>client/cli.py\<close>: the subcommands of \<open>commonweal\<close>. A command works on the member's identity store and the
  documents it reads, and ends with an exit status, or with an exception that no handler of the command
  catches. The wording of messages and the ends of lines are not modelled; the command line is parsed in
  \<open>CommandLine\<close>.
\<close>

text \<open>What opening a database raises: the folder for it cannot be made, or the file is not one SQLite can open.\<close>

datatype database_error = FolderRefused | DatabaseRefused

datatype escape =
    FromIdentity identity_error
  | FromRoster roster_error
  | FromRead read_error
  | FromClient client_error
  | FromEngine spec_error
  | FromValue value_error
  | FromDatabase database_error
  | BadPrivateKey

datatype 'a command =
    Exit int
  | Raised escape
  | Go 'a

fun cbind :: "'a command \<Rightarrow> ('a \<Rightarrow> 'b command) \<Rightarrow> 'b command" where
  "cbind (Exit n) f = Exit n"
| "cbind (Raised e) f = Raised e"
| "cbind (Go x) f = f x"

lemma cbind_Go [simp]: "cbind m f = Go y \<longleftrightarrow> (\<exists>x. m = Go x \<and> f x = Go y)"
  by (cases m) auto

lemma if_Exit_Go [simp]: "(if b then Exit n else m) = Go y \<longleftrightarrow> \<not> b \<and> m = Go y"
  by simp

text \<open>\<open>raising\<close> lets an error leave the command; \<open>catching\<close> turns the ones the handler names into exit status 1.\<close>

definition raising :: "('e \<Rightarrow> escape) \<Rightarrow> 'e + 'a \<Rightarrow> 'a command" where
  "raising f m = (case m of Inl e \<Rightarrow> Raised (f e) | Inr x \<Rightarrow> Go x)"

definition catching :: "('e \<Rightarrow> bool) \<Rightarrow> ('e \<Rightarrow> escape) \<Rightarrow> 'e + 'a \<Rightarrow> 'a command" where
  "catching p f m = (case m of Inl e \<Rightarrow> if p e then Exit 1 else Raised (f e) | Inr x \<Rightarrow> Go x)"

lemma raising_Go [simp]: "raising f m = Go x \<longleftrightarrow> m = Inr x"
  by (simp add: raising_def split: sum.splits)

lemma catching_Go [simp]: "catching p f m = Go x \<longleftrightarrow> m = Inr x"
  by (simp add: catching_def split: sum.splits)

section \<open>Pinned admin keys\<close>

text \<open>\<open>pair.partition("=")\<close>, without the separator.\<close>

definition partition_eq :: "string \<Rightarrow> string \<times> string" where
  "partition_eq s = (takeWhile (\<lambda>c. c \<noteq> CHR ''='') s, drop 1 (dropWhile (\<lambda>c. c \<noteq> CHR ''='') s))"

fun admin_keys :: "(string, string) dict \<Rightarrow> string list \<Rightarrow> string + (string, string) dict" where
  "admin_keys pins [] = Inr pins"
| "admin_keys pins (pair # rest) =
     (let (mid, pub) = partition_eq pair in
      if mid = [] \<or> pub = [] then Inl pair else admin_keys (AList.update mid pub pins) rest)"

definition is_roster_error :: "roster_error \<Rightarrow> bool" where
  "is_roster_error e = (case e of RosterError r \<Rightarrow> True | Crash c \<Rightarrow> False)"

definition load_pinned_roster :: "crypto \<Rightarrow> string list \<Rightarrow> read_error + json \<Rightarrow> roster command" where
  "load_pinned_roster K pairs file =
     cbind (catching (\<lambda>e. True) (\<lambda>e. FromRead BadJson) (admin_keys [] pairs)) (\<lambda>pins.
     if pins = [] then Exit 1
     else cbind (catching (\<lambda>e. e \<noteq> BadUtf8) FromRead file) (\<lambda>doc.
       catching is_roster_error FromRoster (roster_load K doc pins None)))"

text \<open>\<open>Roster.from_file\<close>, which lets every error out.\<close>

definition roster_from_file :: "crypto \<Rightarrow> read_error + json \<Rightarrow> (string, string) dict \<Rightarrow> int option \<Rightarrow> roster command" where
  "roster_from_file K file pins prev =
     cbind (raising FromRead file) (\<lambda>doc. raising FromRoster (roster_load K doc pins prev))"

lemma load_pinned_from_file:
  "load_pinned_roster K pairs file = Go ro \<longleftrightarrow>
     (\<exists>pins. admin_keys [] pairs = Inr pins \<and> pins \<noteq> [] \<and> roster_from_file K file pins None = Go ro)"
  by (auto simp: load_pinned_roster_def roster_from_file_def)

section \<open>Identities\<close>

text \<open>
  The warning about git: \<open>inside\<close> is the exit status and output of \<open>rev-parse\<close>, \<open>ignored\<close> the exit status of
  \<open>check-ignore\<close>, \<open>None\<close> when it could not be run or timed out.
\<close>

definition git_would_commit :: "(int \<times> string) option \<Rightarrow> int option \<Rightarrow> bool" where
  "git_would_commit inside ignored =
     (case inside of
        None \<Rightarrow> False
      | Some (code, out) \<Rightarrow>
          if code \<noteq> 0 \<or> py_strip out \<noteq> ''true'' then False
          else (case ignored of None \<Rightarrow> False | Some n \<Rightarrow> n \<noteq> 0))"

text \<open>The exit status with the public block printed, and the new store.\<close>

definition cmd_keygen :: "crypto \<Rightarrow> bool \<Rightarrow> bool \<Rightarrow> string \<Rightarrow> bytes \<Rightarrow> bytes \<Rightarrow> id_store \<Rightarrow> json command \<times> id_store" where
  "cmd_keygen K force use_keyring mid seed priv s =
     (if id_file s \<noteq> Inl FileNotFound \<and> \<not> force then (Exit 1, s)
      else (let i = generate_identity K seed priv mid; (res, s') = save_identity use_keyring i s
            in (case res of Inl e \<Rightarrow> Exit 1 | Inr u \<Rightarrow> Go (public_entry i), s')))"

text \<open>\<open>except (OSError, KeyError, ValueError, IdentityError)\<close>.\<close>

definition migrate_catches :: "identity_error \<Rightarrow> bool" where
  "migrate_catches e =
     (case e of
        NoKeychain \<Rightarrow> True | KeychainWriteFailed \<Rightarrow> True | KeychainEntryMissing m \<Rightarrow> True
      | Unread e \<Rightarrow> True | FieldMissing k \<Rightarrow> True | OddMemberId \<Rightarrow> False
      | IdCrash c \<Rightarrow> (case c of ValueError v \<Rightarrow> True | _ \<Rightarrow> False))"

definition cmd_keyring_migrate :: "id_store \<Rightarrow> unit command \<times> id_store" where
  "cmd_keyring_migrate s =
     (case catching migrate_catches FromIdentity (stored_in_keyring s) of
        Go True \<Rightarrow> (Exit 0, s)
      | Go False \<Rightarrow>
          (case catching migrate_catches FromIdentity (load_identity s) of
             Go i \<Rightarrow> (let (res, s') = migrate_to_keyring i s in (cbind (catching migrate_catches FromIdentity res) (\<lambda>u. Exit 0), s'))
           | Exit n \<Rightarrow> (Exit n, s)
           | Raised e \<Rightarrow> (Raised e, s))
      | Exit n \<Rightarrow> (Exit n, s)
      | Raised e \<Rightarrow> (Raised e, s))"

definition cmd_whoami :: "id_store \<Rightarrow> json command" where
  "cmd_whoami s = cbind (raising FromIdentity (load_identity s)) (\<lambda>i. Go (public_entry i))"

section \<open>Roster administration\<close>

definition entry_fields :: "identity \<Rightarrow> (string \<times> json) list" where
  "entry_fields i = (case as_obj (public_entry i) of None \<Rightarrow> [] | Some d \<Rightarrow> d)"

text \<open>The draft written.\<close>

definition cmd_roster_init :: "string \<Rightarrow> string \<Rightarrow> id_store \<Rightarrow> json command" where
  "cmd_roster_init fid upd s =
     cbind (raising FromIdentity (load_identity s)) (\<lambda>i.
     Go (JObj [(''v'', JInt 1), (''federation_id'', JStr fid), (''roster_version'', JInt 1), (''updated'', JStr upd),
       (''admins'', JList [JStr (id_member i)]),
       (''members'', JList [JObj (entry_fields i @ [(''role'', JStr ''admin''), (''joined'', JStr upd)])]),
       (''peers'', JList []), (''signatures'', JList [])]))"

text \<open>The signed document written.\<close>

definition cmd_roster_sign :: "crypto \<Rightarrow> id_store \<Rightarrow> read_error + json \<Rightarrow> json command" where
  "cmd_roster_sign K s file =
     cbind (raising FromIdentity (load_identity s)) (\<lambda>i.
     cbind (raising FromRead file) (\<lambda>doc.
     cbind (catching is_roster_error FromRoster (roster_parse doc)) (\<lambda>parsed.
     if id_member i \<notin> set (admins parsed) then Exit 1
     else cbind (raising FromValue (roster_signed_bytes (float_repr K) parsed)) (\<lambda>payload.
       Go (case as_obj (roster_to_dict parsed) of
             None \<Rightarrow> JNull
           | Some d \<Rightarrow> JObj (AList.update ''signatures'' (JList [JStr (sign_bytes K payload (id_sign_seed i))]) d))))))"

text \<open>\<open>main\<close> turns a missing file into exit status 1.\<close>

definition cli_main :: "'a command \<Rightarrow> 'a command" where
  "cli_main m =
     (case m of
        Raised (FromIdentity (Unread FileNotFound)) \<Rightarrow> Exit 1
      | Raised (FromRead FileNotFound) \<Rightarrow> Exit 1
      | _ \<Rightarrow> m)"

section \<open>Contributing memory\<close>

definition overclaims :: "pynum \<Rightarrow> rat \<Rightarrow> bool" where
  "overclaims gb declared =
     (case gb of
        IntN n \<Rightarrow> declared < of_int n
      | Flt r \<Rightarrow> declared < r
      | Inf b \<Rightarrow> b
      | NaN \<Rightarrow> False)"

record contribution_plan =
  cn_identity :: identity
  cn_roster :: roster
  cn_declared :: rat
  cn_warned :: bool
  cn_tls :: tls_config

definition cmd_contribute :: "crypto \<Rightarrow> id_store \<Rightarrow> string list \<Rightarrow> read_error + json \<Rightarrow> (string \<Rightarrow> bool) \<Rightarrow> client_tls_args
    \<Rightarrow> string \<Rightarrow> pynum \<Rightarrow> contribution_plan command" where
  "cmd_contribute K s pairs file exists tls pid gb =
     cbind (raising FromIdentity (load_identity s)) (\<lambda>i.
     cbind (load_pinned_roster K pairs file) (\<lambda>ro.
     cbind (catching (\<lambda>e. True) FromRoster (roster_peer ro pid)) (\<lambda>p.
     cbind (catching (\<lambda>e. True) (\<lambda>e. FromRead OtherOsError) (tls_from_args exists tls)) (\<lambda>cfg.
     case declared_gb p (id_member i) of
       None \<Rightarrow> Exit 1
     | Some declared \<Rightarrow>
         Go \<lparr>cn_identity = i, cn_roster = ro, cn_declared = declared, cn_warned = overclaims gb declared, cn_tls = cfg\<rparr>))))"

text \<open>The beats until the process is interrupted, and the warnings: how many beats, how many failures in a row.\<close>

datatype contribute_event = Attested json | NotAccepted nat nat

fun contribute_loop :: "crypto \<Rightarrow> bytes \<Rightarrow> string \<Rightarrow> string \<Rightarrow> pynum \<Rightarrow> nat \<Rightarrow> nat \<Rightarrow> (string \<times> pynum \<times> int option) list
    \<Rightarrow> contribute_event list \<times> value_error option" where
  "contribute_loop K seed mid pid gb beats failures [] = ([], None)"
| "contribute_loop K seed mid pid gb beats failures ((nonce, now, status) # rest) =
     (case send_heartbeat K seed mid pid gb True [] nonce now status of
        Inl e \<Rightarrow> ([], Some e)
      | Inr (doc, ok) \<Rightarrow>
          (let failures' = (if ok then 0 else failures + 1);
               (evs, err) = contribute_loop K seed mid pid gb (beats + 1) failures' rest
           in (Attested doc # (if ok then [] else [NotAccepted (beats + 1) failures']) @ evs, err)))"

section \<open>Chat\<close>

text \<open>What was printed, whether the cut-off warning was, and how the command ended.\<close>

record chat_result =
  ch_stdout :: string
  ch_warned :: bool
  ch_end :: "unit command"

definition is_client_error :: "client_error \<Rightarrow> bool" where
  "is_client_error e = (case e of ClientError r \<Rightarrow> True | TruncatedStream \<Rightarrow> True | _ \<Rightarrow> False)"

definition chat_failed :: "client_error \<Rightarrow> unit command" where
  "chat_failed e = (if is_client_error e then Exit 1 else Raised (FromClient e))"

definition chat_quiet :: "(bytes \<Rightarrow> string) \<Rightarrow> client_event list \<times> client_error option \<Rightarrow> chat_result" where
  "chat_quiet decode run =
     (case complete decode run of
        Inl e \<Rightarrow> \<lparr>ch_stdout = [], ch_warned = False, ch_end = chat_failed e\<rparr>
      | Inr c \<Rightarrow> \<lparr>ch_stdout = cp_text c @ [CHR 0x0A], ch_warned = truncated c, ch_end = Exit 0\<rparr>)"

text \<open>Streaming: text is printed as it arrives, so what came before an error stays printed.\<close>

definition last_finish_reason :: "client_event list \<Rightarrow> string" where
  "last_finish_reason evs = fold (\<lambda>e f. case e of ReceiptEvent r \<Rightarrow> finish_reason r | _ \<Rightarrow> f) evs []"

definition chat_stream :: "(bytes \<Rightarrow> string) \<Rightarrow> client_event list \<times> client_error option \<Rightarrow> chat_result" where
  "chat_stream decode run =
     (let out = concat (map decode (event_texts (fst run))) in
      case snd run of
        Some e \<Rightarrow> \<lparr>ch_stdout = out, ch_warned = False, ch_end = chat_failed e\<rparr>
      | None \<Rightarrow> \<lparr>ch_stdout = out @ [CHR 0x0A], ch_warned = (last_finish_reason (fst run) = ''length''), ch_end = Exit 0\<rparr>)"

definition chat_request :: "string \<Rightarrow> string \<Rightarrow> int \<Rightarrow> pynum \<Rightarrow> request_params" where
  "chat_request model prompt mt temp =
     \<lparr>rq_model = model, rq_messages = [JObj [(''role'', JStr ''user''), (''content'', JStr prompt)]], rq_max_tokens = mt,
      rq_temperature = temp, rq_top_p = Flt 1\<rparr>"

text \<open>\<open>arg\<close> is the prompt on the command line, \<open>stdin\<close> what is read when it is missing or empty.\<close>

definition chat_prompt :: "string option \<Rightarrow> string \<Rightarrow> string" where
  "chat_prompt arg stdin = (case arg of None \<Rightarrow> stdin | Some s \<Rightarrow> if s = [] then stdin else s)"

definition chat_start :: "crypto \<Rightarrow> id_store \<Rightarrow> string list \<Rightarrow> read_error + json \<Rightarrow> (string \<Rightarrow> bool) \<Rightarrow> client_tls_args
    \<Rightarrow> (identity \<times> roster \<times> tls_config) command" where
  "chat_start K s pairs file exists tls =
     cbind (raising FromIdentity (load_identity s)) (\<lambda>i.
     cbind (load_pinned_roster K pairs file) (\<lambda>ro.
     cbind (catching (\<lambda>e. True) (\<lambda>e. FromRead OtherOsError) (tls_from_args exists tls)) (\<lambda>cfg. Go (i, ro, cfg))))"

definition cmd_chat :: "crypto \<Rightarrow> (bytes \<Rightarrow> string) \<Rightarrow> id_store \<Rightarrow> string list \<Rightarrow> read_error + json
    \<Rightarrow> (string \<Rightarrow> bool) \<Rightarrow> client_tls_args \<Rightarrow> bool \<Rightarrow> request_params \<Rightarrow> client_entropy
    \<Rightarrow> int \<times> json option \<Rightarrow> (json \<Rightarrow> peer_answer) \<Rightarrow> chat_result" where
  "cmd_chat K decode s pairs file exists tls quiet q ce lease_ans answer =
     (case chat_start K s pairs file exists tls of
        Exit n \<Rightarrow> \<lparr>ch_stdout = [], ch_warned = False, ch_end = Exit n\<rparr>
      | Raised e \<Rightarrow> \<lparr>ch_stdout = [], ch_warned = False, ch_end = Raised e\<rparr>
      | Go (i, ro, cfg) \<Rightarrow>
          (let run = client_events K i ro q ce lease_ans answer
           in if quiet then chat_quiet decode run else chat_stream decode run))"

section \<open>Lemmas\<close>

lemma load_pinned_roster_Go:
  "load_pinned_roster K pairs file = Go ro \<longleftrightarrow>
     (\<exists>pins doc. admin_keys [] pairs = Inr pins \<and> pins \<noteq> [] \<and> file = Inr doc \<and> roster_load K doc pins None = Inr ro)"
  by (auto simp: load_pinned_roster_def split: if_splits)

lemma update_last: "k \<notin> set (keys d) \<Longrightarrow> AList.update k v (d @ [(k, w)]) = d @ [(k, v)]"
  by (induction d) auto

lemma signed_document:
  "as_obj (roster_to_dict r) = Some (roster_body r @ [(''signatures'', JList (signatures r))])"
  "AList.update ''signatures'' (JList ss) (roster_body r @ [(''signatures'', JList (signatures r))]) =
     roster_body r @ [(''signatures'', JList ss)]"
  by (simp add: roster_to_dict_def) (rule update_last, simp add: roster_body_def)

lemma cmd_roster_sign_Go:
  "cmd_roster_sign K s file = Go out \<longleftrightarrow>
     (\<exists>i doc r payload. load_identity s = Inr i \<and> file = Inr doc \<and> roster_parse doc = Inr r \<and> id_member i \<in> set (admins r)
        \<and> roster_signed_bytes (float_repr K) r = Inr payload
        \<and> out = roster_to_dict (r\<lparr>signatures := [JStr (sign_bytes K payload (id_sign_seed i))]\<rparr>))"
proof -
  have "roster_to_dict (r\<lparr>signatures := [JStr x]\<rparr>) = JObj (roster_body r @ [(''signatures'', JList [JStr x])])" for r x
    by (simp add: roster_to_dict_def)
  then show ?thesis by (simp add: cmd_roster_sign_def signed_document split del: if_split) blast
qed

lemma fold_collect_text: "cp_text (fold (collect decode) evs c) = cp_text c @ concat (map decode (event_texts evs))"
proof (induction evs arbitrary: c)
  case (Cons e evs)
  then show ?case by (cases e) auto
qed simp

lemma fold_collect_finish:
  "cp_finish (fold (collect decode) evs c) = fold (\<lambda>e f. case e of ReceiptEvent r \<Rightarrow> finish_reason r | _ \<Rightarrow> f) evs (cp_finish c)"
proof (induction evs arbitrary: c)
  case (Cons e evs)
  then show ?case by (cases e) auto
qed simp

text \<open>When nothing failed, both forms print the same and warn alike.\<close>

lemma chat_modes_agree:
  "snd run = None \<Longrightarrow> chat_quiet decode run = chat_stream decode run"
  by (simp add: chat_quiet_def chat_stream_def complete_def truncated_def last_finish_reason_def fold_collect_text
      fold_collect_finish blank_completion_def)

lemma chat_zero:
  "ch_end (if quiet then chat_quiet decode run else chat_stream decode run) = Exit 0 \<longleftrightarrow> snd run = None"
  by (auto simp: chat_quiet_def chat_stream_def complete_def chat_failed_def Let_def split: option.splits if_splits)

lemma partition_pair: "CHR ''='' \<notin> set mid \<Longrightarrow> partition_eq (mid @ ''='' @ pub) = (mid, pub)"
  unfolding partition_eq_def by (induction mid) auto

text \<open>The roster a draft of \<open>roster init\<close> parses to.\<close>

definition draft_roster :: "string \<Rightarrow> string \<Rightarrow> identity \<Rightarrow> roster" where
  "draft_roster fid upd i =
     \<lparr>federation_id = fid, roster_version = 1, updated = JStr upd, admins = [id_member i],
      members = [(id_member i, \<lparr>m_id = id_member i, m_sign_pub = b64 (id_sign_pub i), m_enc_pub = b64 (id_enc_pub i),
        m_role = JStr ''admin'', m_joined = JStr upd\<rparr>)],
      peers = [], signatures = [], roster_v = 1\<rparr>"

lemma draft_parses:
  assumes "cmd_roster_init fid upd s = Go draft" "load_identity s = Inr i"
  shows "roster_parse draft = Inr (draft_roster fid upd i)"
proof -
  have "draft = roster_to_dict (draft_roster fid upd i)"
    using assms by (auto simp: cmd_roster_init_def raising_def entry_fields_def public_entry_def draft_roster_def roster_to_dict_def
        roster_body_def member_json_def member_fields_def)
  moreover have "roster_ok (draft_roster fid upd i)" "roster_norm (draft_roster fid upd i) = draft_roster fid upd i"
    by (simp_all add: roster_ok_def roster_norm_def draft_roster_def)
  ultimately show ?thesis using roster_parse_to_dict by simp
qed

lemma draft_bytes: "\<exists>payload. roster_signed_bytes frepr (draft_roster fid upd i) = Inr payload"
  by (simp add: roster_signed_bytes_def canonical_def roster_body_def draft_roster_def member_json_def member_fields_def sort_key_def)

text \<open>
  The draft that \<open>roster init\<close> writes is one that \<open>roster sign\<close> signs, and the document it then writes is accepted by
  everyone who pins the line it prints, with the founder as its only admin.
\<close>

lemma ceremony:
  assumes "crypto_laws K" "load_identity s = Inr i" "id_sign_pub i = ed_pub K (id_sign_seed i)" "length (id_sign_pub i) = 32"
    and "id_member i \<noteq> []" "CHR ''='' \<notin> set (id_member i)" "cmd_roster_init fid upd s = Go draft"
  shows "\<exists>out ro. cmd_roster_sign K s (Inr draft) = Go out
    \<and> load_pinned_roster K [id_member i @ ''='' @ b64 (id_sign_pub i)] (Inr out) = Go ro
    \<and> federation_id ro = fid \<and> admins ro = [id_member i] \<and> keys (members ro) = [id_member i]"
proof -
  let ?r = "draft_roster fid upd i"
  have parse: "roster_parse draft = Inr ?r" by (rule draft_parses [OF assms(7,2)])
  obtain payload where payload: "roster_signed_bytes (float_repr K) ?r = Inr payload" using draft_bytes by blast
  let ?sg = "sign_bytes K payload (id_sign_seed i)"
  let ?out = "roster_to_dict (?r\<lparr>signatures := map JStr [?sg]\<rparr>)"
  have signed: "cmd_roster_sign K s (Inr draft) = Go ?out"
    using assms(2) parse payload by (auto simp: cmd_roster_sign_Go draft_roster_def)
  have "roster_load K ?out [(id_member i, b64 (ed_pub K (id_sign_seed i)))] None = Inr (roster_norm (?r\<lparr>signatures := map JStr [?sg]\<rparr>))"
    using assms(1,3,4) roster_parse_ok [OF parse] payload by (intro roster_sign_load) (auto simp: draft_roster_def)
  moreover have "b64 (id_sign_pub i) \<noteq> []" using assms(4) by auto
  then have "admin_keys [] [id_member i @ ''='' @ b64 (id_sign_pub i)] = Inr [(id_member i, b64 (id_sign_pub i))]"
    using assms(5) by (simp add: partition_pair [OF assms(6)] del: append.simps)
  ultimately have "load_pinned_roster K [id_member i @ ''='' @ b64 (id_sign_pub i)] (Inr ?out)
      = Go (roster_norm (?r\<lparr>signatures := map JStr [?sg]\<rparr>))"
    by (simp add: load_pinned_roster_Go assms(3))
  with signed show ?thesis by (auto simp: roster_norm_def draft_roster_def)
qed

section \<open>Properties\<close>

text \<open>
  C21: the exit status of \<open>chat\<close> can be trusted: over any response in which the ciphertexts that open are the
  peer's own, status 0 means that the whole answer was printed, in both modes; otherwise the buffered mode
  printed nothing and the streaming mode a prefix of the answer.
\<close>
theorem chat_exit_zero_is_whole:
  assumes "authentic_lines K master parts rows" "[] \<notin> set parts"
    and "client_receive K master (PeerStream rows broken) = (evs, err)"
    and "res = (if quiet then chat_quiet decode (PeerEvent pid # evs, err) else chat_stream decode (PeerEvent pid # evs, err))"
  shows "(ch_end res = Exit 0 \<longrightarrow> ch_stdout res = concat (map decode parts) @ [CHR 0x0A])
    \<and> (ch_end res \<noteq> Exit 0 \<longrightarrow> (if quiet then ch_stdout res = []
         else (\<exists>n. ch_stdout res = concat (map decode (take n parts)))))"
proof -
  have run: "(\<exists>n. event_texts evs = take n parts) \<and> (err = None \<longrightarrow> event_texts evs = parts)"
    by (rule client_receive_prefix [OF assms(1-3)])
  have zero: "ch_end res = Exit 0 \<longleftrightarrow> err = None" using chat_zero [of quiet decode "(PeerEvent pid # evs, err)"] assms(4) by simp
  have "res = chat_stream decode (PeerEvent pid # evs, err)" if "err = None"
    using that assms(4) chat_modes_agree [of "(PeerEvent pid # evs, err)" decode] by auto
  with run zero have "ch_end res = Exit 0 \<longrightarrow> ch_stdout res = concat (map decode parts) @ [CHR 0x0A]"
    by (auto simp: chat_stream_def)
  moreover have "if quiet then ch_stdout res = [] else (\<exists>n. ch_stdout res = concat (map decode (take n parts)))" if "err \<noteq> None"
  proof -
    from run obtain n where n: "event_texts evs = take n parts" by blast
    from that assms(4) show ?thesis by (auto simp: chat_quiet_def chat_stream_def complete_def Let_def n)
  qed
  ultimately show ?thesis using zero by blast
qed

text \<open>
  \<open>keygen\<close> is all or nothing: it replaces an existing identity only when forced to, a failure changes
  neither the file nor the keychain, and after success the new identity is the one that loads.
\<close>
theorem keygen_all_or_nothing:
  assumes "cmd_keygen K force use_keyring mid seed priv s = (res, s')"
  shows "(\<forall>entry. res = Go entry \<longrightarrow> load_identity s' = Inr (generate_identity K seed priv mid)
        \<and> entry = public_entry (generate_identity K seed priv mid) \<and> (id_file s = Inl FileNotFound \<or> force))
    \<and> ((\<forall>entry. res \<noteq> Go entry) \<longrightarrow> s' = s)"
  using assms
  by (auto simp: cmd_keygen_def save_identity_def Let_def split: if_splits sum.splits prod.splits intro!: load_saved)

text \<open>
  C40: \<open>contribute\<close> attests only for a share the verified roster declares for this very member, and a coordinator on
  that roster keeps to the figure the command compared the claim to: what it notes of any statement stays within it,
  and whatever the registry is told from any state on, no row it credits this member for this peer holds more
  than that share, up to the roster parser's tolerance, for more than five minutes (where the peer's capacity is
  positive).
\<close>
theorem contribute_within_declaration:
  assumes "cmd_contribute K s pairs file exists tls pid gb = Go plan"
  shows "(\<exists>pins doc p. admin_keys [] pairs = Inr pins \<and> file = Inr doc \<and> roster_load K doc pins None = Inr (cn_roster plan)
      \<and> map_of (peers (cn_roster plan)) pid = Some p \<and> declared_gb p (id_member (cn_identity plan)) = Some (cn_declared plan)
      \<and> (\<forall>r ops row. registry_ok r \<longrightarrow> reg_roster r = cn_roster plan \<longrightarrow> 0 < p_capacity_gb p \<longrightarrow>
           row \<in> set (drop (length (contributions (reg_ledger r))) (contributions (reg_ledger (fold registry_step ops r)))) \<longrightarrow>
           cr_peer row = pid \<longrightarrow> cr_owner row = id_member (cn_identity plan) \<longrightarrow>
           cr_gb row \<le> cn_declared plan + 1 / 100 \<and> 0 < cr_seconds row \<and> cr_seconds row \<le> 300))
    \<and> (\<forall>now g r r' att. reg_roster r = cn_roster plan \<longrightarrow> attest now pid (id_member (cn_identity plan)) g r = Inr r' \<longrightarrow>
         map_of (attests r') (pid, id_member (cn_identity plan)) = Some att \<longrightarrow> a_resident_gb att \<le> cn_declared plan)"
proof -
  from assms obtain pins doc p where p: "admin_keys [] pairs = Inr pins" "file = Inr doc" "roster_load K doc pins None = Inr (cn_roster plan)"
      "map_of (peers (cn_roster plan)) pid = Some p" "declared_gb p (id_member (cn_identity plan)) = Some (cn_declared plan)"
    by (auto simp: cmd_contribute_def load_pinned_roster_Go split: option.splits)
  have "a_resident_gb att \<le> cn_declared plan"
    if "reg_roster r = cn_roster plan" "attest now pid (id_member (cn_identity plan)) g r = Inr r'"
      "map_of (attests r') (pid, id_member (cn_identity plan)) = Some att" for now g r r' att
    using that(2)
  proof (cases rule: attest_Inr)
    case (1 p' d)
    with that p show ?thesis by (auto simp: alist.lookup_store)
  qed
  moreover have "cr_gb row \<le> cn_declared plan + 1 / 100 \<and> 0 < cr_seconds row \<and> cr_seconds row \<le> 300"
    if r: "registry_ok r" "reg_roster r = cn_roster plan" "0 < p_capacity_gb p"
      and row: "row \<in> set (drop (length (contributions (reg_ledger r))) (contributions (reg_ledger (fold registry_step ops r))))"
      "cr_peer row = pid" "cr_owner row = id_member (cn_identity plan)" for r ops row
  proof -
    from adds_rows_run [OF r(1), of ops] row(1) have "row_ok (cn_roster plan) row"
      by (auto simp: adds_rows_def list_all_iff r(2))
    with p(4,5) r(3) row(2,3) show ?thesis by (simp add: row_ok_def)
  qed
  ultimately show ?thesis using p by blast
qed

section \<open>Witnesses\<close>

definition demo_saved :: id_store where
  "demo_saved = snd (save_identity False demo_identity demo_store)"

lemma demo_saved: "load_identity demo_saved = Inr demo_identity"
  by (rule load_saved [of False _ demo_store]) (simp add: save_identity_def demo_saved_def)

lemma demo_identity_fields:
  "id_member demo_identity = ''b''" "id_sign_seed demo_identity = demo_key" "id_sign_pub demo_identity = demo_key"
  "ed_pub demo_crypto demo_key = demo_key" "length demo_key = 32"
  by (simp_all add: demo_identity_def generate_identity_def new_signing_keypair_def new_encryption_keypair_def
      demo_crypto_def demo_key_def)

text \<open>A response of one word and the final marker.\<close>

lemma demo_answer:
  obtains rows where "authentic_lines demo_crypto (replicate 32 0) [utf8 ''hi''] rows"
    "client_receive demo_crypto (replicate 32 0) (PeerStream rows None) = ([TextEvent (utf8 ''hi'')], None)"
proof -
  obtain ct0 ct1 where ct: "seal_chunk demo_crypto (utf8 ''hi'') (replicate 32 0) 0 = Inr ct0"
      "seal_chunk demo_crypto [] (replicate 32 0) 1 = Inr ct1"
    using chunk_nonce_total [of 0] chunk_nonce_total [of 1] by (auto simp: seal_chunk_Inr)
  let ?c0 = "demo_chunk\<lparr>c_ciphertext := ct0, c_final := False\<rparr>" and ?c1 = "demo_chunk\<lparr>c_ciphertext := ct1, c_seq := 1\<rparr>"
  let ?rows = "[Json (chunk_to_dict ?c0), Json (chunk_to_dict ?c1)]"
  have parse: "chunk_from_dict (chunk_to_dict ?c0) = Inr ?c0" "chunk_from_dict (chunk_to_dict ?c1) = Inr ?c1"
    using seal_chunk_nonempty [OF demo_crypto_laws ct(1)] seal_chunk_nonempty [OF demo_crypto_laws ct(2)]
    by (intro chunk_codec.dec_enc; simp add: chunk_ok_def demo_chunk_def)+
  have opened: "unseal_chunk demo_crypto ct0 (replicate 32 0) 0 = Inr (utf8 ''hi'')" "unseal_chunk demo_crypto ct1 (replicate 32 0) 1 = Inr []"
    using ct by (blast intro: unseal_seal_chunk [OF demo_crypto_laws])+
  have "authentic_lines demo_crypto (replicate 32 0) [utf8 ''hi''] ?rows"
    unfolding authentic_lines_def
  proof (intro allI impI)
    fix d c plain
    assume "Json (JObj d) \<in> set ?rows" "chunk_from_dict (JObj d) = Inr c"
    then have "c = ?c0 \<or> c = ?c1" using parse by auto
    moreover assume "unseal_chunk demo_crypto (c_ciphertext c) (replicate 32 0) (c_seq c) = Inr plain"
    ultimately show "nat (c_seq c) < length (sealed_texts [utf8 ''hi'']) \<and> plain = sealed_texts [utf8 ''hi''] ! nat (c_seq c)"
      using opened by (auto simp: demo_chunk_def sealed_texts_def)
  qed
  moreover have "utf8 ''hi'' \<noteq> []" by code_simp
  then have "client_receive demo_crypto (replicate 32 0) (PeerStream ?rows None) = ([TextEvent (utf8 ''hi'')], None)"
    using parse opened
    by (simp add: client_receive_def client_line_def decode_frame_def chunk_to_dict_def KIND_CHUNK_def client_chunk_def recv_start_def
        demo_chunk_def Let_def)
  ultimately show ?thesis by (rule that)
qed

theorem chat_exit_zero_is_whole_witness:
  "\<exists>rows evs. client_receive demo_crypto (replicate 32 0) (PeerStream rows None) = (evs, None)
     \<and> ch_stdout (chat_stream (map (char_of \<circ> (unat :: 8 word \<Rightarrow> nat))) (PeerEvent ''g'' # evs, None)) = ''hi'' @ [CHR 0x0A]"
proof -
  let ?dec = "map (char_of \<circ> (unat :: 8 word \<Rightarrow> nat)) :: bytes \<Rightarrow> string"
  obtain rows where rows: "authentic_lines demo_crypto (replicate 32 0) [utf8 ''hi''] rows"
      "client_receive demo_crypto (replicate 32 0) (PeerStream rows None) = ([TextEvent (utf8 ''hi'')], None)" by (rule demo_answer)
  have "[] \<notin> set [utf8 ''hi'']" by code_simp
  moreover have "?dec (utf8 ''hi'') = ''hi''" by code_simp
  moreover have "ch_end (chat_stream ?dec (PeerEvent ''g'' # [TextEvent (utf8 ''hi'')], None)) = Exit 0" by (simp add: chat_stream_def)
  ultimately show ?thesis
    using chat_exit_zero_is_whole [OF rows(1) _ rows(2) refl, where quiet = False and decode = ?dec and pid = "''g''"] rows(2) by auto
qed

theorem keygen_all_or_nothing_witness:
  "load_identity (snd (cmd_keygen demo_crypto False True ''b'' demo_key demo_key demo_store)) = Inr (generate_identity demo_crypto demo_key demo_key ''b'')"
proof -
  obtain res s' where run: "cmd_keygen demo_crypto False True ''b'' demo_key demo_key demo_store = (res, s')" by fastforce
  then have "res = Go (public_entry (generate_identity demo_crypto demo_key demo_key ''b''))"
    by (auto simp: cmd_keygen_def demo_store_def save_identity_def Let_def)
  with keygen_all_or_nothing [OF run] run show ?thesis by simp
qed

text \<open>Member \<open>b\<close> holds half of peer \<open>g\<close>, by the signed roster.\<close>

theorem contribute_within_declaration_witness:
  "\<exists>plan. cmd_contribute demo_crypto demo_saved [''a='' @ b64 demo_key] (Inr (roster_to_dict demo_signed)) (\<lambda>p. True)
       \<lparr>a_ca_bundle = None, a_client_cert = None, a_client_key = None, a_insecure = False\<rparr> ''g'' (Flt 6) = Go plan
     \<and> cn_declared plan = 4"
proof -
  have pair: "admin_keys [] [''a='' @ b64 demo_key] = Inr [(''a'', b64 demo_key)]"
    using partition_pair [of "''a''" "b64 demo_key"] by (simp add: demo_key_def)
  have "roster_load demo_crypto (roster_to_dict demo_signed) [(''a'', b64 (ed_pub demo_crypto demo_key))] None = Inr (roster_norm demo_signed)"
    unfolding demo_signed_def
    by (rule roster_sign_load [OF demo_crypto_laws demo_roster_ok _ demo_signed_bytes])
       (simp_all add: demo_identity_fields, simp_all add: demo_roster_def)
  then have ro: "load_pinned_roster demo_crypto [''a='' @ b64 demo_key] (Inr (roster_to_dict demo_signed)) = Go (roster_norm demo_signed)"
    using pair by (simp add: load_pinned_roster_Go demo_identity_fields)
  have p: "roster_peer (roster_norm demo_signed) ''g'' = Inr demo_peer" "declared_gb demo_peer ''b'' = Some 4"
    by (simp_all add: roster_peer_def roster_norm_def demo_signed_def demo_roster_def declared_gb_def demo_peer_def)
  obtain plan where plan: "cmd_contribute demo_crypto demo_saved [''a='' @ b64 demo_key] (Inr (roster_to_dict demo_signed)) (\<lambda>p. True)
       \<lparr>a_ca_bundle = None, a_client_cert = None, a_client_key = None, a_insecure = False\<rparr> ''g'' (Flt 6) = Go plan"
    using ro p by (simp add: cmd_contribute_def raising_def demo_saved catching_def tls_from_args_def tls_init_def given_def demo_identity_fields)
  then have i: "cn_roster plan = roster_norm demo_signed" "cn_identity plan = demo_identity"
    using ro p by (auto simp: cmd_contribute_def demo_saved split: option.splits)
  from contribute_within_declaration [OF plan] p plan show ?thesis by (auto simp: i demo_identity_fields roster_peer_def split: option.splits)
qed

end
