(* ===== verification/Startup.thy ===== *)
theory Startup
  imports Commands
begin

text \<open>
  \<open>peer/__main__.py\<close> and \<open>coordinator/__main__.py\<close>: what has to hold before a daemon serves. \<open>main\<close> ends with
  an exit status, or an exception it does not catch, or goes on to serve with the state it built. Options are
  records with the parser's defaults, which \<open>CommandLine\<close> fills from an argument vector; printing is not modelled.
\<close>

section \<open>The peer\<close>

record peer_args =
  pa_admin_key :: "string list"
  pa_peer_id :: string
  pa_coordinator :: "string option"
  pa_engine :: string
  pa_resident_gb :: pynum
  pa_hw_class :: string
  pa_readiness_window :: rat
  pa_probe_interval :: rat
  pa_no_inference_probe :: bool
  pa_server :: server_tls_args
  pa_client :: client_tls_args

text \<open>The required options are arguments, the others have the parser's defaults.\<close>

definition no_server_tls :: server_tls_args where
  "no_server_tls = \<lparr>a_tls_cert = None, a_tls_key = None, a_tls_client_ca = None\<rparr>"

definition no_client_tls :: client_tls_args where
  "no_client_tls = \<lparr>a_ca_bundle = None, a_client_cert = None, a_client_key = None, a_insecure = False\<rparr>"

definition peer_arg_defaults :: "string list \<Rightarrow> string \<Rightarrow> peer_args" where
  "peer_arg_defaults pairs pid =
     \<lparr>pa_admin_key = pairs, pa_peer_id = pid, pa_coordinator = None,
      pa_engine = ''{'' @ CHR 0x22 # ''kind'' @ CHR 0x22 # '':'' @ CHR 0x22 # ''mock'' @ CHR 0x22 # ''}'',
      pa_resident_gb = Flt 0, pa_hw_class = ''unknown'', pa_readiness_window = 60, pa_probe_interval = 15,
      pa_no_inference_probe = False, pa_server = no_server_tls, pa_client = no_client_tls\<rparr>"

definition engine_model :: "engine \<Rightarrow> json" where
  "engine_model e = (case e of MockEngine m \<Rightarrow> mk_model m | OpenAI oa \<Rightarrow> oa_model oa)"

text \<open>The models the backend lists; the mock engine has no \<open>models\<close>.\<close>

definition offered_models :: "engine \<Rightarrow> (int \<times> json option) option \<Rightarrow> string list" where
  "offered_models e ans = (case e of MockEngine m \<Rightarrow> [] | OpenAI oa \<Rightarrow> openai_models ans)"

record peer_setup =
  ps_config :: peer_config
  ps_roster :: roster
  ps_engine :: engine
  ps_identity :: identity
  ps_node :: node
  ps_tls :: tls_config
  ps_server :: "server_tls option"
  ps_beats :: bool
  ps_overclaim :: bool
  ps_model_warned :: bool

text \<open>\<open>except (OSError, json.JSONDecodeError, RosterError, ValueError, KeyError)\<close>, by what raises.\<close>

definition startup_catches_roster :: "roster_error \<Rightarrow> bool" where
  "startup_catches_roster e =
     (case e of RosterError r \<Rightarrow> True | Crash c \<Rightarrow> (case c of ValueError v \<Rightarrow> True | _ \<Rightarrow> False))"

definition startup_catches_identity :: "identity_error \<Rightarrow> bool" where
  "startup_catches_identity e =
     (case e of
        Unread r \<Rightarrow> True | FieldMissing k \<Rightarrow> True
      | IdCrash c \<Rightarrow> (case c of ValueError v \<Rightarrow> True | _ \<Rightarrow> False)
      | _ \<Rightarrow> False)"

definition startup_catches_spec :: "spec_error \<Rightarrow> bool" where
  "startup_catches_spec e =
     (case e of
        SpecMissing k \<Rightarrow> True | UnknownEngineKind k \<Rightarrow> True
      | SpecCrash c \<Rightarrow> (case c of ValueError v \<Rightarrow> True | _ \<Rightarrow> False))"

definition peer_main_tls :: "(string \<Rightarrow> bool) \<Rightarrow> server_tls_args \<Rightarrow> client_tls_args \<Rightarrow> (server_tls option \<times> tls_config) command" where
  "peer_main_tls exists srv cli =
     cbind (catching (\<lambda>e. True) (\<lambda>e. FromRead OtherOsError) (server_tls_kwargs exists srv)) (\<lambda>ssl.
     cbind (catching (\<lambda>e. True) (\<lambda>e. FromRead OtherOsError) (tls_from_args exists cli)) (\<lambda>tls. Go (ssl, tls)))"

text \<open>A malformed \<open>--admin-key\<close> ends the daemon with status 1, also inside the \<open>try\<close> that surrounds the call.\<close>

definition peer_admin_keys :: "string list \<Rightarrow> (string, string) dict command" where
  "peer_admin_keys pairs = (case admin_keys [] pairs of Inl pair \<Rightarrow> Exit 1 | Inr pins \<Rightarrow> Go pins)"

definition coordinator_admin_keys :: "string list \<Rightarrow> (string, string) dict command" where
  "coordinator_admin_keys pairs = (case admin_keys [] pairs of Inl pair \<Rightarrow> Exit 1 | Inr pins \<Rightarrow> Go pins)"

lemma daemon_admin_keys [simp]:
  "peer_admin_keys pairs = Go pins \<longleftrightarrow> admin_keys [] pairs = Inr pins"
  "coordinator_admin_keys pairs = Go pins \<longleftrightarrow> admin_keys [] pairs = Inr pins"
  by (simp_all add: peer_admin_keys_def coordinator_admin_keys_def split: sum.splits)

text \<open>The second \<open>try\<close>: roster, identity, engine and the roster's entry for this peer.\<close>

definition peer_load :: "crypto \<Rightarrow> pylib \<Rightarrow> peer_args \<Rightarrow> read_error + json \<Rightarrow> id_store
    \<Rightarrow> (roster \<times> identity \<times> engine \<times> peer) command" where
  "peer_load K L a file s =
     cbind (catching (\<lambda>e. True) FromRead file) (\<lambda>doc.
     cbind (peer_admin_keys (pa_admin_key a)) (\<lambda>pins.
     cbind (catching startup_catches_roster FromRoster (roster_load K doc pins None)) (\<lambda>ro.
     cbind (catching startup_catches_identity FromIdentity (load_identity s)) (\<lambda>i.
     cbind (case json_loads L (pa_engine a) of
              Inl e \<Rightarrow> Exit 1
            | Inr spec \<Rightarrow> catching startup_catches_spec FromEngine (build_engine spec)) (\<lambda>e.
     cbind (catching (\<lambda>e. True) FromRoster (roster_peer ro (pa_peer_id a))) (\<lambda>p. Go (ro, i, e, p)))))))"

definition peer_main :: "crypto \<Rightarrow> pylib \<Rightarrow> (string \<Rightarrow> bool) \<Rightarrow> peer_args \<Rightarrow> read_error + json \<Rightarrow> id_store
    \<Rightarrow> (int \<times> json option) option \<Rightarrow> peer_setup command" where
  "peer_main K L exists a file s backend =
     cbind (peer_main_tls exists (pa_server a) (pa_client a)) (\<lambda>(ssl, tls).
     if pa_admin_key a = [] then Exit 1
     else cbind (peer_load K L a file s) (\<lambda>(ro, i, e, p).
       if p_owner p \<noteq> id_member i then Exit 1
       else if JStr (p_model p) \<noteq> engine_model e then Exit 1
       else if length (id_enc_priv i) \<noteq> 32 then Raised BadPrivateKey
       else Go \<lparr>ps_config = (peer_defaults (pa_peer_id a))\<lparr>pc_hw_class := pa_hw_class a, readiness_window := pa_readiness_window a,
                  probe_interval := pa_probe_interval a, inference_probe := \<not> pa_no_inference_probe a\<rparr>,
                ps_roster = ro, ps_engine = e, ps_identity = i, ps_node = new_node, ps_tls = tls, ps_server = ssl,
                ps_beats = given (pa_coordinator a),
                ps_overclaim = (0 < p_capacity_gb p \<and> overclaims (pa_resident_gb a) (p_capacity_gb p)),
                ps_model_warned = (let offered = offered_models e backend
                  in offered \<noteq> [] \<and> engine_model e \<notin> JStr ` set offered)\<rparr>))"

section \<open>The heartbeat task of a serving peer\<close>

text \<open>
  One round of the task that \<open>lifespan\<close> starts: what requests did to the peer's state since the last round, what
  \<open>peer.ready\<close> meets, and the nonce, the time and the answer of the heartbeat.
\<close>

record tick =
  tk_between :: "node \<Rightarrow> node"
  tk_now :: rat
  tk_locked :: rat
  tk_alive :: "string + bool"
  tk_probe :: engine_run
  tk_nonce :: string
  tk_ts :: pynum
  tk_status :: "int option"

fun readings :: "pylib \<Rightarrow> peer_config \<Rightarrow> tick list \<Rightarrow> node \<Rightarrow> readiness list" where
  "readings L cfg [] n = []"
| "readings L cfg (tk # tks) n =
     (let (r, n') = ready L cfg (tk_now tk) (tk_locked tk) (tk_alive tk) (tk_probe tk) (tk_between tk n)
      in r # readings L cfg tks n')"

definition tick_round :: "tick \<Rightarrow> readiness \<Rightarrow> beat_round" where
  "tick_round tk r = \<lparr>br_verdict = Reported r, br_nonce = tk_nonce tk, br_now = tk_ts tk, br_status = tk_status tk\<rparr>"

definition lifespan :: "crypto \<Rightarrow> pylib \<Rightarrow> peer_args \<Rightarrow> peer_setup \<Rightarrow> tick list \<Rightarrow> beat_event list \<times> value_error option" where
  "lifespan K L a st tks =
     (if ps_beats st
      then heartbeat_loop K (id_sign_seed (ps_identity st)) (id_member (ps_identity st)) (pa_peer_id a) (pa_resident_gb a) None
        (map2 tick_round tks (readings L (ps_config st) tks (ps_node st)))
      else ([], None))"

lemma length_readings [simp]: "length (readings L cfg tks n) = length tks"
  by (induction tks arbitrary: n) (simp_all add: case_prod_unfold Let_def)

text \<open>With a finite residency the task goes on for as long as the clock is finite.\<close>

lemma finite_beat: "\<exists>doc. beat_doc K seed mid pid (Flt gb) up detail nonce (IntN t) = Inr doc"
  by (simp add: beat_doc_def sign_request_def signed_payload_def canonical_def beat_fields_def)

lemma heartbeat_loop_runs:
  "\<forall>rd \<in> set rds. \<exists>t. br_now rd = IntN t \<Longrightarrow> \<exists>evs. heartbeat_loop K seed mid pid (Flt gb) p rds = (evs, None)"
proof (induction rds arbitrary: p)
  case (Cons rd rds)
  then obtain t where t: "br_now rd = IntN t" by auto
  obtain doc where doc: "beat_doc K seed mid pid (Flt gb) (fst (judged (br_verdict rd))) (snd (judged (br_verdict rd))) (br_nonce rd) (br_now rd) = Inr doc"
    unfolding t using finite_beat by blast
  obtain evs where "heartbeat_loop K seed mid pid (Flt gb) (Some (fst (judged (br_verdict rd)))) rds = (evs, None)"
    using Cons by fastforce
  with doc show ?case by (simp add: Let_def send_heartbeat_def)
qed simp

lemma lifespan_runs:
  assumes "pa_resident_gb a = Flt gb" "\<forall>tk \<in> set tks. \<exists>t. tk_ts tk = IntN t"
  shows "\<exists>evs. lifespan K L a st tks = (evs, None)"
  using assms heartbeat_loop_runs [of "map2 tick_round tks (readings L (ps_config st) tks (ps_node st))"]
  by (force simp: lifespan_def tick_round_def dest: set_zip_leftD)

lemma lifespan_sends:
  assumes "lifespan K L a st tks = (evs, None)" "ps_beats st" "k < length tks"
  shows "beat_doc K (id_sign_seed (ps_identity st)) (id_member (ps_identity st)) (pa_peer_id a) (pa_resident_gb a)
      (rd_ok (readings L (ps_config st) tks (ps_node st) ! k)) (rd_reason (readings L (ps_config st) tks (ps_node st) ! k))
      (tk_nonce (tks ! k)) (tk_ts (tks ! k)) = Inr (sent evs ! k)"
proof -
  let ?rds = "map2 tick_round tks (readings L (ps_config st) tks (ps_node st))"
  have "k < length ?rds" using assms(3) by simp
  moreover from assms have "heartbeat_loop K (id_sign_seed (ps_identity st)) (id_member (ps_identity st)) (pa_peer_id a)
      (pa_resident_gb a) None ?rds = (evs, None)" by (simp add: lifespan_def)
  ultimately show ?thesis
    using list_all2_nthD [OF conjunct2 [OF heartbeat_loop_run]] assms(3) by (fastforce simp: tick_round_def judged_def)
qed

section \<open>The coordinator\<close>

record coordinator_args =
  ca_admin_key :: "string list"
  ca_roster_version :: "int option"
  ca_max_queue :: int
  ca_server :: server_tls_args
  ca_client :: client_tls_args

definition coordinator_arg_defaults :: "string list \<Rightarrow> coordinator_args" where
  "coordinator_arg_defaults pairs =
     \<lparr>ca_admin_key = pairs, ca_roster_version = None, ca_max_queue = 32, ca_server = no_server_tls, ca_client = no_client_tls\<rparr>"

text \<open>The timeouts are for \<open>httpx\<close> and the event loop: no operation of the model reads them.\<close>

record coordinator_config =
  cc_relay_timeout :: rat
  cc_max_queue :: int
  cc_queue_timeout :: rat
  cc_lease_ttl :: rat
  cc_tls :: tls_config

definition coordinator_config_defaults :: coordinator_config where
  "coordinator_config_defaults =
     \<lparr>cc_relay_timeout = 300, cc_max_queue = 32, cc_queue_timeout = 120, cc_lease_ttl = 300, cc_tls = DEFAULT_TLS\<rparr>"

text \<open>A coordinator with a configuration of its own, over the ledger and the log it was given.\<close>

definition configured_coordinator :: "coordinator_config \<Rightarrow> roster \<Rightarrow> ledger \<Rightarrow> arrival list \<Rightarrow> (nat \<Rightarrow> string) \<Rightarrow> coordinator" where
  "configured_coordinator cfg ro led arr toks =
     (let c = new_coordinator ro toks; s = sched c
      in c\<lparr>sched := s\<lparr>lease_ttl := cc_lease_ttl cfg, max_queue := cc_max_queue cfg, reg := (reg s)\<lparr>reg_ledger := led\<rparr>\<rparr>,
           concurrency := arr\<rparr>)"

text \<open>With the default configuration and new databases it is the coordinator of the component's own theory.\<close>

lemma default_coordinator: "configured_coordinator coordinator_config_defaults ro empty_ledger [] toks = new_coordinator ro toks"
  by (simp add: configured_coordinator_def new_coordinator_def new_scheduler_def new_registry_def coordinator_config_defaults_def
      DEFAULT_LEASE_TTL_def DEFAULT_MAX_QUEUE_def)

text \<open>
  \<open>led\<close> and \<open>arr\<close> are what opening the two databases gives: the rows that earlier runs of the coordinator stored, under
  whatever roster they had, or the error, which no handler catches.
\<close>

definition coordinator_main :: "crypto \<Rightarrow> (string \<Rightarrow> bool) \<Rightarrow> coordinator_args \<Rightarrow> read_error + json
    \<Rightarrow> database_error + ledger \<Rightarrow> database_error + arrival list \<Rightarrow> (nat \<Rightarrow> string)
    \<Rightarrow> (coordinator \<times> server_tls option \<times> tls_config) command" where
  "coordinator_main K exists a file led arr toks =
     cbind (peer_main_tls exists (ca_server a) (ca_client a)) (\<lambda>(ssl, tls).
     if ca_admin_key a = [] then Exit 1
     else cbind (catching (\<lambda>e. e \<noteq> BadUtf8) FromRead file) (\<lambda>doc.
       cbind (coordinator_admin_keys (ca_admin_key a)) (\<lambda>pins.
       cbind (catching is_roster_error FromRoster (roster_load K doc pins (ca_roster_version a))) (\<lambda>ro.
       cbind (raising FromDatabase led) (\<lambda>rows.
       cbind (raising FromDatabase arr) (\<lambda>arrivals.
       Go (configured_coordinator (coordinator_config_defaults\<lparr>cc_max_queue := ca_max_queue a, cc_tls := tls\<rparr>) ro rows arrivals toks,
           ssl, tls)))))))"

lemma configured_ok:
  assumes "roster_ok ro" "inj toks" "ledger_ok led" "0 \<le> cc_max_queue cfg"
  shows "coord_ok (configured_coordinator cfg ro led arr toks)"
proof -
  have "sched_ok (new_scheduler (new_registry ro) toks)" by (rule sched_ok_new [OF assms(1,2)])
  moreover have "registry_ok ((new_registry ro)\<lparr>reg_ledger := led\<rparr>)"
    using registry_ok_new [OF assms(1)] assms(3) by (simp add: registry_ok_def)
  ultimately have "sched_ok ((new_scheduler (new_registry ro) toks)\<lparr>reg := (new_registry ro)\<lparr>reg_ledger := led\<rparr>\<rparr>)"
    by (intro sched_ok_reg) (simp_all add: new_scheduler_def load_def)
  then show ?thesis
    using assms(4) by (simp add: configured_coordinator_def Let_def new_coordinator_def coord_ok_def sched_ok_def queue_ok_def
        leases_ok_def new_scheduler_def lease_ok_def)
qed

section \<open>A peer that has started\<close>

lemma peer_main_started:
  assumes "peer_main K L exists a file s backend = Go st"
  shows "(\<exists>pins doc p. admin_keys [] (pa_admin_key a) = Inr pins \<and> file = Inr doc \<and> roster_load K doc pins None = Inr (ps_roster st)
      \<and> roster_ok (ps_roster st) \<and> map_of (peers (ps_roster st)) (pc_peer_id (ps_config st)) = Some p
      \<and> p_owner p = id_member (ps_identity st) \<and> JStr (p_model p) = engine_model (ps_engine st))
    \<and> load_identity s = Inr (ps_identity st) \<and> length (id_enc_priv (ps_identity st)) = 32
    \<and> (given (a_tls_cert (pa_server a)) \<longrightarrow> ps_server st \<noteq> None)"
proof -
  from assms obtain ssl tls ro i e p where tls: "server_tls_kwargs exists (pa_server a) = Inr ssl"
    and load: "peer_load K L a file s = Go (ro, i, e, p)"
    and checks: "p_owner p = id_member i" "JStr (p_model p) = engine_model e" "length (id_enc_priv i) = 32"
    and st: "ps_roster st = ro" "ps_identity st = i" "ps_engine st = e" "ps_server st = ssl" "pc_peer_id (ps_config st) = pa_peer_id a"
    by (auto simp: peer_main_def peer_main_tls_def peer_defaults_def split: if_splits)
  from load obtain pins doc where "admin_keys [] (pa_admin_key a) = Inr pins" "file = Inr doc" "roster_load K doc pins None = Inr ro"
      "load_identity s = Inr i" "map_of (peers ro) (pa_peer_id a) = Some p"
    by (auto simp: peer_load_def)
  moreover from this have "roster_ok ro" using roster_load_ok by blast
  moreover have "given (a_tls_cert (pa_server a)) \<longrightarrow> ssl \<noteq> None"
    using tls by (auto simp: server_tls_kwargs_def rbind_Inr_iff Let_def split: if_splits)
  ultimately show ?thesis using checks st by auto
qed

section \<open>Properties\<close>

text \<open>
  C26: a peer that starts is what the roster says it is: the roster verified against the pinned keys and is
  well formed, it lists this peer as owned by this identity, the engine serves the model the roster
  advertises, and with a certificate configured it serves with TLS.
\<close>
theorem peer_start_sound:
  assumes "peer_main K L exists a file s backend = Go st"
  shows "(\<exists>pins doc p. admin_keys [] (pa_admin_key a) = Inr pins \<and> file = Inr doc \<and> roster_load K doc pins None = Inr (ps_roster st)
      \<and> roster_ok (ps_roster st) \<and> map_of (peers (ps_roster st)) (pc_peer_id (ps_config st)) = Some p
      \<and> p_owner p = id_member (ps_identity st) \<and> JStr (p_model p) = engine_model (ps_engine st))
    \<and> load_identity s = Inr (ps_identity st) \<and> length (id_enc_priv (ps_identity st)) = 32
    \<and> (given (a_tls_cert (pa_server a)) \<longrightarrow> ps_server st \<noteq> None)"
  using assms by (rule peer_main_started)

text \<open>
  C17: a peer that starts with a coordinator to report to is routed to exactly as it reports: while the
  coordinator holds the same roster and the identity's key is the one the roster lists, each round's heartbeat is
  accepted as the owner's when it arrives fresh, and for the timeout that follows the peer is offered for its
  model exactly when \<open>peer.ready\<close> said in that round that it can serve.
\<close>
theorem started_peer_routed:
  assumes K: "crypto_laws K" "\<And>bs. ed_sign K (id_sign_seed (ps_identity st)) bs \<noteq> []"
    and start: "peer_main K L exists a file s backend = Go st" "given (pa_coordinator a)" "pa_resident_gb a = Flt gb"
    and same: "roster_of c = ps_roster st" "map_of (members (ps_roster st)) (id_member (ps_identity st)) = Some m"
      "m_sign_pub m = b64 (ed_pub K (id_sign_seed (ps_identity st)))" "id_member (ps_identity st) \<noteq> []"
    and run: "lifespan K L a st tks = (evs, None)" "k < length tks"
    and arrives: "check_fresh (tk_ts (tks ! k)) w DEFAULT_MAX_AGE = Inr ()" "tk_nonce (tks ! k) \<noteq> []"
      "check_and_add w (tk_nonce (tks ! k)) (nonces c) = (Inr u, n)" "later - t \<le> heartbeat_timeout (reg (sched c))"
  shows "\<exists>p c'. map_of (peers (ps_roster st)) (pa_peer_id a) = Some p
    \<and> heartbeat_handler K w t t' (Some (sent evs ! k)) c = (BeatReply (pa_peer_id a) ''owner'', c')
    \<and> (p \<in> set (live_peers later (p_model p) (reg (sched c'))) \<longleftrightarrow> rd_ok (readings L (ps_config st) tks (ps_node st) ! k))"
proof -
  from peer_main_started [OF start(1)] obtain p where ok: "roster_ok (ps_roster st)"
      and p: "map_of (peers (ps_roster st)) (pc_peer_id (ps_config st)) = Some p" "p_owner p = id_member (ps_identity st)" by blast
  have cfg: "ps_beats st" "pc_peer_id (ps_config st) = pa_peer_id a"
    using start by (auto simp: peer_main_def peer_main_tls_def peer_defaults_def split: if_splits)
  have pid: "p_id p = pa_peer_id a" using ok map_of_SomeD [OF p(1)] by (auto simp: roster_ok_def cfg)
  let ?r = "readings L (ps_config st) tks (ps_node st) ! k"
  have "send_heartbeat K (id_sign_seed (ps_identity st)) (id_member (ps_identity st)) (pa_peer_id a) (Flt gb) (rd_ok ?r) (rd_reason ?r)
      (tk_nonce (tks ! k)) (tk_ts (tks ! k)) (Some 200) = Inr (sent evs ! k, True)"
    using lifespan_sends [OF run(1) cfg(1) run(2)] start(3) by (simp add: send_heartbeat_def beat_ok_def)
  from readiness_gates_routing [OF K _ same(3) same(4) arrives(2) _ pid p(2) _ this arrives(1,3,4)] p same show ?thesis
    by (simp add: cfg)
qed

text \<open>
  C27: a coordinator that starts does so over a roster that verified against the pinned keys and is strictly newer than
  the version it was told it holds, and over the rows that its databases already had; and whatever it then does,
  requests, heartbeats and relayed streams interleaved in any way, no peer has more slots taken than it declares,
  no request id is metered twice, also across restarts, what the ledger held at the start stays, and every row
  credited since is one this roster backs. (The ledger it opens has to be one that a coordinator wrote, and
  \<open>--max-queue\<close> is not negative.)
\<close>
theorem coordinator_start_safe:
  assumes "coordinator_main K exists a file led arr toks = Go (c, ssl, tls)" "inj toks" "0 \<le> ca_max_queue a"
    and "\<And>rows. led = Inr rows \<Longrightarrow> ledger_ok rows"
  shows "(\<exists>pins doc. admin_keys [] (ca_admin_key a) = Inr pins \<and> file = Inr doc
      \<and> roster_load K doc pins (ca_roster_version a) = Inr (roster_of c))
    \<and> (\<forall>n. ca_roster_version a = Some n \<longrightarrow> n < roster_version (roster_of c))
    \<and> led = Inr (reg_ledger (reg (sched c))) \<and> arr = Inr (concurrency c)
    \<and> (\<forall>c'. (coord_step K)\<^sup>*\<^sup>* c c' \<longrightarrow> coord_ok c'
         \<and> (\<forall>pid p. map_of (peers (roster_of c')) pid = Some p \<longrightarrow> load (reg (sched c')) pid \<le> p_max_concurrent p)
         \<and> distinct (map co_request (consumed c'))
         \<and> (\<exists>new. contributions (reg_ledger (reg (sched c'))) = contributions (reg_ledger (reg (sched c))) @ new
              \<and> list_all (row_ok (roster_of c)) new))"
proof -
  from assms(1) obtain pins doc ro rows arrivals where load: "admin_keys [] (ca_admin_key a) = Inr pins" "file = Inr doc"
      "roster_load K doc pins (ca_roster_version a) = Inr ro" and db: "led = Inr rows" "arr = Inr arrivals"
    and c: "c = configured_coordinator (coordinator_config_defaults\<lparr>cc_max_queue := ca_max_queue a, cc_tls := tls\<rparr>) ro rows arrivals toks"
    by (auto simp: coordinator_main_def split: if_splits)
  have ro: "roster_of c = ro" by (simp add: c configured_coordinator_def Let_def new_coordinator_def new_scheduler_def new_registry_def)
  have kept: "reg_ledger (reg (sched c)) = rows" "concurrency c = arrivals"
    by (simp_all add: c configured_coordinator_def Let_def)
  have "coord_ok c" unfolding c using roster_load_ok [OF load(3)] assms(2,3) assms(4) [OF db(1)] by (intro configured_ok) auto
  from coord_run [OF _ this]
  have run: "coord_ok c' \<and> adds_rows (reg (sched c)) (reg (sched c'))" if "(coord_step K)\<^sup>*\<^sup>* c c'" for c'
    using that by blast
  have "(\<forall>pid p. map_of (peers (roster_of c')) pid = Some p \<longrightarrow> load (reg (sched c')) pid \<le> p_max_concurrent p)
      \<and> distinct (map co_request (consumed c'))" if "coord_ok c'" for c'
    using that by (simp add: coord_ok_def sched_ok_def leases_ok_def registry_ok_def ledger_ok_def)
  with run load ro roster_load_ok [OF load(3)] kept db show ?thesis unfolding adds_rows_def by blast
qed

text \<open>
  a keychain that is not there ends the commands that need the identity, and the peer, with an exception
  instead of the message written for it: they handle a missing file but not \<open>IdentityError\<close>.
\<close>
theorem keychain_error_escapes:
  assumes "load_identity s = Inl NoKeychain"
  shows "cli_main (cmd_whoami s) = Raised (FromIdentity NoKeychain)
    \<and> cli_main (chat_start K s pairs file exists tls) = Raised (FromIdentity NoKeychain)
    \<and> (admin_keys [] (pa_admin_key a) = Inr pins \<longrightarrow> roster_load K doc pins None = Inr ro \<longrightarrow>
         peer_load K L a (Inr doc) s = Raised (FromIdentity NoKeychain))"
  using assms
  by (simp add: cmd_whoami_def raising_def cli_main_def chat_start_def peer_load_def catching_def peer_admin_keys_def startup_catches_identity_def)

section \<open>Witnesses\<close>

text \<open>A roster that lists the key of member \<open>a\<close>, signed with it.\<close>

definition demo_reg_roster :: roster where
  "demo_reg_roster = demo_roster\<lparr>members := [(''a'', (demo_member ''a'')\<lparr>m_sign_pub := b64 demo_key\<rparr>), (''b'', demo_member ''b'')]\<rparr>"

definition demo_reg_payload :: bytes where
  "demo_reg_payload = utf8 (dumps (float_repr demo_crypto) (JObj (roster_body demo_reg_roster)))"

definition demo_reg :: roster where
  "demo_reg = demo_reg_roster\<lparr>signatures := map JStr [sign_bytes demo_crypto demo_reg_payload demo_key]\<rparr>"

lemma demo_reg:
  "roster_ok demo_reg_roster" "roster_signed_bytes (float_repr demo_crypto) demo_reg_roster = Inr demo_reg_payload"
proof -
  show "roster_ok demo_reg_roster" using demo_roster_ok by (simp add: roster_ok_def demo_reg_roster_def demo_roster_def demo_member_def)
  have "json_finite (JObj (roster_body demo_reg_roster))" by code_simp
  then show "roster_signed_bytes (float_repr demo_crypto) demo_reg_roster = Inr demo_reg_payload"
    by (simp add: roster_signed_bytes_def canonical_def demo_reg_payload_def)
qed

text \<open>Member \<open>a\<close> runs peer \<open>g\<close> with a mock engine that serves model \<open>m\<close>.\<close>

definition demo_owner :: identity where
  "demo_owner = generate_identity demo_crypto demo_key demo_key ''a''"

definition demo_owner_store :: id_store where
  "demo_owner_store = snd (save_identity False demo_owner demo_store)"

definition demo_engine_spec :: json where
  "demo_engine_spec = JObj [(''kind'', JStr ''mock''), (''model'', JStr ''m'')]"

definition demo_start_args :: peer_args where
  "demo_start_args = (peer_arg_defaults [''a='' @ b64 demo_key] ''g'')\<lparr>pa_engine := wire_text (\<lambda>r. []) demo_engine_spec\<rparr>"

lemma demo_spec: "json_loads L (wire_text (\<lambda>r. []) demo_engine_spec) = Inr demo_engine_spec"
  by (rule loads_wire_text) (simp add: demo_engine_spec_def)

lemma demo_start:
  "admin_keys [] [''a='' @ b64 demo_key] = Inr [(''a'', b64 demo_key)]"
  "roster_load demo_crypto (roster_to_dict demo_reg) [(''a'', b64 demo_key)] None = Inr (roster_norm demo_reg)"
  "load_identity demo_owner_store = Inr demo_owner"
  "map_of (peers (roster_norm demo_reg)) ''g'' = Some demo_peer"
  "tls_from_args (\<lambda>p. True) no_client_tls = Inr DEFAULT_TLS" "server_tls_kwargs (\<lambda>p. True) no_server_tls = Inr None"
proof -
  show "admin_keys [] [''a='' @ b64 demo_key] = Inr [(''a'', b64 demo_key)]"
    using partition_pair [of "''a''" "b64 demo_key"] by (simp add: demo_key_def)
  have "roster_load demo_crypto (roster_to_dict demo_reg) [(''a'', b64 (ed_pub demo_crypto demo_key))] None = Inr (roster_norm demo_reg)"
    unfolding demo_reg_def
    by (rule roster_sign_load [OF demo_crypto_laws demo_reg(1) _ demo_reg(2)])
       (simp_all add: demo_identity_fields, simp_all add: demo_reg_roster_def demo_roster_def)
  then show "roster_load demo_crypto (roster_to_dict demo_reg) [(''a'', b64 demo_key)] None = Inr (roster_norm demo_reg)"
    by (simp add: demo_identity_fields)
  show "load_identity demo_owner_store = Inr demo_owner"
    by (rule load_saved [of False _ demo_store]) (simp add: save_identity_def demo_owner_store_def)
qed (simp_all add: roster_norm_def demo_reg_def demo_reg_roster_def demo_roster_def tls_from_args_def tls_init_def no_client_tls_def given_def
    DEFAULT_TLS_def server_tls_kwargs_def no_server_tls_def)

text \<open>It starts, whatever it says of its memory and whomever it reports to.\<close>

lemma demo_peer_starts:
  obtains st where "peer_main demo_crypto demo_lib (\<lambda>p. True) (demo_start_args\<lparr>pa_coordinator := url, pa_resident_gb := gb\<rparr>)
      (Inr (roster_to_dict demo_reg)) demo_owner_store None = Go st"
    "ps_roster st = roster_norm demo_reg" "ps_identity st = demo_owner" "ps_config st = peer_defaults ''g''" "ps_node st = new_node"
    "ps_beats st = given url"
proof -
  have owner: "id_member demo_owner = ''a''" "id_enc_priv demo_owner = demo_key"
    by (simp_all add: demo_owner_def generate_identity_def new_signing_keypair_def new_encryption_keypair_def)
  have p: "p_owner demo_peer = ''a''" "p_model demo_peer = ''m''" by (simp_all add: demo_peer_def)
  have eng: "\<exists>e. build_engine demo_engine_spec = Inr e \<and> engine_model e = JStr ''m''"
    by (simp add: demo_engine_spec_def build_engine_def py_float_def py_int_def engine_model_def)
  show ?thesis
    using demo_start owner p eng demo_identity_fields(5) that
    by (auto simp: peer_main_def peer_main_tls_def peer_load_def catching_def demo_start_args_def peer_arg_defaults_def demo_spec
        roster_peer_def peer_defaults_def)
qed

theorem peer_start_sound_witness:
  "\<exists>st. peer_main demo_crypto demo_lib (\<lambda>p. True) (demo_start_args\<lparr>pa_coordinator := None, pa_resident_gb := Flt 0\<rparr>)
       (Inr (roster_to_dict demo_reg)) demo_owner_store None = Go st
     \<and> roster_ok (ps_roster st)"
  by (rule demo_peer_starts [where url = None and gb = "Flt 0"]) (use peer_start_sound in blast)

text \<open>Two rounds: the engine answers the first probe, and fails the second.\<close>

definition demo_ticks :: "tick list" where
  "demo_ticks = [\<lparr>tk_between = id, tk_now = 100, tk_locked = 100, tk_alive = Inr True, tk_probe = ([Text ''x''], Finished),
      tk_nonce = ''n1'', tk_ts = IntN 1000, tk_status = Some 200\<rparr>,
    \<lparr>tk_between = id, tk_now = 130, tk_locked = 130, tk_alive = Inr True, tk_probe = ([], EngineFailed ''gone''),
      tk_nonce = ''n2'', tk_ts = IntN 1030, tk_status = Some 200\<rparr>]"

theorem started_peer_routed_witness:
  "\<exists>st evs c1 c2. peer_main demo_crypto demo_lib (\<lambda>p. True) (demo_start_args\<lparr>pa_coordinator := Some ''u'', pa_resident_gb := Flt 8\<rparr>)
       (Inr (roster_to_dict demo_reg)) demo_owner_store None = Go st
     \<and> lifespan demo_crypto demo_lib (demo_start_args\<lparr>pa_coordinator := Some ''u'', pa_resident_gb := Flt 8\<rparr>) st demo_ticks = (evs, None)
     \<and> heartbeat_handler demo_crypto 1040 5 5 (Some (sent evs ! 0)) (new_coordinator (roster_norm demo_reg) demo_tokens) = c1
     \<and> demo_peer \<in> set (live_peers 6 ''m'' (reg (sched (snd c1))))
     \<and> heartbeat_handler demo_crypto 1040 5 5 (Some (sent evs ! 1)) (new_coordinator (roster_norm demo_reg) demo_tokens) = c2
     \<and> demo_peer \<notin> set (live_peers 6 ''m'' (reg (sched (snd c2))))"
proof -
  let ?a = "demo_start_args\<lparr>pa_coordinator := Some ''u'', pa_resident_gb := Flt 8\<rparr>"
  let ?c = "new_coordinator (roster_norm demo_reg) demo_tokens"
  obtain st where st: "peer_main demo_crypto demo_lib (\<lambda>p. True) ?a (Inr (roster_to_dict demo_reg)) demo_owner_store None = Go st"
    "ps_roster st = roster_norm demo_reg" "ps_identity st = demo_owner" "ps_config st = peer_defaults ''g''" "ps_node st = new_node"
    "ps_beats st = given (Some ''u'')" by (rule demo_peer_starts)
  have i: "id_member demo_owner = ''a''" "id_sign_seed demo_owner = demo_key"
    by (simp_all add: demo_owner_def generate_identity_def new_signing_keypair_def new_encryption_keypair_def)
  have rd: "map rd_ok (readings demo_lib (peer_defaults ''g'') demo_ticks new_node) = [True, False]"
    by (simp add: demo_ticks_def ready_def ready_enter_def ready_locked_def fresh_verdict_def new_node_def peer_defaults_def probe_def probe_done_def Let_def)
  have beats: "ps_beats st" using st(6) by (simp add: given_def)
  obtain evs where run: "lifespan demo_crypto demo_lib ?a st demo_ticks = (evs, None)"
    using lifespan_runs [of ?a 8 demo_ticks demo_crypto demo_lib st] by (auto simp: demo_ticks_def)
  have p: "map_of (peers (roster_norm demo_reg)) (pa_peer_id ?a) = Some demo_peer" "p_model demo_peer = ''m''" "pa_peer_id ?a = ''g''"
    using demo_start(4) by (simp_all add: demo_peer_def demo_start_args_def peer_arg_defaults_def)
  have ro: "roster_of ?c = ps_roster st" by (simp add: st(2) new_coordinator_def new_scheduler_def new_registry_def)
  have m: "map_of (members (ps_roster st)) (id_member (ps_identity st)) = Some ((demo_member ''a'')\<lparr>m_sign_pub := b64 demo_key\<rparr>)"
    by (simp add: st i roster_norm_def demo_reg_def demo_reg_roster_def demo_roster_def)
  have go: "\<exists>c'. heartbeat_handler demo_crypto 1040 5 5 (Some (sent evs ! k)) ?c = (BeatReply ''g'' ''owner'', c')
      \<and> (demo_peer \<in> set (live_peers 6 ''m'' (reg (sched c'))) \<longleftrightarrow> [True, False] ! k)"
    if "k < 2" "check_fresh (tk_ts (demo_ticks ! k)) 1040 DEFAULT_MAX_AGE = Inr ()" "tk_nonce (demo_ticks ! k) \<noteq> []" for k
  proof -
    have k: "k < length demo_ticks" using that(1) by (simp add: demo_ticks_def)
    have rk: "rd_ok (readings demo_lib (ps_config st) demo_ticks (ps_node st) ! k) = [True, False] ! k"
      unfolding st(4,5) using k rd nth_map [of k "readings demo_lib (peer_defaults ''g'') demo_ticks new_node" rd_ok] by simp
    obtain u n where new: "check_and_add 1040 (tk_nonce (demo_ticks ! k)) (nonces ?c) = (Inr u, n)"
      by (simp add: new_coordinator_def new_cache_def check_and_add_def DEFAULT_MAX_ENTRIES_def)
    have sg: "ed_sign demo_crypto (id_sign_seed (ps_identity st)) bs \<noteq> []" for bs by (simp add: st(3) i demo_crypto_def demo_key_def)
    have "heartbeat_timeout (reg (sched ?c)) = 90" by (simp add: new_coordinator_def new_scheduler_def new_registry_def DEFAULT_HEARTBEAT_TIMEOUT_def)
    then have "6 - 5 \<le> heartbeat_timeout (reg (sched ?c))" by simp
    moreover have "m_sign_pub ((demo_member ''a'')\<lparr>m_sign_pub := b64 demo_key\<rparr>) = b64 (ed_pub demo_crypto (id_sign_seed (ps_identity st)))"
      "id_member (ps_identity st) \<noteq> []" "given (pa_coordinator ?a)" "pa_resident_gb ?a = Flt 8"
      by (simp_all add: st(3) i demo_crypto_def given_def)
    ultimately show ?thesis
      using started_peer_routed [OF demo_crypto_laws sg st(1) _ _ ro m _ _ run k that(2,3) new, where t = 5 and t' = 5 and later = 6]
        p rk st(2) by auto
  qed
  have "check_fresh (tk_ts (demo_ticks ! 0)) 1040 DEFAULT_MAX_AGE = Inr ()" "check_fresh (tk_ts (demo_ticks ! 1)) 1040 DEFAULT_MAX_AGE = Inr ()"
    by code_simp+
  then have "\<exists>c'. heartbeat_handler demo_crypto 1040 5 5 (Some (sent evs ! 0)) ?c = (BeatReply ''g'' ''owner'', c')
      \<and> demo_peer \<in> set (live_peers 6 ''m'' (reg (sched c')))"
    and "\<exists>c'. heartbeat_handler demo_crypto 1040 5 5 (Some (sent evs ! 1)) ?c = (BeatReply ''g'' ''owner'', c')
      \<and> demo_peer \<notin> set (live_peers 6 ''m'' (reg (sched c')))"
    using go [of 0] go [of 1] by (simp_all add: demo_ticks_def)
  then show ?thesis using st(1) run by fastforce
qed

text \<open>A restart over a ledger that credits an owner whom the roster no longer lists.\<close>

definition demo_old_ledger :: ledger where
  "demo_old_ledger = \<lparr>contributions = [\<lparr>cr_peer = ''g'', cr_owner = ''gone'', cr_gb = 8, cr_seconds = 60\<rparr>], consumptions = []\<rparr>"

theorem coordinator_start_safe_witness:
  "\<exists>c ssl tls c'. coordinator_main demo_crypto (\<lambda>p. True) (coordinator_arg_defaults [''a='' @ b64 demo_key])
      (Inr (roster_to_dict demo_reg)) (Inr demo_old_ledger) (Inr []) demo_tokens = Go (c, ssl, tls)
     \<and> coord_step demo_crypto c c' \<and> coord_ok c' \<and> contributions (reg_ledger (reg (sched c))) = contributions demo_old_ledger
     \<and> take 1 (contributions (reg_ledger (reg (sched c')))) = contributions demo_old_ledger"
proof -
  obtain c ssl tls where c: "coordinator_main demo_crypto (\<lambda>p. True) (coordinator_arg_defaults [''a='' @ b64 demo_key])
      (Inr (roster_to_dict demo_reg)) (Inr demo_old_ledger) (Inr []) demo_tokens = Go (c, ssl, tls)"
    using demo_start by (auto simp: coordinator_main_def peer_main_tls_def catching_def raising_def coordinator_arg_defaults_def)
  have ledger: "ledger_ok demo_old_ledger" by (simp add: demo_old_ledger_def ledger_ok_def)
  have "0 \<le> ca_max_queue (coordinator_arg_defaults [''a='' @ b64 demo_key])" by (simp add: coordinator_arg_defaults_def)
  note safe = coordinator_start_safe [OF c demo_tokens_inj this]
  have kept: "demo_old_ledger = reg_ledger (reg (sched c))" using safe ledger by auto
  have step: "coord_step demo_crypto c (snd (lease_timeout 0 c))" by (rule coord_step.GiveUp)
  have all: "coord_ok c' \<and> (\<exists>new. contributions (reg_ledger (reg (sched c'))) = contributions (reg_ledger (reg (sched c))) @ new)"
    if "(coord_step demo_crypto)\<^sup>*\<^sup>* c c'" for c'
    using safe ledger that by blast
  let ?c = "snd (lease_timeout 0 c)"
  from step have "(coord_step demo_crypto)\<^sup>*\<^sup>* c ?c" by (rule r_into_rtranclp)
  from all [OF this] have "coord_ok ?c" "take 1 (contributions (reg_ledger (reg (sched ?c)))) = contributions demo_old_ledger"
    by (auto simp: kept [symmetric] demo_old_ledger_def)
  with c kept step show ?thesis by metis
qed

theorem keychain_error_escapes_witness:
  "cli_main (cmd_whoami ((snd (save_identity True demo_identity demo_store))\<lparr>keychain_usable := False\<rparr>)) = Raised (FromIdentity NoKeychain)"
proof -
  have "load_identity ((snd (save_identity True demo_identity demo_store))\<lparr>keychain_usable := False\<rparr>) = Inl NoKeychain"
    by (simp add: save_identity_def demo_store_def load_identity_def load_secrets_def public_fields_def)
  from conjunct1 [OF keychain_error_escapes [OF this]] show ?thesis .
qed

end
