(* ===== verification/DispatchLoop.thy ===== *)
theory DispatchLoop
  imports Scheduler "HOL-Library.While_Combinator"
begin

text \<open>
  The \<open>while\<close> loop of \<open>_dispatch\<close> in \<open>coordinator/scheduler.py\<close> as the source writes it: a test and a round, run
  by \<open>while_option\<close>, which has no value when the loop does not end. The recursive form used elsewhere is this one.
\<close>

definition loop_test :: "waiter list \<times> scheduler \<Rightarrow> bool" where
  "loop_test ds = (waiters (snd ds) \<noteq> [])"

definition dispatch_round :: "rat \<Rightarrow> waiter list \<times> scheduler \<Rightarrow> waiter list \<times> scheduler" where
  "dispatch_round now ds =
     (let (deferred, s) = ds in
      case heappop (waiters s) of
        None \<Rightarrow> (deferred, s)
      | Some (w, ws) \<Rightarrow>
          (let s1 = s\<lparr>waiters := ws\<rparr> in
           if future_of (w_seq w) s1 \<noteq> Pending then (deferred, s1)
           else (case pick now (w_model w) (reg s1) of
               None \<Rightarrow> (deferred @ [w], s1)
             | Some p \<Rightarrow>
                 (let (l, s2) = issue now (w_member w) p s1
                  in (deferred, s2\<lparr>futures := AList.update (w_seq w) (Granted l) (futures s2)\<rparr>)))))"

section \<open>Lemmas\<close>

lemma round_step:
  "loop_test ds \<Longrightarrow> case_prod (dispatch_loop now) (dispatch_round now ds) = case_prod (dispatch_loop now) ds"
  by (cases ds, cases "waiters (snd ds)")
     (auto simp: loop_test_def dispatch_round_def dispatch_loop_Cons serve_def Let_def case_prod_unfold future_of_def
        split: option.splits)

lemma round_pops: "length (waiters (snd (dispatch_round now ds))) = length (waiters (snd ds)) - 1"
  by (cases ds, cases "waiters (snd ds)")
     (auto simp: dispatch_round_def issue_def Let_def split: option.splits)

lemma rounds_pop: "length (waiters (snd ((dispatch_round now ^^ k) ds))) = length (waiters (snd ds)) - k"
  by (induction k) (simp_all add: round_pops)

lemma round_idle: "\<not> loop_test ds \<Longrightarrow> dispatch_round now ds = ds"
  by (cases ds) (simp add: loop_test_def dispatch_round_def)

lemma while_is_loop: "while_option loop_test (dispatch_round now) ds = Some (case_prod (dispatch_loop now) ds)"
proof (induction "length (waiters (snd ds))" arbitrary: ds rule: less_induct)
  case less
  show ?case
  proof (cases "loop_test ds")
    case True
    then have "length (waiters (snd (dispatch_round now ds))) < length (waiters (snd ds))"
      by (simp add: round_pops loop_test_def)
    from less [OF this] round_step [OF True] True show ?thesis by (simp add: while_option_unfold)
  next
    case False
    then show ?thesis
      by (cases ds) (simp add: while_option_unfold loop_test_def dispatch_loop_Nil)
  qed
qed

section \<open>Properties\<close>

text \<open>
  C16: the loop of \<open>_dispatch\<close> ends for every queue, waiters whose future is done or whose model has no
  capacity included: every round takes one waiter off the queue and puts none back, so it runs once per waiter,
  and what it leaves, with the deferred waiters pushed back, is the state after \<open>dispatch\<close>.
\<close>
theorem dispatch_terminates:
  "(\<exists>deferred s1. while_option loop_test (dispatch_round now) ([], s) = Some (deferred, s1)
      \<and> (deferred, s1) = (dispatch_round now ^^ queue_depth s) ([], s)
      \<and> dispatch now s = s1\<lparr>waiters := fold heappush deferred (waiters s1)\<rparr>)
   \<and> queue_depth (snd ((dispatch_round now ^^ k) ([], s))) = queue_depth s - k"
proof -
  obtain d s1 where run: "while_option loop_test (dispatch_round now) ([], s) = Some (d, s1)" "dispatch_loop now [] s = (d, s1)"
    using while_is_loop [of now "([], s)"] by (cases "dispatch_loop now [] s") simp
  have "case_prod (dispatch_loop now) ((dispatch_round now ^^ n) ([], s)) = (d, s1)" for n
    using run(2) round_step round_idle by (induction n) (simp_all, metis)
  then have "case_prod (dispatch_loop now) ((dispatch_round now ^^ queue_depth s) ([], s)) = (d, s1)" .
  moreover have "waiters (snd ((dispatch_round now ^^ queue_depth s) ([], s))) = []"
    using rounds_pop [of "queue_depth s" now "([], s)"] by (simp add: queue_depth_def)
  ultimately have "(dispatch_round now ^^ queue_depth s) ([], s) = (d, s1)"
    by (simp add: case_prod_unfold dispatch_loop_Nil)
  with run rounds_pop [of k now "([], s)"] show ?thesis by (simp add: dispatch_def queue_depth_def)
qed

end
