(* ===== verification/Wording.thy ===== *)
theory Wording
  imports Client Sanitise
begin

text \<open>
  What \<open>client/client.py\<close> makes of texts it is sent: the message of a refused request (\<open>_describe\<close>,
  \<open>_describe_stream\<close>) and the line that says who served an answer (\<open>Completion.served_by\<close>). Python's \<open>repr\<close> of
  floats, lists and dicts is an argument; the other values of an f-string are written out.
\<close>

section \<open>Formatting\<close>

definition shown :: "(json \<Rightarrow> string) \<Rightarrow> json \<Rightarrow> string" where
  "shown repr v =
     (case v of
        JStr s \<Rightarrow> s
      | JNull \<Rightarrow> ''None''
      | JBool b \<Rightarrow> if b then ''True'' else ''False''
      | JNum x \<Rightarrow> (case x of IntN n \<Rightarrow> show_int n | _ \<Rightarrow> repr v)
      | JList xs \<Rightarrow> repr v
      | JObj d \<Rightarrow> repr v)"

definition py_strip :: "string \<Rightarrow> string" where
  "py_strip s = rev (dropWhile py_isspace (rev (dropWhile py_isspace s)))"

section \<open>A refused request\<close>

text \<open>\<open>resp.json().get("error", {})\<close>, when every attribute used on the way is there.\<close>

definition error_of :: "json option \<Rightarrow> (string \<times> json) list option" where
  "error_of body =
     (case body of
        Some (JObj d) \<Rightarrow> (case obj_get_or d ''error'' (JObj []) of JObj e \<Rightarrow> Some e | _ \<Rightarrow> None)
      | _ \<Rightarrow> None)"

text \<open>The body as JSON, \<open>None\<close> when it is not, and as text.\<close>

definition describe :: "(json \<Rightarrow> string) \<Rightarrow> int \<Rightarrow> json option \<Rightarrow> string \<Rightarrow> string" where
  "describe repr status body txt =
     (case error_of body of
        Some e \<Rightarrow> py_strip (show_int status @ '' '' @ shown repr (obj_get_or e ''code'' (JStr []))
          @ '': '' @ shown repr (obj_get_or e ''message'' (JStr [])))
      | None \<Rightarrow> show_int status @ '': '' @ take 200 txt)"

definition describe_stream :: "(json \<Rightarrow> string) \<Rightarrow> pylib \<Rightarrow> (bytes \<Rightarrow> string) \<Rightarrow> bytes \<Rightarrow> int \<Rightarrow> string" where
  "describe_stream repr L decode raw status =
     (case error_of (loads_bytes L raw) of
        Some e \<Rightarrow> py_strip (show_int status @ '' '' @ shown repr (obj_get_or e ''code'' (JStr []))
          @ '': '' @ shown repr (obj_get_or e ''message'' (JStr [])))
      | None \<Rightarrow> show_int status @ '': '' @ take 200 (decode raw))"

section \<open>Who served an answer\<close>

definition served_by :: "(json \<Rightarrow> string) \<Rightarrow> completion \<Rightarrow> string" where
  "served_by repr c =
     cp_peer c @ '' ('' @ shown repr (cp_engine c) @ '' '' @ shown repr (cp_engine_version c) @ '', ''
       @ shown repr (cp_hw_class c) @ '')''"

section \<open>Lemmas\<close>

lemma dropWhile_keeps: "x \<in> set s \<Longrightarrow> \<not> P x \<Longrightarrow> x \<in> set (dropWhile P s)"
  by (induction s) auto

lemma strip_keeps: "x \<in> set s \<Longrightarrow> \<not> py_isspace x \<Longrightarrow> x \<in> set (py_strip s)"
  by (simp add: py_strip_def dropWhile_keeps)

lemma strip_length: "length (py_strip s) \<le> length s"
  unfolding py_strip_def length_rev by (metis length_dropWhile_le length_rev le_trans)

lemma describe_forms_agree: "describe_stream repr L decode raw status = describe repr status (loads_bytes L raw) (decode raw)"
  by (simp add: describe_stream_def describe_def)

text \<open>
  The texts are passed on as they are: every character but blanks at the ends of the coordinator's code and
  message, and of the peer's engine, version and hardware class, reaches the caller, who prints it. The
  other places that emit such texts drop what is not printable and bound the length.
\<close>
theorem wording_unsanitised:
  "(x \<in> set m \<and> \<not> py_isspace x \<longrightarrow>
      x \<in> set (describe repr status (Some (JObj [(''error'', JObj [(''code'', JStr cd), (''message'', JStr m)])])) txt))
   \<and> (x \<in> set m \<longrightarrow> x \<in> set (served_by repr (c\<lparr>cp_engine := JStr m\<rparr>)))
   \<and> (\<not> py_isprintable x \<longrightarrow> x \<notin> set (sanitise_message (JStr m)) \<and> x \<notin> set (sanitise_detail (JStr m)))"
  using clean_printable [of x "JStr m"]
  by (auto simp: describe_def error_of_def obj_get_or_def shown_def served_by_def sanitise_message_def sanitise_detail_def
      intro!: strip_keeps)

theorem wording_unsanitised_witness:
  "CHR 0x1B \<in> set (describe (\<lambda>v. []) 503 (Some (JObj [(''error'', JObj [(''code'', JStr ''x''), (''message'', JStr [CHR 0x1B, CHR ''['', CHR ''J''])])])) [])
   \<and> CHR 0x1B \<notin> set (sanitise_message (JStr [CHR 0x1B, CHR ''['', CHR ''J'']))"
  using wording_unsanitised [of "CHR 0x1B" "[CHR 0x1B, CHR ''['', CHR ''J'']" "\<lambda>v. []" 503 "''x''" "[]" blank_completion]
  by (simp add: py_isspace_def py_isprintable_def)

end
