(* ===== verification/WireTypes.thy ===== *)
theory WireTypes
  imports Federation Commands
begin

text \<open>
  A type system for the frames of a response stream, after the field lists of \<open>proto/envelope.py\<close>: what type
  each field has and whether it must be there. A frame is well typed when its fields are; the parsers accept
  exactly the well-typed frames, peers emit no others, the relay keeps the types, and well-typed streams
  do not take the client outside its documented errors.
\<close>

datatype field_ty = TVersion | TName | TCount | TFlag | TAny

fun has_type :: "field_ty \<Rightarrow> json \<Rightarrow> bool" where
  "has_type TVersion v = (v = JInt 1)"
| "has_type TName (JStr s) = (s \<noteq> [])"
| "has_type TCount (JNum (IntN n)) = (0 \<le> n)"
| "has_type TFlag (JBool b) = True"
| "has_type TAny v = True"
| "has_type _ _ = False"

text \<open>\<open>_CHUNK_FIELDS\<close> and \<open>_RECEIPT_FIELDS\<close>, each field with its type and whether it is required.\<close>

definition CHUNK_FIELDS :: "(string \<times> field_ty \<times> bool) list" where
  "CHUNK_FIELDS = [(''v'', TVersion, True), (''request_id'', TName, True), (''seq'', TCount, True),
     (''ciphertext'', TName, True), (''final'', TFlag, False)]"

definition RECEIPT_FIELDS :: "(string \<times> field_ty \<times> bool) list" where
  "RECEIPT_FIELDS = [(''v'', TVersion, True), (''request_id'', TName, True), (''prompt_tokens'', TCount, False),
     (''completion_tokens'', TCount, False), (''engine'', TAny, False), (''engine_version'', TAny, False),
     (''hw_class'', TAny, False), (''finish_reason'', TAny, False)]"

definition fits :: "(string \<times> json) list \<Rightarrow> (string \<times> field_ty \<times> bool) list \<Rightarrow> bool" where
  "fits d specs \<longleftrightarrow>
     list_all (\<lambda>(k, ty, required). case map_of d k of None \<Rightarrow> \<not> required | Some v \<Rightarrow> has_type ty v) specs"

datatype frame_ty = ChunkTy | ReceiptTy | ErrorTy | OtherTy

text \<open>Kinds the client does not know it ignores, so they have a type of their own.\<close>

definition frame_type :: "(string \<times> json) list \<Rightarrow> frame_ty option" where
  "frame_type d =
     (let kind = obj_get d ''kind'' in
      if kind = JStr KIND_CHUNK then (if fits d CHUNK_FIELDS then Some ChunkTy else None)
      else if kind = JStr KIND_RECEIPT then (if fits d RECEIPT_FIELDS then Some ReceiptTy else None)
      else if kind = JStr ''error'' then Some ErrorTy
      else Some OtherTy)"

definition well_typed :: "json \<Rightarrow> bool" where
  "well_typed j = (case j of JObj d \<Rightarrow> frame_type d \<noteq> None | _ \<Rightarrow> False)"

section \<open>The parsers check the types\<close>

lemma has_type_iff:
  "has_type TName v \<longleftrightarrow> (\<exists>s. v = JStr s \<and> s \<noteq> [])"
  "has_type TCount v \<longleftrightarrow> (\<exists>n. v = JInt n \<and> 0 \<le> n)"
  "has_type TFlag v \<longleftrightarrow> (\<exists>b. v = JBool b)"
proof -
  show "has_type TCount v \<longleftrightarrow> (\<exists>n. v = JInt n \<and> 0 \<le> n)"
  proof (cases v)
    case (JNum x)
    then show ?thesis by (cases x) simp_all
  qed simp_all
qed (cases v; simp)+

lemma fits_get:
  "map_of d k = None \<Longrightarrow> obj_get d k = JNull" "map_of d k = None \<Longrightarrow> obj_get_or d k v0 = v0"
  "map_of d k = Some v \<Longrightarrow> obj_get d k = v" "map_of d k = Some v \<Longrightarrow> obj_get_or d k v0 = v"
  by (simp_all add: obj_get_def obj_get_or_def)

lemma fits_simps [simp]:
  "fits d []"
  "fits d ((k, ty, True) # specs) \<longleftrightarrow> map_of d k \<noteq> None \<and> has_type ty (obj_get d k) \<and> fits d specs"
  "fits d ((k, TAny, False) # specs) \<longleftrightarrow> fits d specs"
  by (auto simp: fits_def fits_get split: option.splits)

lemma fits_default: "has_type ty w \<Longrightarrow> fits d ((k, ty, False) # specs) \<longleftrightarrow> has_type ty (obj_get_or d k w) \<and> fits d specs"
  by (auto simp: fits_def fits_get split: option.splits)

lemma some_get: "obj_get d k \<noteq> JNull \<Longrightarrow> map_of d k \<noteq> None"
  by (auto simp: obj_get_def split: option.splits)

lemma chunk_typed: "(\<exists>c. chunk_from_dict (JObj d) = Inr c) \<longleftrightarrow> fits d CHUNK_FIELDS"
proof -
  have fin: "fits d [(''final'', TFlag, False)] \<longleftrightarrow> has_type TFlag (obj_get_or d ''final'' (JBool False))"
    by (subst fits_default [where w = "JBool False"]) simp_all
  have "fits d CHUNK_FIELDS \<longleftrightarrow> obj_get d ''v'' = JInt 1 \<and> has_type TName (obj_get d ''request_id'') \<and> has_type TCount (obj_get d ''seq'')
      \<and> has_type TName (obj_get d ''ciphertext'') \<and> has_type TFlag (obj_get_or d ''final'' (JBool False))"
    unfolding CHUNK_FIELDS_def fits_simps(2) fin using some_get [of d] by (auto simp: has_type_iff)
  moreover have "(\<exists>c. chunk_from_dict (JObj d) = Inr c) \<longleftrightarrow> obj_get d ''v'' = JInt 1 \<and> has_type TName (obj_get d ''request_id'')
      \<and> has_type TCount (obj_get d ''seq'') \<and> has_type TName (obj_get d ''ciphertext'') \<and> has_type TFlag (obj_get_or d ''final'' (JBool False))"
    by (auto simp: chunk_from_dict_def rbind_Inr_iff has_type_iff as_object_def not_less split: option.splits if_splits)
  ultimately show ?thesis by simp
qed

lemma receipt_typed: "(\<exists>r. receipt_from_dict (JObj d) = Inr r) \<longleftrightarrow> fits d RECEIPT_FIELDS"
proof -
  have count: "fits d ((k, TCount, False) # specs) \<longleftrightarrow> has_type TCount (obj_get_or d k (JInt 0)) \<and> fits d specs" for k specs
    by (subst fits_default [where w = "JInt 0"]) simp_all
  have "fits d RECEIPT_FIELDS \<longleftrightarrow> obj_get d ''v'' = JInt 1 \<and> has_type TName (obj_get d ''request_id'')
      \<and> has_type TCount (obj_get_or d ''prompt_tokens'' (JInt 0)) \<and> has_type TCount (obj_get_or d ''completion_tokens'' (JInt 0))"
    unfolding RECEIPT_FIELDS_def fits_simps count using some_get [of d] by (auto simp: has_type_iff)
  moreover have "(\<exists>r. receipt_from_dict (JObj d) = Inr r) \<longleftrightarrow> obj_get d ''v'' = JInt 1 \<and> has_type TName (obj_get d ''request_id'')
      \<and> has_type TCount (obj_get_or d ''prompt_tokens'' (JInt 0)) \<and> has_type TCount (obj_get_or d ''completion_tokens'' (JInt 0))"
    by (auto simp: receipt_from_dict_def rbind_Inr_iff has_type_iff as_object_def)
  ultimately show ?thesis by simp
qed

section \<open>Well-typed streams\<close>

lemma typed_line:
  assumes "well_typed j" "client_line K master st (Json j) = Inl e" shows "is_client_error e"
proof -
  from assms(1) obtain d where d: "j = JObj d" "frame_type d \<noteq> None" by (auto simp: well_typed_def split: json.splits)
  have c: "\<exists>c. chunk_from_dict (JObj d) = Inr c" if "obj_get d ''kind'' = JStr KIND_CHUNK"
    using that d(2) by (auto simp: chunk_typed frame_type_def split: if_splits)
  have r: "\<exists>r. receipt_from_dict (JObj d) = Inr r" if "obj_get d ''kind'' = JStr KIND_RECEIPT"
    using that d(2) by (auto simp: receipt_typed frame_type_def KIND_CHUNK_def KIND_RECEIPT_def split: if_splits)
  show ?thesis
    using assms(2) c r by (auto simp: d(1) client_line_def decode_frame_def Let_def client_chunk_def is_client_error_def map_error_def
        split: if_splits sum.splits)
qed

lemma typed_loop:
  "list_all well_typed js \<Longrightarrow> snd (client_loop K master st (map Json js)) = Inl e \<Longrightarrow> is_client_error e"
proof (induction js arbitrary: st)
  case (Cons j js)
  then show ?case by (auto simp: case_prod_unfold Let_def split: sum.splits dest: typed_line)
qed simp

lemma typed_stream:
  "list_all well_typed js \<Longrightarrow> snd (client_receive K master (PeerStream (map Json js) None)) = Some e \<Longrightarrow> is_client_error e"
  using typed_loop [of js K master recv_start]
  by (auto simp: client_receive_def case_prod_unfold Let_def is_client_error_def split: sum.splits if_splits)

lemma chunk_well_typed: "chunk_ok c \<Longrightarrow> well_typed (chunk_to_dict c)"
  using chunk_codec.dec_enc [of c] chunk_typed
  by (auto simp: well_typed_def frame_type_def chunk_to_dict_def KIND_CHUNK_def KIND_RECEIPT_def)

lemma serve_items_chunks:
  "crypto_laws K \<Longrightarrow> request_id (jb_env j) \<noteq> [] \<Longrightarrow> list_all chunk_ok (fst (serve_items K j st items))"
proof (induction K j st items rule: serve_items.induct)
  case (3 K j st s items)
  then show ?case
    using chunk_ok_answer [OF 3(3) _ 3(4)] by (auto simp: case_prod_unfold Let_def split: sum.splits)
qed (auto simp: case_prod_unfold Let_def)

section \<open>Through the relay\<close>

text \<open>A line the client can get: a well-typed frame.\<close>

definition typed_wire :: "wire_line \<Rightarrow> bool" where
  "typed_wire x = (case x of Json j \<Rightarrow> well_typed j | _ \<Rightarrow> False)"

lemma typed_wires: "list_all typed_wire xs \<Longrightarrow> \<exists>js. xs = map Json js \<and> list_all well_typed js"
proof (induction xs)
  case (Cons x xs)
  then obtain js j where "xs = map Json js" "list_all well_typed js" "x = Json j" "well_typed j"
    by (auto simp: typed_wire_def split: wire_line.splits)
  then show ?case by (intro exI [of _ "j # js"]) simp
qed simp

lemma stream_events_items: "it \<in> set (fst (stream_events env l evs c)) \<Longrightarrow> \<exists>x. it = Line x \<and> YieldLine x \<in> set evs"
  by (induction env l evs c rule: stream_events.induct) (auto simp: case_prod_unfold Let_def split: if_splits)

lemma relayed_lines: "YieldLine x \<in> set (fst (relay_to_peer (PeerStream xs broken))) \<Longrightarrow> x \<in> set xs"
  unfolding relay_to_peer_def by simp (induction xs; auto simp: relay_line_def split: option.splits if_splits)

lemma error_frame_typed: "typed_wire (stream_line (ErrorFrame rid msg))"
  by (simp add: typed_wire_def stream_line_def well_typed_def frame_type_def KIND_CHUNK_def KIND_RECEIPT_def obj_get_def)

lemma relay_keeps_types:
  assumes "list_all well_typed js"
  shows "list_all typed_wire (map stream_line (fst (infer_stream w t env l (PeerStream (map Json js) broken) stop c)))"
proof -
  let ?evs = "fst (relay_to_peer (PeerStream (map Json js) broken))"
  have line: "typed_wire (stream_line it)" if "it \<in> set (fst (stream_events env l evs c))" "set evs \<subseteq> set ?evs" for it evs
  proof -
    from stream_events_items [OF that(1)] that(2) obtain x where "it = Line x" "YieldLine x \<in> set ?evs" by blast
    then show ?thesis
      using relayed_lines [of x "map Json js" broken] assms by (auto simp: stream_line_def typed_wire_def list_all_iff)
  qed
  have "typed_wire (stream_line it)" if "it \<in> set (fst (infer_stream w t env l (PeerStream (map Json js) broken) stop c))" for it
  proof -
    have "(\<exists>evs. it \<in> set (fst (stream_events env l evs c)) \<and> set evs \<subseteq> set ?evs) \<or> (\<exists>rid msg. it = ErrorFrame rid msg)"
      using that set_take_subset [of _ ?evs]
      by (auto simp: infer_stream_def case_prod_unfold Let_def split: option.splits if_splits bool.splits)
    then show ?thesis using line error_frame_typed by blast
  qed
  then show ?thesis by (simp add: list_all_iff)
qed

section \<open>Properties\<close>

text \<open>
  C25: type soundness of the response stream: the parsers accept exactly the frames whose fields have the types of
  the protocol's field lists; a peer emits only well-typed frames, whichever way its engine ends, as long as the
  engine's counts are no bools and not negative; every line the coordinator passes on of such a stream or adds to
  it is again a well-typed frame, wherever the transport breaks or the relay stops; and a client that reads the
  result, under any key, ends in success or in one of its documented errors, never in another exception.
\<close>
theorem frames_type_sound:
  assumes "crypto_laws K" "request_id (jb_env j) \<noteq> []" "items_ok items"
    and "peer_stream K cfg name version j (items, fin) = (frames, abort)"
    and "relayed = map stream_line (fst (infer_stream w t env l (PeerStream (map Json frames) broken) stop c))"
  shows "((\<exists>f. parse_frame d = Inr f) \<longleftrightarrow> frame_type d = Some ChunkTy \<or> frame_type d = Some ReceiptTy)
    \<and> list_all well_typed frames \<and> list_all typed_wire relayed
    \<and> (\<forall>e. snd (client_receive K master (PeerStream relayed None)) = Some e \<longrightarrow> is_client_error e)"
proof -
  have "(\<exists>f. parse_frame d = Inr f) \<longleftrightarrow> frame_type d = Some ChunkTy \<or> frame_type d = Some ReceiptTy"
    using chunk_typed [of d] receipt_typed [of d]
    by (auto simp: parse_frame_def frame_type_def rbind_Inr_iff Let_def KIND_CHUNK_def KIND_RECEIPT_def split: if_splits)
  moreover have "list_all well_typed frames"
  proof -
    obtain cs res where serve: "serve_items K j start_progress items = (cs, res)" by fastforce
    have cs: "list_all well_typed (map chunk_to_dict cs)"
      using serve_items_chunks [OF assms(1,2), of start_progress items] by (auto simp: serve list_all_iff chunk_well_typed)
    have last: "well_typed (chunk_to_dict (answer_chunk (jb_env j) sq ct True))" if "seal_chunk K [] (jb_master j) sq = Inr ct" for sq ct
      using chunk_ok_answer [OF assms(1) that assms(2)] by (rule chunk_well_typed)
    have rec: "well_typed (receipt_frame cfg name version j st)" if "res = Inr st" for st
    proof -
      have "\<forall>u. reported st = Some u \<longrightarrow> usage_ok u"
        using serve_items_reported [OF _ assms(3)] serve that by (fastforce simp: start_progress_def)
      with assms(2) obtain d where "receipt_frame cfg name version j st = JObj d" "obj_get d ''kind'' = JStr KIND_RECEIPT"
          "receipt_from_dict (JObj d) = Inr (receipt_of cfg name version j st)" by (rule receipt_parses)
      with receipt_typed [of d] show ?thesis by (auto simp: well_typed_def frame_type_def KIND_CHUNK_def KIND_RECEIPT_def)
    qed
    have err: "well_typed (peer_error_frame (jb_env j) msg)" for msg
      by (simp add: peer_error_frame_def well_typed_def frame_type_def KIND_CHUNK_def KIND_RECEIPT_def obj_get_def)
    show ?thesis
      using assms(4) cs last rec err serve by (auto simp: peer_stream_def Let_def split: sum.splits engine_end.splits)
  qed
  ultimately show ?thesis
    using relay_keeps_types [of frames w t env l broken stop c] typed_wires [of relayed] typed_stream by (auto simp: assms(5))
qed

theorem frames_type_sound_witness:
  "\<exists>frames. peer_stream demo_crypto (peer_defaults ''g'') (JStr ''mock'') (JStr []) demo_job (demo_items, Finished) = (frames, None)
     \<and> list_all well_typed frames"
proof -
  obtain frames where f: "peer_stream demo_crypto (peer_defaults ''g'') (JStr ''mock'') (JStr []) demo_job (demo_items, Finished) = (frames, None)"
    using demo_run [of Finished] by auto
  have "request_id (jb_env demo_job) \<noteq> []" by (simp add: demo_job_def demo_request_envelope_def)
  moreover have "items_ok demo_items" by (simp add: items_ok_def demo_items_def usage_ok_def)
  ultimately show ?thesis using frames_type_sound [OF demo_crypto_laws _ _ f refl] f by blast
qed

end
