(* ===== verification/ArgParse.thy ===== *)
theory ArgParse
  imports Commands "HOL-Library.Sublist"
begin

text \<open>
  What the three command lines of the program use of Python's \<open>argparse\<close> (that of 3.12, the oldest Python the
  project supports): options with one value or none, their unambiguous prefixes, \<open>--name=value\<close>, joined short
  flags, the separator \<open>--\<close>, at most one positional argument per parser, and subparsers. Parsing ends with an
  exit status (0 after \<open>--help\<close>, 2 after a usage error) or with the namespace and the arguments left over.
\<close>

section \<open>Parsers\<close>

datatype arg_value =
    NoneArg
  | StrArg string
  | IntArg int
  | NumArg pynum
  | BoolArg bool
  | ListArg "string list"

type_synonym namespace = "string \<Rightarrow> arg_value option"

datatype arg_type = PlainStr | AsInt | AsFloat

datatype opt_action = ShowHelp | StoreArg arg_type | StoreTrue | AppendArg

record opt =
  op_names :: "string list"
  op_action :: opt_action
  op_required :: bool
  op_default :: arg_value

text \<open>Without \<open>nargs\<close>, with \<open>nargs="?"\<close>, and the one that selects a subparser.\<close>

datatype positional = NoPos | OnePos string | is_MaybePos: MaybePos string | is_SubPos: SubPos string

record arg_parser =
  ap_opts :: "opt list"
  ap_pos :: positional
  ap_defaults :: namespace

text \<open>The attribute an option sets, from its last name, which is a long one.\<close>

definition dest_of :: "opt \<Rightarrow> string" where
  "dest_of d = map (\<lambda>c. if c = CHR ''-'' then CHR ''_'' else c) (drop 2 (last (op_names d)))"

definition takes_value :: "opt \<Rightarrow> bool" where
  "takes_value d = (case op_action d of StoreArg ty \<Rightarrow> True | AppendArg \<Rightarrow> True | _ \<Rightarrow> False)"

definition find_opt :: "opt list \<Rightarrow> string \<Rightarrow> opt option" where
  "find_opt opts n = find (\<lambda>d. n \<in> set (op_names d)) opts"

section \<open>Which arguments are options\<close>

text \<open>
  An option carries the name it was matched to and its explicit value, \<open>True\<close> when that came after \<open>=\<close> and
  not from joined short flags; an unknown option carries nothing.
\<close>

datatype token =
    ArgTok string
  | DashTok
  | OptTok string "(string \<times> opt \<times> (bool \<times> string) option) option"

primrec token_text :: "token \<Rightarrow> string" where
  "token_text (ArgTok s) = s"
| "token_text DashTok = ''--''"
| "token_text (OptTok s m) = s"

text \<open>\<open>^-\d+$|^-\d*\.\d+$\<close>, where \<open>$\<close> also matches before a last newline.\<close>

definition is_digit :: "char \<Rightarrow> bool" where
  "is_digit c \<longleftrightarrow> c \<in> set ''0123456789''"

definition negative_number :: "string \<Rightarrow> bool" where
  "negative_number s =
     (let t = (if s \<noteq> [] \<and> last s = CHR 0x0A then butlast s else s);
          frac = dropWhile is_digit (tl t)
      in t \<noteq> [] \<and> hd t = CHR ''-'' \<and>
         (if frac = [] then tl t \<noteq> []
          else hd frac = CHR ''.'' \<and> tl frac \<noteq> [] \<and> list_all is_digit (tl frac)))"

definition option_tuples :: "opt list \<Rightarrow> string \<Rightarrow> (string \<times> opt \<times> (bool \<times> string) option) list" where
  "option_tuples opts s =
     (let named = concat (map (\<lambda>d. map (\<lambda>n. (n, d)) (op_names d)) opts) in
      if s ! 1 = CHR ''-'' then
        map (\<lambda>(n, d). (n, d, if CHR ''='' \<in> set s then Some (True, snd (partition_eq s)) else None))
          (filter (\<lambda>(n, d). prefix (fst (partition_eq s)) n) named)
      else
        map (\<lambda>(n, d). (n, d, if n = take 2 s then Some (False, drop 2 s) else None))
          (filter (\<lambda>(n, d). n = take 2 s \<or> prefix s n) named))"

text \<open>\<open>None\<close> when the argument is the prefix of several options.\<close>

definition classify :: "opt list \<Rightarrow> string \<Rightarrow> token option" where
  "classify opts s =
     (if s = [] \<or> hd s \<noteq> CHR ''-'' then Some (ArgTok s)
      else (case find_opt opts s of
        Some d \<Rightarrow> Some (OptTok s (Some (s, d, None)))
      | None \<Rightarrow>
          if length s = 1 then Some (ArgTok s)
          else (case (if CHR ''='' \<in> set s then find_opt opts (fst (partition_eq s)) else None) of
            Some d \<Rightarrow> Some (OptTok s (Some (fst (partition_eq s), d, Some (True, snd (partition_eq s)))))
          | None \<Rightarrow>
              (case option_tuples opts s of
                 [] \<Rightarrow> if negative_number s \<or> CHR '' '' \<in> set s then Some (ArgTok s) else Some (OptTok s None)
               | [m] \<Rightarrow> Some (OptTok s (Some m))
               | m # m' # ms \<Rightarrow> None))))"

fun tokens :: "opt list \<Rightarrow> string list \<Rightarrow> token list option" where
  "tokens opts [] = Some []"
| "tokens opts (s # rest) =
     (if s = ''--'' then Some (DashTok # map ArgTok rest)
      else (case classify opts s of None \<Rightarrow> None | Some t \<Rightarrow> map_option ((#) t) (tokens opts rest)))"

section \<open>Consuming an option\<close>

text \<open>
  What one argument asks for: options with their values, and what is left of joined flags when one is
  unknown; or, in addition, an option that takes its value from the next argument.
\<close>

datatype option_run =
    BadRun
  | Complete "(opt \<times> string option) list" "string list"
  | NeedsNext "(opt \<times> string option) list" opt

function run_option :: "opt list \<Rightarrow> (opt \<times> string option) list \<Rightarrow> string \<Rightarrow> opt \<Rightarrow> (bool \<times> string) option \<Rightarrow> option_run" where
  "run_option opts acc n d None = (if takes_value d then NeedsNext acc d else Complete (acc @ [(d, None)]) [])"
| "run_option opts acc n d (Some (eq, e)) =
     (if takes_value d then Complete (acc @ [(d, Some e)]) []
      else if n ! 1 = CHR ''-'' \<or> e = [] \<or> eq \<or> hd e = CHR ''-'' then BadRun
      else (case find_opt opts [CHR ''-'', hd e] of
        None \<Rightarrow> Complete (acc @ [(d, None)]) [CHR ''-'' # e]
      | Some d' \<Rightarrow>
          run_option opts (acc @ [(d, None)]) [CHR ''-'', hd e] d'
            (if tl e = [] then None else if hd (tl e) = CHR ''='' then Some (True, tl (tl e)) else Some (False, tl e))))"
  by pat_completeness auto
termination
  by (relation "measure (\<lambda>(opts, acc, n, d, ex). case ex of None \<Rightarrow> 0 | Some (eq, e) \<Rightarrow> Suc (length e))")
     (auto simp: less_Suc_eq_0_disj neq_Nil_conv)

record parse_state =
  sc_ns :: namespace
  sc_seen :: "string list"
  sc_pos :: positional
  sc_extras :: "string list"

definition convert_arg :: "arg_type \<Rightarrow> string \<Rightarrow> arg_value option" where
  "convert_arg ty s =
     (case ty of
        PlainStr \<Rightarrow> Some (StrArg s)
      | AsInt \<Rightarrow> map_option IntArg (int_of_str s)
      | AsFloat \<Rightarrow> map_option NumArg (float_of_str s))"

definition set_arg :: "string \<Rightarrow> arg_value \<Rightarrow> parse_state \<Rightarrow> parse_state" where
  "set_arg k v st = st\<lparr>sc_ns := (sc_ns st)(k \<mapsto> v), sc_seen := k # sc_seen st\<rparr>"

definition list_arg :: "namespace \<Rightarrow> string \<Rightarrow> string list" where
  "list_arg ns k = (case ns k of Some (ListArg xs) \<Rightarrow> xs | _ \<Rightarrow> [])"

definition apply_option :: "opt \<Rightarrow> string \<Rightarrow> parse_state \<Rightarrow> parse_state command" where
  "apply_option d s st =
     (case op_action d of
        ShowHelp \<Rightarrow> Exit 0
      | StoreTrue \<Rightarrow> Go (set_arg (dest_of d) (BoolArg True) st)
      | StoreArg ty \<Rightarrow> (case convert_arg ty s of None \<Rightarrow> Exit 2 | Some v \<Rightarrow> Go (set_arg (dest_of d) v st))
      | AppendArg \<Rightarrow> Go (set_arg (dest_of d) (ListArg (list_arg (sc_ns st) (dest_of d) @ [s])) st))"

fun apply_options :: "(opt \<times> string option) list \<Rightarrow> parse_state \<Rightarrow> parse_state command" where
  "apply_options [] st = Go st"
| "apply_options ((d, v) # rest) st = cbind (apply_option d (case v of None \<Rightarrow> [] | Some s \<Rightarrow> s) st) (apply_options rest)"

section \<open>The loop over the arguments\<close>

type_synonym subparsers = "string \<Rightarrow> (string list \<Rightarrow> (namespace \<times> string list) command) option"

text \<open>A separator right after a positional argument belongs to it.\<close>

fun drop_dash :: "token list \<Rightarrow> token list" where
  "drop_dash (DashTok # toks) = toks"
| "drop_dash toks = toks"

lemma length_drop_dash [termination_simp]: "length (drop_dash toks) \<le> length toks"
  by (cases toks rule: drop_dash.cases) auto

definition extra :: "string list \<Rightarrow> parse_state \<Rightarrow> parse_state" where
  "extra ss st = st\<lparr>sc_extras := sc_extras st @ ss\<rparr>"

definition positional_arg :: "string \<Rightarrow> string \<Rightarrow> parse_state \<Rightarrow> parse_state" where
  "positional_arg k s st = (set_arg k (StrArg s) st)\<lparr>sc_pos := NoPos\<rparr>"

text \<open>A subparser gets all that follows its name, and what it binds overrides.\<close>

definition call_subparser :: "subparsers \<Rightarrow> string \<Rightarrow> string \<Rightarrow> token list \<Rightarrow> parse_state \<Rightarrow> parse_state command" where
  "call_subparser sub k name toks st =
     (case sub name of
        None \<Rightarrow> Exit 2
      | Some p \<Rightarrow> cbind (p (map token_text toks)) (\<lambda>(ns, left).
          let st' = positional_arg k name st in Go (extra left (st'\<lparr>sc_ns := sc_ns st' ++ ns\<rparr>))))"

text \<open>After the separator an expected positional argument is taken as it is; a subcommand is not looked for.\<close>

definition after_dash :: "positional \<Rightarrow> token list \<Rightarrow> (string \<times> string) option" where
  "after_dash pos toks =
     (case toks of
        ArgTok s # toks' \<Rightarrow> (case pos of OnePos k \<Rightarrow> Some (k, s) | MaybePos k \<Rightarrow> Some (k, s) | _ \<Rightarrow> None)
      | _ \<Rightarrow> None)"

lemma after_dash_Some:
  "after_dash pos toks = Some (k, s) \<Longrightarrow> \<exists>toks'. toks = ArgTok s # toks' \<and> (pos = OnePos k \<or> pos = MaybePos k)"
  by (auto simp: after_dash_def split: list.splits token.splits positional.splits)

function (sequential) scan :: "opt list \<Rightarrow> subparsers \<Rightarrow> token list \<Rightarrow> parse_state \<Rightarrow> parse_state command" where
  "scan opts sub [] st = Go st"
| "scan opts sub (ArgTok s # toks) st =
     (case sc_pos st of
        NoPos \<Rightarrow> scan opts sub toks (extra [s] st)
      | OnePos k \<Rightarrow> scan opts sub (drop_dash toks) (positional_arg k s st)
      | MaybePos k \<Rightarrow> scan opts sub (drop_dash toks) (positional_arg k s st)
      | SubPos k \<Rightarrow> call_subparser sub k s toks st)"
| "scan opts sub (DashTok # toks) st =
     (case after_dash (sc_pos st) toks of
        Some (k, s) \<Rightarrow> scan opts sub (tl toks) (positional_arg k s st)
      | None \<Rightarrow>
          if toks \<noteq> [] \<and> is_SubPos (sc_pos st) then Exit 2
          else scan opts sub toks (if toks = [] \<and> is_MaybePos (sc_pos st) then st\<lparr>sc_pos := NoPos\<rparr> else extra [''--''] st))"
| "scan opts sub (OptTok s None # toks) st = scan opts sub toks (extra [s] st)"
| "scan opts sub (OptTok s (Some (n, d, ex)) # toks) st =
     (case run_option opts [] n d ex of
        BadRun \<Rightarrow> Exit 2
      | Complete acts left \<Rightarrow> cbind (apply_options acts (extra left st)) (\<lambda>st'. scan opts sub toks st')
      | NeedsNext acts d' \<Rightarrow>
          (case toks of
             ArgTok v # toks' \<Rightarrow> cbind (apply_options (acts @ [(d', Some v)]) st) (\<lambda>st'. scan opts sub toks' st')
           | _ \<Rightarrow> Exit 2))"
  by pat_completeness auto
termination
  by (relation "measure (\<lambda>(opts, sub, toks, st). length toks)") (auto simp: le_imp_less_Suc length_drop_dash diff_less_Suc)

section \<open>Parsing\<close>

definition needed :: "arg_parser \<Rightarrow> parse_state \<Rightarrow> bool" where
  "needed P st \<longleftrightarrow>
     (\<exists>d \<in> set (ap_opts P). op_required d \<and> dest_of d \<notin> set (sc_seen st))
     \<or> (case sc_pos st of OnePos k \<Rightarrow> True | SubPos k \<Rightarrow> True | _ \<Rightarrow> False)"

definition initial_ns :: "arg_parser \<Rightarrow> namespace" where
  "initial_ns P =
     ap_defaults P ++ map_of (map (\<lambda>d. (dest_of d, op_default d)) (filter (\<lambda>d. op_action d \<noteq> ShowHelp) (ap_opts P)))
     ++ (case ap_pos P of NoPos \<Rightarrow> Map.empty | OnePos k \<Rightarrow> [k \<mapsto> NoneArg] | MaybePos k \<Rightarrow> [k \<mapsto> NoneArg] | SubPos k \<Rightarrow> [k \<mapsto> NoneArg])"

definition parse_known :: "arg_parser \<Rightarrow> subparsers \<Rightarrow> string list \<Rightarrow> (namespace \<times> string list) command" where
  "parse_known P sub argv =
     (case tokens (ap_opts P) argv of
        None \<Rightarrow> Exit 2
      | Some toks \<Rightarrow>
          cbind (scan (ap_opts P) sub toks \<lparr>sc_ns = initial_ns P, sc_seen = [], sc_pos = ap_pos P, sc_extras = []\<rparr>) (\<lambda>st.
          if needed P st then Exit 2 else Go (sc_ns st, sc_extras st)))"

definition parse_args :: "arg_parser \<Rightarrow> subparsers \<Rightarrow> string list \<Rightarrow> namespace command" where
  "parse_args P sub argv =
     cbind (parse_known P sub argv) (\<lambda>(ns, left). if left = [] then Go ns else Exit 2)"

section \<open>How parsing ends\<close>

text \<open>With a result, or with the exit status of the help or of a usage error.\<close>

definition usage_only :: "'a command \<Rightarrow> bool" where
  "usage_only m \<longleftrightarrow> (case m of Exit n \<Rightarrow> n = 0 \<or> n = 2 | Raised e \<Rightarrow> False | Go x \<Rightarrow> True)"

lemma usage_only_simps [simp]:
  "usage_only (Go x)" "usage_only (Exit n) \<longleftrightarrow> n = 0 \<or> n = 2" "\<not> usage_only (Raised e)"
  by (simp_all add: usage_only_def)

lemma cbind_assoc: "cbind (cbind m f) g = cbind m (\<lambda>x. cbind (f x) g)"
  by (cases m) simp_all

lemma usage_only_cbind [intro]: "usage_only m \<Longrightarrow> (\<And>x. m = Go x \<Longrightarrow> usage_only (f x)) \<Longrightarrow> usage_only (cbind m f)"
  by (cases m) auto

definition usage_sub :: "subparsers \<Rightarrow> bool" where
  "usage_sub sub \<longleftrightarrow> (\<forall>name p argv. sub name = Some p \<longrightarrow> usage_only (p argv))"

lemma usage_apply_option: "usage_only (apply_option d s st)"
  by (auto simp: apply_option_def split: opt_action.split option.split)

lemma usage_apply_options: "usage_only (apply_options acts st)"
  by (induction acts st rule: apply_options.induct) (auto simp: usage_apply_option)

lemma usage_call: "usage_sub sub \<Longrightarrow> usage_only (call_subparser sub k name toks st)"
  by (auto simp: call_subparser_def usage_sub_def Let_def split: option.split)

lemma usage_scan: "usage_sub sub \<Longrightarrow> usage_only (scan opts sub toks st)"
proof (induction opts sub toks st rule: scan.induct)
  case (2 opts sub s toks st)
  then show ?case by (cases "sc_pos st") (simp_all add: usage_call)
next
  case (3 opts sub toks st)
  then show ?case by (auto split: option.split)
next
  case (5 opts sub s n d ex toks st)
  show ?case
  proof (cases "run_option opts [] n d ex")
    case (Complete acts left)
    then show ?thesis using 5 by (auto intro!: usage_apply_options)
  next
    case (NeedsNext acts d')
    then show ?thesis using 5 by (cases toks; cases "hd toks") (auto intro!: usage_apply_options)
  qed simp
qed simp_all

lemma usage_parse_known: "usage_sub sub \<Longrightarrow> usage_only (parse_known P sub argv)"
  by (auto simp: parse_known_def usage_scan split: option.split)

lemma usage_parse_args: "usage_sub sub \<Longrightarrow> usage_only (parse_args P sub argv)"
  by (auto simp: parse_args_def usage_parse_known)

section \<open>Where values come from\<close>

lemma suffix_partition: "suffix (snd (partition_eq s)) s"
proof -
  have "s = takeWhile (\<lambda>c. c \<noteq> CHR ''='') s @ dropWhile (\<lambda>c. c \<noteq> CHR ''='') s" by simp
  then have "suffix (dropWhile (\<lambda>c. c \<noteq> CHR ''='') s) s" unfolding suffix_def by metis
  moreover have "suffix (drop 1 w) w" for w :: string by (rule suffix_drop)
  ultimately show ?thesis unfolding partition_eq_def by (metis snd_conv suffix_order.trans)
qed

lemma classify_text: "classify opts s = Some t \<Longrightarrow> token_text t = s"
  by (auto simp: classify_def split: if_splits option.splits list.splits)

lemma tokens_text: "tokens opts argv = Some toks \<Longrightarrow> map token_text toks = argv"
proof (induction argv arbitrary: toks)
  case (Cons s argv)
  then show ?case by (auto simp: classify_text o_def split: if_splits option.splits)
qed simp

lemma option_tuples_in:
  assumes "(n, d, ex) \<in> set (option_tuples opts s)"
  shows "d \<in> set opts" "n \<in> set (op_names d)" "ex = Some (b, e) \<Longrightarrow> suffix e s"
    "prefix (fst (partition_eq s)) n \<and> s ! 1 = CHR ''-'' \<or> (n = take 2 s \<or> prefix s n) \<and> s ! 1 \<noteq> CHR ''-''"
  using assms suffix_partition [of s]
  by (auto simp: option_tuples_def Let_def suffix_drop split: if_splits)

lemma find_opt_in: "find_opt opts n = Some d \<Longrightarrow> d \<in> set opts \<and> n \<in> set (op_names d)"
  by (auto simp: find_opt_def find_Some_iff)

text \<open>The ways in which an argument names an option.\<close>

lemma classify_cases:
  assumes "classify opts s = Some (OptTok t (Some m))"
  obtains d where "find_opt opts s = Some d" "m = (s, d, None)"
    | d where "find_opt opts (fst (partition_eq s)) = Some d" "CHR ''='' \<in> set s" "m = (fst (partition_eq s), d, Some (True, snd (partition_eq s)))"
    | "option_tuples opts s = [m]" "hd s = CHR ''-''" "2 \<le> length s"
proof -
  have s: "s \<noteq> []" "hd s = CHR ''-''" using assms by (auto simp: classify_def split: if_splits)
  show ?thesis
  proof (cases "find_opt opts s")
    case (Some d)
    then show ?thesis using assms s that(1) by (auto simp: classify_def)
  next
    case None
    then have len: "length s \<noteq> 1" using assms s by (auto simp: classify_def)
    show ?thesis
    proof (cases "if CHR ''='' \<in> set s then find_opt opts (fst (partition_eq s)) else None")
      case (Some d)
      then show ?thesis using assms s None len that(2) by (auto simp: classify_def split: if_splits)
    next
      case no: None
      have "option_tuples opts s = [m]"
        using assms s None len no by (auto simp: classify_def split: if_splits list.splits)
      moreover have "2 \<le> length s" using s len by (cases s) (auto simp: Suc_le_eq)
      ultimately show ?thesis using s that(3) by blast
    qed
  qed
qed

lemma classify_option:
  assumes "classify opts s = Some (OptTok t (Some (n, d, ex)))"
  shows "d \<in> set opts" "n \<in> set (op_names d)" "ex = Some (b, e) \<Longrightarrow> suffix e s"
proof -
  have tup: "(n, d, ex) \<in> set (option_tuples opts s)" if "option_tuples opts s = [(n, d, ex)]" using that by simp
  show "d \<in> set opts" "n \<in> set (op_names d)"
    using assms by (auto elim!: classify_cases dest: find_opt_in option_tuples_in(1,2) [OF tup])
  show "ex = Some (b, e) \<Longrightarrow> suffix e s"
    using assms by (auto elim!: classify_cases intro: suffix_partition option_tuples_in(3) [OF tup])
qed

lemma prefix_partition: "prefix (fst (partition_eq s)) s"
  by (auto simp: partition_eq_def prefix_def intro: takeWhile_dropWhile_id [symmetric])

text \<open>An abbreviation has at least a letter, because \<open>--help\<close> is always there.\<close>

lemma classify_long:
  assumes "classify opts s = Some (OptTok t (Some (n, d, ex)))" "n = CHR ''-'' # CHR ''-'' # c # w"
    and hlp: "h \<in> set opts" "''--help'' \<in> set (op_names h)" "n \<noteq> ''--help''"
  shows "prefix [CHR ''-'', CHR ''-'', c] s"
proof -
  have n: "prefix [CHR ''-'', CHR ''-'', c] n" using assms(2) by simp
  show ?thesis
    using assms(1)
  proof (cases rule: classify_cases)
    case (1 d)
    with n show ?thesis by simp
  next
    case (2 d)
    with n prefix_partition [of s] show ?thesis by (metis prod.inject prefix_order.trans)
  next
    case 3
    let ?q = "fst (partition_eq s)"
    from 3 have "(n, d, ex) \<in> set (option_tuples opts s)" by simp
    note in3 = option_tuples_in [OF this]
    obtain a b s' where s: "s = a # b # s'" using 3(3) by (cases s; cases "tl s") auto
    have "prefix ?q n" and dash: "s ! 1 = CHR ''-''" using in3(4) assms(2) by (auto simp: s)
    have "\<not> prefix ?q ''--help''"
    proof
      assume "prefix ?q ''--help''"
      then have "\<exists>m. (''--help'', m) \<in> set (option_tuples opts s)"
        using hlp(1,2) dash by (fastforce simp: option_tuples_def Let_def)
      with 3(1) hlp(3) show False by auto
    qed
    with \<open>prefix ?q n\<close> assms(2) have "prefix [CHR ''-'', CHR ''-'', c] ?q"
      by (auto simp: prefix_Cons)
    then show ?thesis using prefix_partition prefix_order.trans by blast
  qed
qed

text \<open>
  What holds of the state of a parser without subcommands all along: it is kept by positional arguments, by
  arguments left over and by the options of \<open>D\<close>, those named on the command line or by a short flag, which
  get values that end one of the arguments \<open>A\<close>.
\<close>

definition act_ok :: "opt set \<Rightarrow> string set \<Rightarrow> opt \<times> string option \<Rightarrow> bool" where
  "act_ok D A dv \<longleftrightarrow> fst dv \<in> D \<and> (takes_value (fst dv) \<longrightarrow> (\<exists>x. snd dv = Some x \<and> (\<exists>a \<in> A. suffix x a)))"

definition token_ok :: "opt set \<Rightarrow> string set \<Rightarrow> token \<Rightarrow> bool" where
  "token_ok D A t = (case t of
      ArgTok s \<Rightarrow> s \<in> A
    | DashTok \<Rightarrow> True
    | OptTok s m \<Rightarrow> (\<forall>n d ex. m = Some (n, d, ex) \<longrightarrow> d \<in> D \<and> (\<forall>b e. ex = Some (b, e) \<longrightarrow> (\<exists>a \<in> A. suffix e a))))"

lemma run_option_ok:
  assumes "\<forall>c d. find_opt opts [CHR ''-'', c] = Some d \<longrightarrow> d \<in> D"
  shows "list_all (act_ok D A) acc \<Longrightarrow> d \<in> D \<Longrightarrow> \<forall>b e. ex = Some (b, e) \<longrightarrow> (\<exists>a \<in> A. suffix e a) \<Longrightarrow>
     (case run_option opts acc n d ex of
        BadRun \<Rightarrow> True
      | Complete acts left \<Rightarrow> list_all (act_ok D A) acts
      | NeedsNext acts d' \<Rightarrow> list_all (act_ok D A) acts \<and> d' \<in> D)"
  using assms
proof (induction opts acc n d ex rule: run_option.induct)
  case (1 opts acc n d)
  then show ?case by (simp add: act_ok_def [of D A "(d, None)"])
next
  case (2 opts acc n d eq e)
  from 2(4) obtain a where a: "a \<in> A" "suffix e a" by auto
  have tl: "suffix (tl e) a" "suffix (tl (tl e)) a" using a(2) suffix_tl suffix_order.trans by blast+
  show ?case
  proof (cases "takes_value d \<or> n ! 1 = CHR ''-'' \<or> e = [] \<or> eq \<or> hd e = CHR ''-'' \<or> find_opt opts [CHR ''-'', hd e] = None")
    case True
    with 2(2,3) a show ?thesis by (auto simp: act_ok_def [of D A "(d, None)"] act_ok_def [of D A "(d, Some e)"])
  next
    case False
    then obtain d1 where d1: "find_opt opts [CHR ''-'', hd e] = Some d1" by auto
    let ?ex = "if tl e = [] then None else if hd (tl e) = CHR ''='' then Some (True, tl (tl e)) else Some (False, tl e)"
    have r: "run_option opts acc n d (Some (eq, e)) = run_option opts (acc @ [(d, None)]) [CHR ''-'', hd e] d1 ?ex"
      using False d1 by simp
    have acc: "list_all (act_ok D A) (acc @ [(d, None)])" using 2(2,3) False by (simp add: act_ok_def [of D A "(d, None)"])
    have ex: "\<forall>b e'. ?ex = Some (b, e') \<longrightarrow> (\<exists>a \<in> A. suffix e' a)" using tl a(1) by auto
    from 2(5) d1 have "d1 \<in> D" by blast
    from 2(1) [OF _ _ d1 acc this ex 2(5)] False show ?thesis unfolding r by blast
  qed
qed

lemma apply_options_keeps:
  assumes "\<And>d s st st'. I st \<Longrightarrow> d \<in> D \<Longrightarrow> takes_value d \<longrightarrow> (\<exists>a \<in> A. suffix s a) \<Longrightarrow> apply_option d s st = Go st' \<Longrightarrow> I st'"
  shows "list_all (act_ok D A) acts \<Longrightarrow> I st \<Longrightarrow> apply_options acts st = Go st' \<Longrightarrow> I st'"
proof (induction acts arbitrary: st)
  case (Cons dv acts)
  obtain d v where dv: "dv = (d, v)" by fastforce
  from Cons(4) obtain st1 where st1: "apply_option d (case v of None \<Rightarrow> [] | Some s \<Rightarrow> s) st = Go st1" "apply_options acts st1 = Go st'"
    by (auto simp: dv)
  have "I st1" using Cons(2,3) by (intro assms [OF _ _ _ st1(1)]) (auto simp: dv act_ok_def)
  with Cons st1(2) show ?case by simp
qed simp

lemma scan_keeps:
  assumes opt: "\<And>d s st st'. I st \<Longrightarrow> d \<in> D \<Longrightarrow> takes_value d \<longrightarrow> (\<exists>a \<in> A. suffix s a) \<Longrightarrow> apply_option d s st = Go st' \<Longrightarrow> I st'"
    and pos: "\<And>k s st. I st \<Longrightarrow> sc_pos st = OnePos k \<or> sc_pos st = MaybePos k \<Longrightarrow> I (positional_arg k s st)"
      "\<And>st. I st \<Longrightarrow> I (st\<lparr>sc_pos := NoPos\<rparr>)" "\<And>ss st. I st \<Longrightarrow> I (extra ss st)"
    and short: "\<forall>c d. find_opt opts [CHR ''-'', c] = Some d \<longrightarrow> d \<in> D"
  shows "scan opts sub toks st = Go st' \<Longrightarrow> sub = (\<lambda>name. None) \<Longrightarrow> I st \<Longrightarrow> list_all (token_ok D A) toks \<Longrightarrow> I st'"
  using short
proof (induction opts sub toks st arbitrary: st' rule: scan.induct)
  case (2 opts sub s toks st)
  have "list_all (token_ok D A) (drop_dash toks)" using 2(7) by (cases toks rule: drop_dash.cases) auto
  with 2 show ?case by (cases "sc_pos st") (auto simp: call_subparser_def intro: pos)
next
  case (3 opts sub toks st)
  show ?case
  proof (cases "after_dash (sc_pos st) toks")
    case None
    with 3 show ?thesis by (auto intro: pos split: if_splits)
  next
    case (Some ks)
    obtain k s where ks: "ks = (k, s)" by fastforce
    from after_dash_Some [OF Some [unfolded ks]] obtain toks' where
      toks: "toks = ArgTok s # toks'" "sc_pos st = OnePos k \<or> sc_pos st = MaybePos k" by blast
    with 3(2) [OF Some [unfolded ks] refl] 3(3-) Some ks pos(1) show ?thesis by auto
  qed
next
  case (4 opts sub s toks st)
  then show ?case by (auto intro: pos)
next
  case (5 opts sub s n d ex toks st)
  have "d \<in> D" "\<forall>b e. ex = Some (b, e) \<longrightarrow> (\<exists>a \<in> A. suffix e a)" using 5(6) by (auto simp: token_ok_def)
  note run = run_option_ok [OF 5(7), of A "[]", simplified, OF this, of n]
  show ?case
  proof (cases "run_option opts [] n d ex")
    case (Complete acts left)
    with 5(3) obtain st1 where st1: "apply_options acts (extra left st) = Go st1" "scan opts sub toks st1 = Go st'" by auto
    have "I st1"
      by (rule apply_options_keeps [where I = I and D = D and A = A, OF _ _ _ st1(1)]) (fact opt, use run 5(5) Complete pos(3) in simp_all)
    with 5 Complete st1(2) show ?thesis by auto
  next
    case (NeedsNext acts d')
    with 5(3) obtain v toks' where toks: "toks = ArgTok v # toks'" by (auto split: list.splits token.splits)
    with 5(3) NeedsNext obtain st1 where st1: "apply_options (acts @ [(d', Some v)]) st = Go st1" "scan opts sub toks' st1 = Go st'" by auto
    have "v \<in> A" using 5(6) toks by (simp add: token_ok_def)
    then have acts: "list_all (act_ok D A) (acts @ [(d', Some v)])" using run NeedsNext by (auto simp: act_ok_def)
    have "I st1" by (rule apply_options_keeps [where I = I and D = D and A = A, OF _ acts 5(5) st1(1)]) (fact opt)
    with 5 NeedsNext toks st1(2) show ?thesis by auto
  qed (use 5(3) in simp)
qed auto

text \<open>What the arguments of a command line are in such a parser.\<close>

lemma tokens_ok:
  "tokens opts argv = Some toks \<Longrightarrow> set argv \<subseteq> A \<Longrightarrow>
     (\<And>s t n d ex. s \<in> A \<Longrightarrow> classify opts s = Some (OptTok t (Some (n, d, ex))) \<Longrightarrow> d \<in> D) \<Longrightarrow> list_all (token_ok D A) toks"
proof (induction argv arbitrary: toks)
  case (Cons s argv)
  show ?case
  proof (cases "s = ''--''")
    case True
    with Cons(2) have toks: "toks = DashTok # map ArgTok argv" by simp
    from Cons(3) have "\<forall>x \<in> set argv. x \<in> A" by auto
    then show ?thesis by (simp add: toks token_ok_def list_all_iff)
  next
    case False
    with Cons(2) obtain t toks' where t: "classify opts s = Some t" "tokens opts argv = Some toks'" "toks = t # toks'"
      by (auto split: option.splits)
    have "token_ok D A t"
    proof (cases t)
      case (OptTok u m)
      then show ?thesis using Cons(3,4) t(1) classify_option(3) [of opts s u] by (fastforce simp: token_ok_def)
    qed (use Cons(3) classify_text [OF t(1)] in \<open>simp_all add: token_ok_def\<close>)
    with Cons t show ?thesis by auto
  qed
qed simp

text \<open>Both together, for a parser without subcommands.\<close>

lemma parse_known_keeps:
  assumes "parse_known P (\<lambda>name. None) argv = Go (ns, left)"
    and "I \<lparr>sc_ns = initial_ns P, sc_seen = [], sc_pos = ap_pos P, sc_extras = []\<rparr>"
    and "\<And>d s st st'. I st \<Longrightarrow> d \<in> D \<Longrightarrow> takes_value d \<longrightarrow> (\<exists>a \<in> set argv. suffix s a) \<Longrightarrow> apply_option d s st = Go st' \<Longrightarrow> I st'"
    and "\<And>k s st. I st \<Longrightarrow> sc_pos st = OnePos k \<or> sc_pos st = MaybePos k \<Longrightarrow> I (positional_arg k s st)"
      "\<And>st. I st \<Longrightarrow> I (st\<lparr>sc_pos := NoPos\<rparr>)" "\<And>ss st. I st \<Longrightarrow> I (extra ss st)"
    and "\<forall>c d. find_opt (ap_opts P) [CHR ''-'', c] = Some d \<longrightarrow> d \<in> D"
    and "\<And>s t n d ex. s \<in> set argv \<Longrightarrow> classify (ap_opts P) s = Some (OptTok t (Some (n, d, ex))) \<Longrightarrow> d \<in> D"
  shows "\<exists>st. I st \<and> sc_ns st = ns \<and> \<not> needed P st"
proof -
  from assms(1) obtain toks st where toks: "tokens (ap_opts P) argv = Some toks"
    and st: "scan (ap_opts P) (\<lambda>name. None) toks \<lparr>sc_ns = initial_ns P, sc_seen = [], sc_pos = ap_pos P, sc_extras = []\<rparr> = Go st"
      "\<not> needed P st" "ns = sc_ns st"
    by (auto simp: parse_known_def split: option.splits if_splits)
  have "list_all (token_ok D (set argv)) toks" using tokens_ok [OF toks order_refl, of D] assms(8) by blast
  then have "I st"
    by (rule scan_keeps [where I = I and D = D, OF _ _ _ _ assms(7) st(1) refl assms(2), rotated -1]) (fact assms(3-6))+
  with st show ?thesis by blast
qed

section \<open>Options written out\<close>

text \<open>The long name, with \<open>=\<close> and the value when there is one: what no other option can be mistaken for.\<close>

definition render_opt :: "opt \<Rightarrow> string \<Rightarrow> string" where
  "render_opt d v = (if takes_value d then last (op_names d) @ ''='' @ v else last (op_names d))"

definition proper_opts :: "opt list \<Rightarrow> bool" where
  "proper_opts opts \<longleftrightarrow> (\<forall>d \<in> set opts. find_opt opts (last (op_names d)) = Some d \<and> prefix ''--'' (last (op_names d))
     \<and> last (op_names d) \<noteq> ''--'' \<and> (\<forall>n \<in> set (op_names d). CHR ''='' \<notin> set n))"

definition rendered_tok :: "opt \<times> string \<Rightarrow> token" where
  "rendered_tok dv = OptTok (render_opt (fst dv) (snd dv))
     (Some (last (op_names (fst dv)), fst dv, if takes_value (fst dv) then Some (True, snd dv) else None))"

lemma classify_rendered:
  assumes "proper_opts opts" "d \<in> set opts"
  shows "classify opts (render_opt d v) = Some (rendered_tok (d, v))" "render_opt d v \<noteq> ''--''"
proof -
  let ?n = "last (op_names d)"
  have n: "find_opt opts ?n = Some d" using assms by (simp add: proper_opts_def)
  have d: "prefix ''--'' ?n" "?n \<noteq> ''--''" using assms by (simp_all add: proper_opts_def)
  have eq: "CHR ''='' \<notin> set ?n" using assms find_opt_in [OF n] by (auto simp: proper_opts_def)
  obtain w where w: "?n = CHR ''-'' # CHR ''-'' # w" using d by (auto simp: prefix_def)
  have "find_opt opts (?n @ ''='' @ v) = None"
    using assms(1) by (fastforce simp: proper_opts_def find_opt_def find_None_iff)
  then show "classify opts (render_opt d v) = Some (rendered_tok (d, v))"
    using n eq partition_pair [OF eq, of v] by (auto simp: classify_def render_opt_def rendered_tok_def w)
  show "render_opt d v \<noteq> ''--''" using d w by (auto simp: render_opt_def)
qed

lemma tokens_rendered:
  assumes "proper_opts opts" "fst ` set dvs \<subseteq> set opts"
  shows "tokens opts (map (\<lambda>(d, v). render_opt d v) dvs @ rest) = map_option ((@) (map rendered_tok dvs)) (tokens opts rest)"
  using assms(2)
proof (induction dvs)
  case (Cons dv dvs)
  obtain d v where dv: "dv = (d, v)" by fastforce
  with Cons(2) have "d \<in> set opts" by simp
  from classify_rendered [OF assms(1) this, of v] Cons show ?case by (simp add: dv option.map_comp comp_def)
qed (cases "tokens opts rest"; simp)

lemma scan_rendered:
  "scan opts sub (map rendered_tok dvs @ toks) st =
     cbind (apply_options (map (\<lambda>(d, v). (d, Some (if takes_value d then v else []))) dvs) st) (\<lambda>st'. scan opts sub toks st')"
proof (induction dvs arbitrary: st)
  case (Cons dv dvs)
  obtain d v where dv: "dv = (d, v)" by fastforce
  have "extra [] st = st" by (simp add: extra_def)
  with Cons show ?case by (auto simp: dv rendered_tok_def cbind_assoc)
qed simp

lemma apply_options_append: "apply_options (xs @ ys) st = cbind (apply_options xs st) (apply_options ys)"
proof (induction xs arbitrary: st)
  case (Cons x xs)
  then have "apply_options (xs @ ys) = (\<lambda>st. cbind (apply_options xs st) (apply_options ys))" by blast
  then show ?case by (cases x) (simp add: cbind_assoc)
qed simp

section \<open>Subcommands\<close>

lemma apply_option_Go:
  assumes "apply_option d s st = Go st'"
  obtains v where "st' = set_arg (dest_of d) v st" "op_action d = StoreArg PlainStr \<Longrightarrow> v = StrArg s"
    "op_action d = AppendArg \<Longrightarrow> v = ListArg (list_arg (sc_ns st) (dest_of d) @ [s])" "op_action d \<noteq> ShowHelp"
  using assms that by (auto simp: apply_option_def convert_arg_def split: opt_action.splits option.splits arg_type.splits)

lemma apply_options_pos: "apply_options acts st = Go st' \<Longrightarrow> sc_pos st' = sc_pos st"
proof (induction acts st rule: apply_options.induct)
  case (2 d v acts st)
  then show ?case by (auto simp: set_arg_def elim!: apply_option_Go)
qed simp

lemma extra_simps [simp]: "sc_pos (extra ss st) = sc_pos st" "sc_ns (extra ss st) = sc_ns st" "sc_seen (extra ss st) = sc_seen st"
  "sc_extras (extra ss st) = sc_extras st @ ss"
  by (simp_all add: extra_def)

text \<open>A parser with subcommands ends in one of them, which gets arguments of the command line.\<close>

definition delegated :: "subparsers \<Rightarrow> string set \<Rightarrow> parse_state \<Rightarrow> bool" where
  "delegated sub A st \<longleftrightarrow> (\<exists>name p rest ns left base. sub name = Some p \<and> p rest = Go (ns, left) \<and> set rest \<subseteq> A
     \<and> sc_ns st = base ++ ns \<and> set left \<subseteq> set (sc_extras st))"

lemma delegated_insert: "delegated sub A st \<Longrightarrow> delegated sub (insert x A) st"
  unfolding delegated_def by (meson subset_insertI2)

lemma scan_subcommand:
  "scan opts sub toks st = Go st' \<Longrightarrow> sc_pos st = SubPos k \<Longrightarrow> sc_pos st' = SubPos k \<or> delegated sub (token_text ` set toks) st'"
proof (induction opts sub toks st arbitrary: st' rule: scan.induct)
  case (2 opts sub s toks st)
  from 2(4,5) obtain p ns left where p: "sub s = Some p" "p (map token_text toks) = Go (ns, left)"
    "st' = extra left ((positional_arg k s st)\<lparr>sc_ns := sc_ns (positional_arg k s st) ++ ns\<rparr>)"
    by (auto simp: call_subparser_def Let_def split: option.splits)
  have "set (map token_text toks) \<subseteq> token_text ` set (ArgTok s # toks)" by auto
  moreover have "sc_ns st' = sc_ns (positional_arg k s st) ++ ns" "set left \<subseteq> set (sc_extras st')"
    by (simp_all add: p(3) extra_def)
  ultimately show ?case using p(1,2) unfolding delegated_def by blast
next
  case (3 opts sub toks st)
  have "after_dash (sc_pos st) toks = None" using 3(4) by (auto simp: after_dash_def split: list.split token.split)
  with 3(3,4) have "toks = []" "st' = extra [''--''] st" by (auto split: if_splits)
  with 3(4) show ?case by simp
next
  case (4 opts sub s toks st)
  from 4(1) [of st'] 4(2,3) show ?case by (auto intro: delegated_insert)
next
  case (5 opts sub s n d ex toks st)
  show ?case
  proof (cases "run_option opts [] n d ex")
    case (Complete acts left)
    with 5(3) obtain st1 where st1: "apply_options acts (extra left st) = Go st1" "scan opts sub toks st1 = Go st'" by auto
    have "sc_pos st1 = SubPos k" using apply_options_pos [OF st1(1)] 5(4) by simp
    from 5(1) [OF Complete st1(2) this] show ?thesis by (auto intro: delegated_insert)
  next
    case (NeedsNext acts d')
    with 5(3) obtain v toks' where toks: "toks = ArgTok v # toks'" by (auto split: list.splits token.splits)
    with 5(3) NeedsNext obtain st1 where st1: "apply_options (acts @ [(d', Some v)]) st = Go st1" "scan opts sub toks' st1 = Go st'" by auto
    have "sc_pos st1 = SubPos k" using apply_options_pos [OF st1(1)] 5(4) by simp
    from 5(2) [OF NeedsNext toks refl st1(2) this] show ?thesis unfolding toks by (auto intro: delegated_insert)
  qed (use 5(3) in simp)
qed simp

lemma parse_subcommand:
  assumes "parse_known P sub argv = Go (ns, [])" "ap_pos P = SubPos k"
  obtains name p rest ns' base where "sub name = Some p" "p rest = Go (ns', [])" "set rest \<subseteq> set argv" "ns = base ++ ns'"
proof -
  from assms obtain toks st where toks: "tokens (ap_opts P) argv = Some toks"
    and st: "scan (ap_opts P) sub toks \<lparr>sc_ns = initial_ns P, sc_seen = [], sc_pos = SubPos k, sc_extras = []\<rparr> = Go st"
      "\<not> needed P st" "ns = sc_ns st" "sc_extras st = []"
    by (auto simp: parse_known_def split: option.splits if_splits)
  have "sc_pos st \<noteq> SubPos k" using st(2) by (auto simp: needed_def)
  with scan_subcommand [OF st(1), of k] st(3,4) obtain name p rest ns' base where
    "sub name = Some p" "p rest = Go (ns', [])" "set rest \<subseteq> token_text ` set toks" "ns = base ++ ns'"
    by (auto simp: delegated_def)
  moreover have "token_text ` set toks = set argv" using tokens_text [OF toks] by (metis set_map)
  ultimately show ?thesis using that by blast
qed

text \<open>The attribute the positional argument sets.\<close>

definition pos_key :: "positional \<Rightarrow> string option" where
  "pos_key pos = (case pos of NoPos \<Rightarrow> None | OnePos k \<Rightarrow> Some k | MaybePos k \<Rightarrow> Some k | SubPos k \<Rightarrow> Some k)"

lemma pos_key_simps [simp]: "pos_key NoPos = None" "pos_key (OnePos k) = Some k" "pos_key (MaybePos k) = Some k"
  by (simp_all add: pos_key_def)

lemma positional_arg_simps [simp]: "sc_pos (positional_arg k s st) = NoPos" "sc_ns (positional_arg k s st) = (sc_ns st)(k \<mapsto> StrArg s)"
  "sc_seen (positional_arg k s st) = k # sc_seen st"
  by (simp_all add: positional_arg_def set_arg_def)

end
