(* ===== verification/CommandLine.thy ===== *)
theory CommandLine
  imports ArgParse Startup
begin

text \<open>
  The command lines of the three programs: the option tables of \<open>client/cli.py\<close>, \<open>peer/__main__.py\<close>,
  \<open>coordinator/__main__.py\<close> and \<open>tlsconfig.py\<close>, the arguments each command gets from them, and \<open>main\<close> of
  \<open>commonweal\<close> from the argument vector to the exit status and what the machine holds afterwards. All files are in
  one file system, in which several paths may lead to one file and writing may be refused.
\<close>

section \<open>Option tables\<close>

definition help_opt :: opt where
  "help_opt = \<lparr>op_names = [''-h'', ''--help''], op_action = ShowHelp, op_required = False, op_default = NoneArg\<rparr>"

definition value_opt :: "string \<Rightarrow> arg_type \<Rightarrow> arg_value \<Rightarrow> opt" where
  "value_opt n ty v = \<lparr>op_names = [n], op_action = StoreArg ty, op_required = False, op_default = v\<rparr>"

definition required_opt :: "string \<Rightarrow> arg_type \<Rightarrow> opt" where
  "required_opt n ty = \<lparr>op_names = [n], op_action = StoreArg ty, op_required = True, op_default = NoneArg\<rparr>"

definition flag_opt :: "string list \<Rightarrow> opt" where
  "flag_opt ns = \<lparr>op_names = ns, op_action = StoreTrue, op_required = False, op_default = BoolArg False\<rparr>"

definition admin_key_opt :: opt where
  "admin_key_opt = \<lparr>op_names = [''--admin-key''], op_action = AppendArg, op_required = False, op_default = ListArg []\<rparr>"

definition add_client_tls_args :: "opt list" where
  "add_client_tls_args = [value_opt ''--ca-bundle'' PlainStr NoneArg, value_opt ''--client-cert'' PlainStr NoneArg,
     value_opt ''--client-key'' PlainStr NoneArg, flag_opt [''--insecure'']]"

definition add_server_tls_args :: "opt list" where
  "add_server_tls_args = [value_opt ''--tls-cert'' PlainStr NoneArg, value_opt ''--tls-key'' PlainStr NoneArg,
     value_opt ''--tls-client-ca'' PlainStr NoneArg]"

definition command_parser :: "string \<Rightarrow> opt list \<Rightarrow> positional \<Rightarrow> arg_parser" where
  "command_parser f opts pos = \<lparr>ap_opts = help_opt # opts, ap_pos = pos, ap_defaults = [''func'' \<mapsto> StrArg f]\<rparr>"

definition keygen_parser :: arg_parser where
  "keygen_parser = command_parser ''_cmd_keygen'' [flag_opt [''--force''], flag_opt [''--keyring'']] (OnePos ''member_id'')"

definition keyring_migrate_parser :: arg_parser where
  "keyring_migrate_parser = command_parser ''_cmd_keyring_migrate'' [] NoPos"

definition whoami_parser :: arg_parser where
  "whoami_parser = command_parser ''_cmd_whoami'' [] NoPos"

definition roster_init_parser :: arg_parser where
  "roster_init_parser = command_parser ''_cmd_roster_init''
     [value_opt ''--out'' PlainStr (StrArg ''roster.json''), value_opt ''--updated'' PlainStr (StrArg ''1970-01-01T00:00:00Z'')]
     (OnePos ''federation_id'')"

definition roster_sign_parser :: arg_parser where
  "roster_sign_parser = command_parser ''_cmd_roster_sign'' [] (OnePos ''roster'')"

definition contribute_parser :: arg_parser where
  "contribute_parser = command_parser ''_cmd_contribute''
     ([required_opt ''--roster'' PlainStr, admin_key_opt, required_opt ''--peer-id'' PlainStr, required_opt ''--resident-gb'' AsFloat,
       value_opt ''--coordinator'' PlainStr (StrArg ''http://127.0.0.1:8080''), value_opt ''--interval'' AsFloat (NumArg (Flt 30))]
      @ add_client_tls_args) NoPos"

definition chat_parser :: arg_parser where
  "chat_parser = command_parser ''_cmd_chat''
     ([value_opt ''--coordinator'' PlainStr (StrArg ''http://127.0.0.1:8080''), required_opt ''--roster'' PlainStr, admin_key_opt,
       required_opt ''--model'' PlainStr, value_opt ''--max-tokens'' AsInt (IntArg 512),
       value_opt ''--temperature'' AsFloat (NumArg (Flt DEFAULT_TEMPERATURE)), flag_opt [''-q'', ''--quiet'']]
      @ add_client_tls_args) (MaybePos ''prompt'')"

definition roster_parser :: arg_parser where
  "roster_parser = \<lparr>ap_opts = [help_opt], ap_pos = SubPos ''roster_command'', ap_defaults = Map.empty\<rparr>"

text \<open>The default identity path lies in the home directory: an argument.\<close>

definition commonweal_parser :: "string \<Rightarrow> arg_parser" where
  "commonweal_parser home =
     \<lparr>ap_opts = [help_opt, value_opt ''--identity'' PlainStr (StrArg home)], ap_pos = SubPos ''command'', ap_defaults = Map.empty\<rparr>"

definition leaf :: "arg_parser \<Rightarrow> string list \<Rightarrow> (namespace \<times> string list) command" where
  "leaf P = parse_known P (\<lambda>name. None)"

definition roster_commands :: "subparsers" where
  "roster_commands = map_of [(''init'', leaf roster_init_parser), (''sign'', leaf roster_sign_parser)]"

definition commonweal_commands :: "subparsers" where
  "commonweal_commands = map_of
     [(''keygen'', leaf keygen_parser), (''keyring-migrate'', leaf keyring_migrate_parser), (''whoami'', leaf whoami_parser),
      (''roster'', parse_known roster_parser (roster_commands)),
      (''contribute'', leaf contribute_parser), (''chat'', leaf chat_parser)]"

definition commonweal_args :: "string \<Rightarrow> string list \<Rightarrow> namespace command" where
  "commonweal_args home argv = parse_args (commonweal_parser home) (commonweal_commands) argv"

section \<open>The arguments of the commands\<close>

definition str_arg :: "namespace \<Rightarrow> string \<Rightarrow> string" where
  "str_arg ns k = (case ns k of Some (StrArg s) \<Rightarrow> s | _ \<Rightarrow> [])"

definition maybe_arg :: "namespace \<Rightarrow> string \<Rightarrow> string option" where
  "maybe_arg ns k = (case ns k of Some (StrArg s) \<Rightarrow> Some s | _ \<Rightarrow> None)"

definition bool_arg :: "namespace \<Rightarrow> string \<Rightarrow> bool" where
  "bool_arg ns k \<longleftrightarrow> ns k = Some (BoolArg True)"

definition num_arg :: "namespace \<Rightarrow> string \<Rightarrow> pynum" where
  "num_arg ns k = (case ns k of Some (NumArg x) \<Rightarrow> x | _ \<Rightarrow> IntN 0)"

definition int_arg :: "namespace \<Rightarrow> string \<Rightarrow> int" where
  "int_arg ns k = (case ns k of Some (IntArg n) \<Rightarrow> n | _ \<Rightarrow> 0)"

definition client_tls_of :: "namespace \<Rightarrow> client_tls_args" where
  "client_tls_of ns = \<lparr>a_ca_bundle = maybe_arg ns ''ca_bundle'', a_client_cert = maybe_arg ns ''client_cert'',
     a_client_key = maybe_arg ns ''client_key'', a_insecure = bool_arg ns ''insecure''\<rparr>"

definition server_tls_of :: "namespace \<Rightarrow> server_tls_args" where
  "server_tls_of ns = \<lparr>a_tls_cert = maybe_arg ns ''tls_cert'', a_tls_key = maybe_arg ns ''tls_key'',
     a_tls_client_ca = maybe_arg ns ''tls_client_ca''\<rparr>"

record contribute_args =
  ct_roster :: string
  ct_admin_key :: "string list"
  ct_peer_id :: string
  ct_resident_gb :: pynum
  ct_coordinator :: string
  ct_interval :: pynum
  ct_tls :: client_tls_args

record chat_args =
  cx_prompt :: "string option"
  cx_coordinator :: string
  cx_roster :: string
  cx_admin_key :: "string list"
  cx_model :: string
  cx_max_tokens :: int
  cx_temperature :: pynum
  cx_quiet :: bool
  cx_tls :: client_tls_args

text \<open>The member id, \<open>--force\<close> and \<open>--keyring\<close>; the federation id, \<open>--out\<close> and \<open>--updated\<close>.\<close>

datatype cli_call =
    Keygen string bool bool
  | KeyringMigrate
  | Whoami
  | RosterInit string string string
  | RosterSign string
  | Contribute contribute_args
  | Chat chat_args

definition call_of :: "namespace \<Rightarrow> cli_call" where
  "call_of ns =
     (let f = str_arg ns ''func'' in
      if f = ''_cmd_keygen'' then Keygen (str_arg ns ''member_id'') (bool_arg ns ''force'') (bool_arg ns ''keyring'')
      else if f = ''_cmd_keyring_migrate'' then KeyringMigrate
      else if f = ''_cmd_whoami'' then Whoami
      else if f = ''_cmd_roster_init'' then RosterInit (str_arg ns ''federation_id'') (str_arg ns ''out'') (str_arg ns ''updated'')
      else if f = ''_cmd_roster_sign'' then RosterSign (str_arg ns ''roster'')
      else if f = ''_cmd_contribute'' then
        Contribute \<lparr>ct_roster = str_arg ns ''roster'', ct_admin_key = list_arg ns ''admin_key'', ct_peer_id = str_arg ns ''peer_id'',
          ct_resident_gb = num_arg ns ''resident_gb'', ct_coordinator = str_arg ns ''coordinator'',
          ct_interval = num_arg ns ''interval'', ct_tls = client_tls_of ns\<rparr>
      else
        Chat \<lparr>cx_prompt = maybe_arg ns ''prompt'', cx_coordinator = str_arg ns ''coordinator'', cx_roster = str_arg ns ''roster'',
          cx_admin_key = list_arg ns ''admin_key'', cx_model = str_arg ns ''model'', cx_max_tokens = int_arg ns ''max_tokens'',
          cx_temperature = num_arg ns ''temperature'', cx_quiet = bool_arg ns ''quiet'', cx_tls = client_tls_of ns\<rparr>)"

definition parse_cli :: "string \<Rightarrow> string list \<Rightarrow> (string \<times> cli_call) command" where
  "parse_cli home argv = cbind (commonweal_args home argv) (\<lambda>ns. Go (str_arg ns ''identity'', call_of ns))"

section \<open>Running a command\<close>

text \<open>
  The file system: where a path leads, what reading the file there gives, the folder a file is in with those above
  it, which folders there are, and the files that cannot be opened for writing whatever folders there are. A document
  stands for the JSON text it is written as. The keychain and the two kinds of database are beside it.
\<close>

record machine =
  mc_resolve :: "string \<Rightarrow> string"
  mc_files :: "string \<Rightarrow> read_error + json"
  mc_folders :: "string \<Rightarrow> string list"
  mc_is_folder :: "string \<Rightarrow> bool"
  mc_denied :: "string \<Rightarrow> bool"
  mc_keychain :: "(string, json) dict"
  mc_keychain_usable :: bool
  mc_keychain_fails :: bool
  mc_ledgers :: "string \<Rightarrow> database_error + ledger"
  mc_logs :: "string \<Rightarrow> database_error + arrival list"

definition read_at :: "machine \<Rightarrow> string \<Rightarrow> read_error + json" where
  "read_at m path = mc_files m (mc_resolve m path)"

definition put_file :: "string \<Rightarrow> json \<Rightarrow> machine \<Rightarrow> machine" where
  "put_file path doc m = m\<lparr>mc_files := (mc_files m)(mc_resolve m path := Inr doc)\<rparr>"

text \<open>What \<open>write_text\<close> raises.\<close>

definition write_error :: "machine \<Rightarrow> string \<Rightarrow> read_error option" where
  "write_error m path =
     (let f = mc_resolve m path in
      if \<not> list_all (mc_is_folder m) (mc_folders m f) then Some FileNotFound
      else if mc_denied m f then Some OtherOsError
      else None)"

text \<open>\<open>mkdir(parents=True, exist_ok=True)\<close> for the folder of a path.\<close>

definition make_folders :: "string \<Rightarrow> machine \<Rightarrow> machine" where
  "make_folders path m = m\<lparr>mc_is_folder := (\<lambda>d. mc_is_folder m d \<or> d \<in> set (mc_folders m (mc_resolve m path)))\<rparr>"

definition store_at :: "machine \<Rightarrow> string \<Rightarrow> id_store" where
  "store_at m path = \<lparr>id_file = read_at m path, keychain = mc_keychain m, keychain_usable = mc_keychain_usable m,
     keychain_write_fails = mc_keychain_fails m\<rparr>"

text \<open>
  What \<open>Identity.save\<close> does to the machine when the store is to become \<open>s\<close>: the keychain comes first, then the folder
  and the file, which may be refused. \<open>True\<close> says the file was written.
\<close>

definition put_store :: "string \<Rightarrow> id_store \<Rightarrow> machine \<Rightarrow> bool \<times> machine" where
  "put_store path s m =
     (let m1 = m\<lparr>mc_keychain := keychain s\<rparr>; f = mc_resolve m path in
      if mc_denied m f then (False, m1)
      else (True, (make_folders path m1)\<lparr>mc_files := (mc_files m)(f := id_file s)\<rparr>))"

text \<open>What comes from outside: random values, standard input, the network, the file system's answers.\<close>

record surroundings =
  su_seed :: bytes
  su_priv :: bytes
  su_stdin :: string
  su_exists :: "string \<Rightarrow> bool"
  su_decode :: "bytes \<Rightarrow> string"
  su_entropy :: client_entropy
  su_lease :: "int \<times> json option"
  su_answer :: "json \<Rightarrow> peer_answer"
  su_beats :: "(string \<times> pynum \<times> int option) list"

text \<open>How the command ended, the machine after it, the text and the documents it printed, the heartbeats it sent.\<close>

record cli_run =
  ru_end :: "unit command"
  ru_machine :: machine
  ru_chat :: string
  ru_printed :: "json option"
  ru_beats :: "contribute_event list"

definition finished :: "'a command \<Rightarrow> unit command" where
  "finished m = cbind m (\<lambda>x. Exit 0)"

definition ended :: "'a command \<Rightarrow> machine \<Rightarrow> cli_run" where
  "ended c m = \<lparr>ru_end = finished (cli_main c), ru_machine = m, ru_chat = [], ru_printed = None, ru_beats = []\<rparr>"

definition printed :: "json command \<Rightarrow> machine \<Rightarrow> cli_run" where
  "printed c m = (ended c m)\<lparr>ru_printed := (case c of Go doc \<Rightarrow> Some doc | _ \<Rightarrow> None)\<rparr>"

definition written :: "string \<Rightarrow> json command \<Rightarrow> machine \<Rightarrow> cli_run" where
  "written path c m =
     (case c of
        Go doc \<Rightarrow> (case write_error m path of None \<Rightarrow> ended c (put_file path doc m) | Some e \<Rightarrow> ended (Raised (FromRead e) :: unit command) m)
      | _ \<Rightarrow> ended c m)"

text \<open>An overflow in a heartbeat's timestamp or residency leaves \<open>contribute\<close> as an exception.\<close>

definition run_contribute :: "crypto \<Rightarrow> surroundings \<Rightarrow> id_store \<Rightarrow> contribute_args \<Rightarrow> machine \<Rightarrow> cli_run" where
  "run_contribute K su s a m =
     (case cmd_contribute K s (ct_admin_key a) (read_at m (ct_roster a)) (su_exists su) (ct_tls a) (ct_peer_id a) (ct_resident_gb a) of
        Go plan \<Rightarrow>
          (let (evs, err) = contribute_loop K (id_sign_seed (cn_identity plan)) (id_member (cn_identity plan)) (ct_peer_id a)
                              (ct_resident_gb a) 0 0 (su_beats su)
           in (ended (case err of None \<Rightarrow> Go () | Some e \<Rightarrow> Raised (FromValue e)) m)\<lparr>ru_beats := evs\<rparr>)
      | c \<Rightarrow> ended c m)"

definition run_chat :: "crypto \<Rightarrow> surroundings \<Rightarrow> id_store \<Rightarrow> chat_args \<Rightarrow> machine \<Rightarrow> cli_run" where
  "run_chat K su s a m =
     (let r = cmd_chat K (su_decode su) s (cx_admin_key a) (read_at m (cx_roster a)) (su_exists su) (cx_tls a) (cx_quiet a)
                (chat_request (cx_model a) (chat_prompt (cx_prompt a) (su_stdin su)) (cx_max_tokens a) (cx_temperature a))
                (su_entropy su) (su_lease su) (su_answer su)
      in (ended (ch_end r) m)\<lparr>ru_chat := ch_stdout r\<rparr>)"

text \<open>
  The \<open>OSError\<close> of a file that \<open>Identity.save\<close> cannot write leaves \<open>keygen\<close> as an exception; \<open>keyring-migrate\<close> catches
  it. A migration that saved anything changed the file.
\<close>

definition run_call :: "crypto \<Rightarrow> surroundings \<Rightarrow> string \<Rightarrow> cli_call \<Rightarrow> machine \<Rightarrow> cli_run" where
  "run_call K su path call m =
     (let s = store_at m path in
      case call of
        Keygen mid force kr \<Rightarrow>
          (let (c, s') = cmd_keygen K force kr mid (su_seed su) (su_priv su) s in
           case c of
             Go entry \<Rightarrow>
               (case put_store path s' m of
                  (True, m') \<Rightarrow> printed c m'
                | (False, m') \<Rightarrow> ended (Raised (FromRead OtherOsError) :: unit command) m')
           | _ \<Rightarrow> ended c m)
      | KeyringMigrate \<Rightarrow>
          (let (c, s') = cmd_keyring_migrate s in
           if id_file s' = id_file s then ended c m
           else (case put_store path s' m of
                   (True, m') \<Rightarrow> ended c m'
                 | (False, m') \<Rightarrow> ended (Exit 1 :: unit command) m'))
      | Whoami \<Rightarrow> printed (cmd_whoami s) m
      | RosterInit fid out upd \<Rightarrow> written out (cmd_roster_init fid upd s) m
      | RosterSign ro \<Rightarrow> written ro (cmd_roster_sign K s (read_at m ro)) m
      | Contribute a \<Rightarrow> run_contribute K su s a m
      | Chat a \<Rightarrow> run_chat K su s a m)"

definition commonweal_main :: "crypto \<Rightarrow> string \<Rightarrow> surroundings \<Rightarrow> string list \<Rightarrow> machine \<Rightarrow> cli_run" where
  "commonweal_main K home su argv m =
     (case parse_cli home argv of
        Go (path, call) \<Rightarrow> run_call K su path call m
      | Exit n \<Rightarrow> (ended (Exit n :: unit command) m)
      | Raised e \<Rightarrow> (ended (Raised e :: unit command) m))"

section \<open>The daemons\<close>

definition peer_parser :: arg_parser where
  "peer_parser = \<lparr>ap_opts = [help_opt, required_opt ''--roster'' PlainStr, admin_key_opt, required_opt ''--identity'' PlainStr,
       required_opt ''--peer-id'' PlainStr, value_opt ''--coordinator'' PlainStr NoneArg,
       value_opt ''--engine'' PlainStr (StrArg (''{'' @ CHR 0x22 # ''kind'' @ CHR 0x22 # '':'' @ CHR 0x22 # ''mock'' @ CHR 0x22 # ''}'')),
       value_opt ''--resident-gb'' AsFloat (NumArg (Flt 0)), value_opt ''--hw-class'' PlainStr (StrArg ''unknown''),
       value_opt ''--host'' PlainStr (StrArg ''127.0.0.1''), value_opt ''--port'' AsInt (IntArg 9101),
       value_opt ''--readiness-window'' AsFloat (NumArg (Flt 60)), value_opt ''--probe-interval'' AsFloat (NumArg (Flt 15)),
       flag_opt [''--no-inference-probe'']] @ add_server_tls_args @ add_client_tls_args,
     ap_pos = NoPos, ap_defaults = Map.empty\<rparr>"

text \<open>A window or an interval that is not finite is not modelled: the result is \<open>None\<close>.\<close>

definition finite_arg :: "namespace \<Rightarrow> string \<Rightarrow> rat option" where
  "finite_arg ns k = (case num_arg ns k of Flt r \<Rightarrow> Some r | IntN n \<Rightarrow> Some (of_int n) | _ \<Rightarrow> None)"

definition peer_args_of :: "namespace \<Rightarrow> peer_args option" where
  "peer_args_of ns =
     (case (finite_arg ns ''readiness_window'', finite_arg ns ''probe_interval'') of
        (Some window, Some interval) \<Rightarrow>
          Some \<lparr>pa_admin_key = list_arg ns ''admin_key'', pa_peer_id = str_arg ns ''peer_id'', pa_coordinator = maybe_arg ns ''coordinator'',
            pa_engine = str_arg ns ''engine'', pa_resident_gb = num_arg ns ''resident_gb'', pa_hw_class = str_arg ns ''hw_class'',
            pa_readiness_window = window, pa_probe_interval = interval, pa_no_inference_probe = bool_arg ns ''no_inference_probe'',
            pa_server = server_tls_of ns, pa_client = client_tls_of ns\<rparr>
      | _ \<Rightarrow> None)"

text \<open>The state to serve with, and where to listen.\<close>

definition peer_command :: "crypto \<Rightarrow> pylib \<Rightarrow> (string \<Rightarrow> bool) \<Rightarrow> machine \<Rightarrow> (int \<times> json option) option \<Rightarrow> string list
    \<Rightarrow> (peer_args \<times> peer_setup \<times> string \<times> int) command option" where
  "peer_command K L exists m backend argv =
     (case parse_args peer_parser (\<lambda>name. None) argv of
        Exit n \<Rightarrow> Some (Exit n)
      | Raised e \<Rightarrow> Some (Raised e)
      | Go ns \<Rightarrow> map_option (\<lambda>a.
          cbind (peer_main K L exists a (read_at m (str_arg ns ''roster'')) (store_at m (str_arg ns ''identity'')) backend) (\<lambda>st.
          Go (a, st, str_arg ns ''host'', int_arg ns ''port''))) (peer_args_of ns))"

definition coordinator_parser :: arg_parser where
  "coordinator_parser = \<lparr>ap_opts = [help_opt, required_opt ''--roster'' PlainStr, admin_key_opt, value_opt ''--roster-version'' AsInt NoneArg,
       value_opt ''--ledger'' PlainStr (StrArg ''commonweal-ledger.db''),
       value_opt ''--concurrency-log'' PlainStr (StrArg ''commonweal-concurrency.db''),
       value_opt ''--host'' PlainStr (StrArg ''127.0.0.1''), value_opt ''--port'' AsInt (IntArg 8080),
       value_opt ''--max-queue'' AsInt (IntArg 32)] @ add_server_tls_args @ add_client_tls_args,
     ap_pos = NoPos, ap_defaults = Map.empty\<rparr>"

definition maybe_int :: "namespace \<Rightarrow> string \<Rightarrow> int option" where
  "maybe_int ns k = (case ns k of Some (IntArg n) \<Rightarrow> Some n | _ \<Rightarrow> None)"

definition coordinator_args_of :: "namespace \<Rightarrow> coordinator_args" where
  "coordinator_args_of ns = \<lparr>ca_admin_key = list_arg ns ''admin_key'', ca_roster_version = maybe_int ns ''roster_version'',
     ca_max_queue = int_arg ns ''max_queue'', ca_server = server_tls_of ns, ca_client = client_tls_of ns\<rparr>"

text \<open>The databases are those at the paths of \<open>--ledger\<close> and \<open>--concurrency-log\<close>; \<open>:memory:\<close> is a new one.\<close>

definition ledger_at :: "machine \<Rightarrow> string \<Rightarrow> database_error + ledger" where
  "ledger_at m path = (if path = '':memory:'' then Inr empty_ledger else mc_ledgers m (mc_resolve m path))"

definition log_at :: "machine \<Rightarrow> string \<Rightarrow> database_error + arrival list" where
  "log_at m path = (if path = '':memory:'' then Inr [] else mc_logs m (mc_resolve m path))"

definition coordinator_command :: "crypto \<Rightarrow> (string \<Rightarrow> bool) \<Rightarrow> machine \<Rightarrow> (nat \<Rightarrow> string) \<Rightarrow> string list
    \<Rightarrow> ((coordinator \<times> server_tls option \<times> tls_config) \<times> string \<times> int) command" where
  "coordinator_command K exists m toks argv =
     cbind (parse_args coordinator_parser (\<lambda>name. None) argv) (\<lambda>ns.
     cbind (coordinator_main K exists (coordinator_args_of ns) (read_at m (str_arg ns ''roster''))
            (ledger_at m (str_arg ns ''ledger'')) (log_at m (str_arg ns ''concurrency_log'')) toks) (\<lambda>c.
     Go (c, str_arg ns ''host'', int_arg ns ''port'')))"

lemma peer_command_Go:
  "peer_command K L exists m backend argv = Some (Go (a, st, host, port)) \<longleftrightarrow>
     (\<exists>ns. parse_args peer_parser (\<lambda>name. None) argv = Go ns \<and> peer_args_of ns = Some a
        \<and> peer_main K L exists a (read_at m (str_arg ns ''roster'')) (store_at m (str_arg ns ''identity'')) backend = Go st
        \<and> host = str_arg ns ''host'' \<and> port = int_arg ns ''port'')"
  by (auto simp: peer_command_def split: command.split)

text \<open>Neither daemon starts without a pinned key on its command line.\<close>

lemma daemons_need_pins:
  "peer_command K L exists m backend argv = Some (Go (a, st, host, port)) \<Longrightarrow> pa_admin_key a \<noteq> []"
  "coordinator_command K exists m toks argv = Go r \<Longrightarrow>
     \<exists>ns. parse_args coordinator_parser (\<lambda>name. None) argv = Go ns \<and> list_arg ns ''admin_key'' \<noteq> []"
  by (auto simp: peer_command_Go peer_main_def coordinator_command_def coordinator_main_def coordinator_args_of_def split: if_splits)

section \<open>Commands and their parsers\<close>

lemmas table_defs = command_parser_def help_opt_def value_opt_def required_opt_def flag_opt_def admin_key_opt_def
  add_client_tls_args_def add_server_tls_args_def dest_of_def

lemma usage_leaf: "usage_only (leaf P argv)"
  by (simp add: leaf_def usage_parse_known usage_sub_def)

lemma usage_commonweal: "usage_sub (commonweal_commands)"
proof -
  have "usage_sub (roster_commands)" by (auto simp: usage_sub_def roster_commands_def usage_leaf split: if_splits)
  then show ?thesis
    by (auto simp: usage_sub_def commonweal_commands_def usage_leaf usage_parse_known split: if_splits)
qed

text \<open>What no option or positional argument of a parser sets keeps its default.\<close>

lemma leaf_keeps:
  assumes "leaf P argv = Go (ns, left)" "I \<lparr>sc_ns = initial_ns P, sc_seen = [], sc_pos = ap_pos P, sc_extras = []\<rparr>"
    and "\<And>d s st st'. I st \<Longrightarrow> d \<in> D \<Longrightarrow> takes_value d \<longrightarrow> (\<exists>a \<in> set argv. suffix s a) \<Longrightarrow> apply_option d s st = Go st' \<Longrightarrow> I st'"
    and "\<And>k s st. I st \<Longrightarrow> sc_pos st = OnePos k \<or> sc_pos st = MaybePos k \<Longrightarrow> I (positional_arg k s st)"
      "\<And>st. I st \<Longrightarrow> I (st\<lparr>sc_pos := NoPos\<rparr>)" "\<And>ss st. I st \<Longrightarrow> I (extra ss st)"
    and "\<forall>c d. find_opt (ap_opts P) [CHR ''-'', c] = Some d \<longrightarrow> d \<in> D"
    and "\<And>s t n d ex. s \<in> set argv \<Longrightarrow> classify (ap_opts P) s = Some (OptTok t (Some (n, d, ex))) \<Longrightarrow> d \<in> D"
  shows "\<exists>st. I st \<and> sc_ns st = ns \<and> \<not> needed P st"
  using parse_known_keeps [of P argv ns left I D] assms unfolding leaf_def by blast

lemma leaf_untouched:
  assumes "leaf P argv = Go (ns, left)" "\<forall>d \<in> set (ap_opts P). dest_of d \<noteq> k" "pos_key (ap_pos P) \<noteq> Some k"
  shows "ns k = initial_ns P k"
proof -
  have "\<exists>st. (sc_ns st k = initial_ns P k \<and> pos_key (sc_pos st) \<noteq> Some k) \<and> sc_ns st = ns \<and> \<not> needed P st"
    by (rule leaf_keeps [OF assms(1), where D = "set (ap_opts P)"])
       (use assms(2,3) classify_option(1) find_opt_in in \<open>auto simp: set_arg_def elim!: apply_option_Go\<close>)
  then show ?thesis by auto
qed

text \<open>Which command a command line selects.\<close>

lemma leaf_func:
  assumes "leaf P argv = Go (ns, left)" "P = command_parser f opts pos" "\<forall>d \<in> set opts. dest_of d \<noteq> ''func''"
    and "pos_key pos \<noteq> Some ''func''"
  shows "ns ''func'' = Some (StrArg f)"
proof -
  have "map_of (map (\<lambda>d. (dest_of d, op_default d)) (filter (\<lambda>d. op_action d \<noteq> ShowHelp) opts)) ''func'' = None"
    using assms(3) by (auto simp: map_of_eq_None_iff)
  moreover have "dest_of help_opt \<noteq> ''func''" by (simp add: table_defs)
  ultimately show ?thesis
    using leaf_untouched [OF assms(1), of "''func''"] assms(2-4)
    by (auto simp: command_parser_def initial_ns_def map_add_def help_opt_def pos_key_def split: positional.splits)
qed

lemma chat_selected:
  assumes "commonweal_args home argv = Go ns" "call_of ns = Chat a"
  obtains rest ns' base where "leaf chat_parser rest = Go (ns', [])" "set rest \<subseteq> set argv" "ns = base ++ ns'"
proof -
  from assms(1) have "parse_known (commonweal_parser home) (commonweal_commands) argv = Go (ns, [])"
    by (auto simp: commonweal_args_def parse_args_def split: if_splits)
  then obtain name p rest ns' base where p: "commonweal_commands name = Some p" "p rest = Go (ns', [])" "set rest \<subseteq> set argv" "ns = base ++ ns'"
    by (rule parse_subcommand [where k = "''command''"]) (simp add: commonweal_parser_def)
  have other: False
    if "P = command_parser f opts pos" "leaf P argv' = Go (ns'', left)" "ns = base' ++ ns''"
      "\<forall>d \<in> set opts. dest_of d \<noteq> ''func''" "pos_key pos \<noteq> Some ''func''" "f \<noteq> ''_cmd_chat''"
      "f \<in> {''_cmd_keygen'', ''_cmd_keyring_migrate'', ''_cmd_whoami'', ''_cmd_roster_init'', ''_cmd_roster_sign'', ''_cmd_contribute''}"
    for P f opts pos argv' ns'' left base'
    using leaf_func [OF that(2,1,4,5)] that(3,7) assms(2) by (auto simp: call_of_def str_arg_def Let_def)
  from p(1) consider "p = leaf keygen_parser" | "p = leaf keyring_migrate_parser" | "p = leaf whoami_parser"
    | "p = parse_known roster_parser (roster_commands)" | "p = leaf contribute_parser" | "p = leaf chat_parser"
    by (auto simp: commonweal_commands_def split: if_splits)
  then show ?thesis
  proof cases
    case 1
    with other [OF keygen_parser_def, of rest ns' "[]" base] p show ?thesis by (simp add: table_defs)
  next
    case 2
    with other [OF keyring_migrate_parser_def, of rest ns' "[]" base] p show ?thesis by simp
  next
    case 3
    with other [OF whoami_parser_def, of rest ns' "[]" base] p show ?thesis by simp
  next
    case 4
    with p(2) obtain name2 p2 rest2 ns2 base2 where p2: "roster_commands name2 = Some p2" "p2 rest2 = Go (ns2, [])" "ns' = base2 ++ ns2"
      by (auto simp: roster_parser_def elim: parse_subcommand [where k = "''roster_command''"])
    then have "ns = (base ++ base2) ++ ns2" using p(4) by simp
    with other [OF roster_init_parser_def, of rest2 ns2 "[]"] other [OF roster_sign_parser_def, of rest2 ns2 "[]"] p2
    show ?thesis by (auto simp: roster_commands_def table_defs split: if_splits)
  next
    case 5
    with other [OF contribute_parser_def, of rest ns' "[]" base] p show ?thesis by (simp add: table_defs)
  next
    case 6
    with p that show ?thesis by blast
  qed
qed

section \<open>Where the pins of a chat come from\<close>

lemma chat_table:
  "d \<in> set (ap_opts chat_parser) \<Longrightarrow> dest_of d = ''admin_key'' \<Longrightarrow> op_action d = AppendArg"
  "d \<in> set (ap_opts chat_parser) \<Longrightarrow> dest_of d = ''roster'' \<Longrightarrow> op_action d = StoreArg PlainStr \<and> op_names d = [''--roster'']"
  "find_opt (ap_opts chat_parser) [CHR ''-'', c] = Some d \<Longrightarrow> d \<in> set (ap_opts chat_parser) \<and> dest_of d \<noteq> ''roster''"
  "\<exists>d \<in> set (ap_opts chat_parser). op_required d \<and> dest_of d = ''roster''"
  "help_opt \<in> set (ap_opts chat_parser)" "''--help'' \<in> set (op_names help_opt)" "ap_pos chat_parser = MaybePos ''prompt''"
  by (auto simp: chat_parser_def table_defs find_opt_def split: if_splits)

lemma chat_initial:
  "initial_ns chat_parser ''admin_key'' = Some (ListArg [])" "initial_ns chat_parser ''roster'' = Some NoneArg"
  by (simp_all add: chat_parser_def table_defs initial_ns_def)

lemma chat_leaf_keeps:
  assumes "leaf chat_parser argv = Go (ns, left)" "J (initial_ns chat_parser) []" "D \<subseteq> set (ap_opts chat_parser)"
    and "\<And>m seen d v s. J m seen \<Longrightarrow> d \<in> D \<Longrightarrow> takes_value d \<longrightarrow> (\<exists>a \<in> set argv. suffix s a) \<Longrightarrow>
        (op_action d = StoreArg PlainStr \<Longrightarrow> v = StrArg s) \<Longrightarrow> (op_action d = AppendArg \<Longrightarrow> v = ListArg (list_arg m (dest_of d) @ [s])) \<Longrightarrow>
        J (m(dest_of d \<mapsto> v)) (dest_of d # seen)"
    and "\<And>m seen s. J m seen \<Longrightarrow> J (m(''prompt'' \<mapsto> StrArg s)) (''prompt'' # seen)"
    and "\<forall>c d. find_opt (ap_opts chat_parser) [CHR ''-'', c] = Some d \<longrightarrow> d \<in> D"
    and "\<And>s t n d ex. s \<in> set argv \<Longrightarrow> classify (ap_opts chat_parser) s = Some (OptTok t (Some (n, d, ex))) \<Longrightarrow> d \<in> D"
  shows "\<exists>st. J ns (sc_seen st) \<and> \<not> needed chat_parser st"
proof -
  have "\<exists>st. (pos_key (sc_pos st) \<in> {None, Some ''prompt''} \<and> J (sc_ns st) (sc_seen st)) \<and> sc_ns st = ns \<and> \<not> needed chat_parser st"
  proof (rule leaf_keeps [OF assms(1) _ _ _ _ _ assms(6,7)])
    fix d s and st st' :: parse_state
    assume "pos_key (sc_pos st) \<in> {None, Some ''prompt''} \<and> J (sc_ns st) (sc_seen st)" "d \<in> D"
      "takes_value d \<longrightarrow> (\<exists>a \<in> set argv. suffix s a)" "apply_option d s st = Go st'"
    then show "pos_key (sc_pos st') \<in> {None, Some ''prompt''} \<and> J (sc_ns st') (sc_seen st')"
      using assms(4) [of "sc_ns st" "sc_seen st" d s] by (elim apply_option_Go) (auto simp: set_arg_def)
  qed (use assms(2,5) chat_table(7) in auto)
  then show ?thesis by auto
qed

lemma chat_admin_keys:
  assumes "leaf chat_parser argv = Go (ns, left)"
  shows "\<forall>x \<in> set (list_arg ns ''admin_key''). \<exists>s \<in> set argv. suffix x s"
proof -
  have "\<exists>st. (\<forall>x \<in> set (list_arg ns ''admin_key''). \<exists>s \<in> set argv. suffix x s) \<and> \<not> needed chat_parser st"
  proof (rule chat_leaf_keeps [OF assms, where D = "set (ap_opts chat_parser)"])
    fix m :: namespace and d v s
    assume "\<forall>x \<in> set (list_arg m ''admin_key''). \<exists>s \<in> set argv. suffix x s" "d \<in> set (ap_opts chat_parser)"
      "takes_value d \<longrightarrow> (\<exists>a \<in> set argv. suffix s a)" "op_action d = AppendArg \<Longrightarrow> v = ListArg (list_arg m (dest_of d) @ [s])"
    then show "\<forall>x \<in> set (list_arg (m(dest_of d \<mapsto> v)) ''admin_key''). \<exists>s \<in> set argv. suffix x s"
      using chat_table(1) [of d] by (cases "dest_of d = ''admin_key''") (auto simp: list_arg_def takes_value_def)
  qed (auto simp: list_arg_def chat_initial dest: chat_table(3) classify_option(1))
  then show ?thesis by blast
qed

lemma chat_roster_path:
  assumes "leaf chat_parser argv = Go (ns, left)" "ns ''roster'' = Some (StrArg x)"
  shows "\<exists>s \<in> set argv. suffix x s"
proof -
  have "\<exists>st. (\<forall>x. ns ''roster'' = Some (StrArg x) \<longrightarrow> (\<exists>s \<in> set argv. suffix x s)) \<and> \<not> needed chat_parser st"
  proof (rule chat_leaf_keeps [OF assms(1), where D = "set (ap_opts chat_parser)"])
    fix m :: namespace and d v s
    assume "\<forall>x. m ''roster'' = Some (StrArg x) \<longrightarrow> (\<exists>s \<in> set argv. suffix x s)" "d \<in> set (ap_opts chat_parser)"
      "takes_value d \<longrightarrow> (\<exists>a \<in> set argv. suffix s a)" "op_action d = StoreArg PlainStr \<Longrightarrow> v = StrArg s"
    then show "\<forall>x. (m(dest_of d \<mapsto> v)) ''roster'' = Some (StrArg x) \<longrightarrow> (\<exists>s \<in> set argv. suffix x s)"
      using chat_table(2) [of d] by (cases "dest_of d = ''roster''") (auto simp: takes_value_def)
  qed (auto simp: chat_initial dest: chat_table(3) classify_option(1))
  with assms(2) show ?thesis by blast
qed

text \<open>\<open>--roster\<close> is the only option of \<open>chat\<close> that begins with \<open>--r\<close>, and it is required.\<close>

lemma chat_names_roster:
  assumes "leaf chat_parser argv = Go (ns, left)"
  shows "\<exists>s \<in> set argv. prefix ''--r'' s"
proof (rule ccontr)
  assume none: "\<not> ?thesis"
  let ?D = "{d \<in> set (ap_opts chat_parser). dest_of d \<noteq> ''roster''}"
  have D: "d \<in> ?D" if "s \<in> set argv" "classify (ap_opts chat_parser) s = Some (OptTok t (Some (n, d, ex)))" for s t n d ex
  proof -
    note cl = classify_option(1,2) [OF that(2)]
    have "dest_of d \<noteq> ''roster''"
    proof
      assume "dest_of d = ''roster''"
      with chat_table(2) [OF cl(1)] cl(2) have "n = ''--roster''" by simp
      with classify_long [OF that(2) _ chat_table(5,6), of "CHR ''r''" "''oster''"] have "prefix ''--r'' s" by simp
      with none that(1) show False by blast
    qed
    with cl(1) show ?thesis by blast
  qed
  have "\<exists>st. ''roster'' \<notin> set (sc_seen st) \<and> \<not> needed chat_parser st"
    by (rule chat_leaf_keeps [OF assms _ _ _ _ _ D]) (use chat_table(3) in auto)
  with chat_table(4) show False by (auto simp: needed_def)
qed

lemma chat_binds:
  assumes "leaf chat_parser argv = Go (ns, left)"
  shows "ns ''roster'' \<noteq> None" "ns ''admin_key'' \<noteq> None"
proof -
  have "\<exists>st. (ns ''roster'' \<noteq> None \<and> ns ''admin_key'' \<noteq> None) \<and> \<not> needed chat_parser st"
    by (rule chat_leaf_keeps [OF assms, where D = "set (ap_opts chat_parser)"])
       (auto simp: chat_initial dest: chat_table(3) classify_option(1))
  then show "ns ''roster'' \<noteq> None" "ns ''admin_key'' \<noteq> None" by auto
qed

lemma load_pinned_roster_Exit: "load_pinned_roster K pairs doc = Exit n \<Longrightarrow> n = 1"
  by (cases doc) (auto simp: load_pinned_roster_def catching_def split: sum.splits if_splits)

lemma chat_start_Exit: "chat_start K s pairs doc exists tls = Exit n \<Longrightarrow> n = 1"
proof (cases "load_identity s")
  case (Inr i)
  assume "chat_start K s pairs doc exists tls = Exit n"
  with Inr show ?thesis
    by (cases "load_pinned_roster K pairs doc") (auto simp: chat_start_def raising_def catching_def load_pinned_roster_Exit split: sum.splits)
qed (simp add: chat_start_def raising_def)

text \<open>A chat that prints anything or ends with status 0 has loaded its roster.\<close>

lemma run_chat_started:
  assumes "ru_chat (run_chat K su s a m) \<noteq> [] \<or> ru_end (run_chat K su s a m) = Exit 0"
  obtains i ro cfg where "chat_start K s (cx_admin_key a) (read_at m (cx_roster a)) (su_exists su) (cx_tls a) = Go (i, ro, cfg)"
proof (cases "chat_start K s (cx_admin_key a) (read_at m (cx_roster a)) (su_exists su) (cx_tls a)")
  case (Exit n)
  with chat_start_Exit [OF Exit] assms show ?thesis by (simp add: run_chat_def cmd_chat_def ended_def cli_main_def finished_def)
next
  case (Raised e)
  then have "ru_end (run_chat K su s a m) \<noteq> Exit 0"
    by (simp add: run_chat_def cmd_chat_def ended_def cli_main_def finished_def Let_def split: escape.split identity_error.split read_error.split)
  with Raised assms show ?thesis by (simp add: run_chat_def cmd_chat_def)
next
  case (Go r)
  with that show ?thesis by (cases r) auto
qed

section \<open>Properties\<close>

text \<open>
  C23: whom a chat trusts comes from its command line alone: when \<open>commonweal chat\<close> prints anything or ends with
  status 0, there is a roster, read from a path given in an argument, an argument named \<open>--roster\<close> or an
  abbreviation of it, and verified against pinned keys each of which ends an argument, such that what the run
  printed and how it ended are those of the client's exchange over this very roster.
\<close>
theorem chat_trusts_command_line:
  assumes "parse_cli home argv = Go (path, Chat a)" "run = commonweal_main K home su argv m"
    and "ru_chat run \<noteq> [] \<or> ru_end run = Exit 0"
  shows "\<exists>pins doc ro i r. admin_keys [] (cx_admin_key a) = Inr pins \<and> pins \<noteq> [] \<and> read_at m (cx_roster a) = Inr doc
      \<and> roster_load K doc pins None = Inr ro \<and> load_identity (store_at m path) = Inr i
    \<and> r = client_events K i ro (chat_request (cx_model a) (chat_prompt (cx_prompt a) (su_stdin su)) (cx_max_tokens a) (cx_temperature a))
            (su_entropy su) (su_lease su) (su_answer su)
    \<and> ru_chat run = ch_stdout (if cx_quiet a then chat_quiet (su_decode su) r else chat_stream (su_decode su) r)
    \<and> ru_end run = finished (cli_main (ch_end (if cx_quiet a then chat_quiet (su_decode su) r else chat_stream (su_decode su) r)))
    \<and> (\<forall>x \<in> set (cx_admin_key a). \<exists>s \<in> set argv. suffix x s) \<and> (\<exists>s \<in> set argv. suffix (cx_roster a) s)
    \<and> (\<exists>s \<in> set argv. prefix ''--r'' s)"
proof -
  from assms(1) obtain ns where ns: "commonweal_args home argv = Go ns" "call_of ns = Chat a" by (auto simp: parse_cli_def)
  then obtain rest ns' base where chat: "leaf chat_parser rest = Go (ns', [])" and sub: "set rest \<subseteq> set argv" and over: "ns = base ++ ns'"
    by (rule chat_selected)
  have a: "cx_roster a = str_arg ns ''roster''" "cx_admin_key a = list_arg ns ''admin_key''"
    using ns(2) by (auto simp: call_of_def Let_def split: if_splits)
  have a': "cx_admin_key a = list_arg ns' ''admin_key''" "cx_roster a = str_arg ns' ''roster''"
    using chat_binds [OF chat] by (auto simp: a over list_arg_def str_arg_def)
  obtain s where s: "s \<in> set rest" "prefix ''--r'' s" using chat_names_roster [OF chat] by blast
  have "\<exists>s \<in> set rest. suffix (str_arg ns' ''roster'') s"
    using chat_roster_path [OF chat] s(1) by (auto simp: str_arg_def split: option.splits arg_value.splits)
  with s chat_admin_keys [OF chat] sub have "(\<forall>x \<in> set (cx_admin_key a). \<exists>s \<in> set argv. suffix x s)"
    "(\<exists>s \<in> set argv. suffix (cx_roster a) s)" "\<exists>s \<in> set argv. prefix ''--r'' s" unfolding a' by blast+
  moreover have run: "run = run_chat K su (store_at m path) a m"
    using assms(1,2) by (simp add: commonweal_main_def run_call_def)
  from assms(3) obtain i ro cfg
    where start: "chat_start K (store_at m path) (cx_admin_key a) (read_at m (cx_roster a)) (su_exists su) (cx_tls a) = Go (i, ro, cfg)"
    unfolding run by (rule run_chat_started)
  then obtain pins doc where "admin_keys [] (cx_admin_key a) = Inr pins" "pins \<noteq> []" "read_at m (cx_roster a) = Inr doc"
      "roster_load K doc pins None = Inr ro" "load_identity (store_at m path) = Inr i"
    by (auto simp: chat_start_def load_pinned_roster_Go)
  moreover have "ru_chat run = ch_stdout (if cx_quiet a then chat_quiet (su_decode su) r else chat_stream (su_decode su) r)
      \<and> ru_end run = finished (cli_main (ch_end (if cx_quiet a then chat_quiet (su_decode su) r else chat_stream (su_decode su) r)))"
    if "r = client_events K i ro (chat_request (cx_model a) (chat_prompt (cx_prompt a) (su_stdin su)) (cx_max_tokens a) (cx_temperature a))
            (su_entropy su) (su_lease su) (su_answer su)" for r
    using start that by (simp add: run run_chat_def cmd_chat_def ended_def Let_def)
  ultimately show ?thesis by blast
qed

section \<open>Witnesses\<close>

definition demo_chat :: chat_args where
  "demo_chat = \<lparr>cx_prompt = Some ''hi'', cx_coordinator = ''http://127.0.0.1:8080'', cx_roster = ''r.json'', cx_admin_key = [''a='' @ demo_pub],
     cx_model = ''m'', cx_max_tokens = 512, cx_temperature = Flt DEFAULT_TEMPERATURE, cx_quiet = False, cx_tls = no_client_tls\<rparr>"

definition demo_chat_argv :: "string list" where
  "demo_chat_argv = [''--id'', ''a.json'', ''chat'', ''--mod=m'', ''hi'', ''--roster'', ''r.json'', ''--admin-key'', ''a='' @ demo_pub]"

lemma demo_chat_parsed: "parse_cli ''home'' demo_chat_argv = Go (''a.json'', Chat demo_chat)"
  by code_simp

text \<open>A roster whose peer has a key, signed by member \<open>a\<close>.\<close>

definition demo_chat_roster :: roster where
  "demo_chat_roster = demo_reg_roster\<lparr>peers := [(''g'', demo_peer\<lparr>p_enc_pub := demo_pub\<rparr>)]\<rparr>"

definition demo_chat_payload :: bytes where
  "demo_chat_payload = utf8 (dumps (float_repr demo_crypto) (JObj (roster_body demo_chat_roster)))"

definition demo_chat_signed :: roster where
  "demo_chat_signed = demo_chat_roster\<lparr>signatures := map JStr [sign_bytes demo_crypto demo_chat_payload demo_key]\<rparr>"

lemma demo_pub_key: "demo_pub = b64 demo_key"
  by code_simp

lemma demo_chat_roster:
  "load_pinned_roster demo_crypto [''a='' @ demo_pub] (Inr (roster_to_dict demo_chat_signed)) = Go (roster_norm demo_chat_signed)"
proof -
  have ok: "roster_ok demo_chat_roster"
    using demo_reg(1) by (auto simp: roster_ok_def demo_chat_roster_def demo_reg_roster_def demo_roster_def demo_peer_def peer_ok_def members_known_def)
  have "json_finite (JObj (roster_body demo_chat_roster))" by code_simp
  then have payload: "roster_signed_bytes (float_repr demo_crypto) demo_chat_roster = Inr demo_chat_payload"
    by (simp add: roster_signed_bytes_def canonical_def demo_chat_payload_def)
  have "roster_load demo_crypto (roster_to_dict demo_chat_signed) [(''a'', b64 (ed_pub demo_crypto demo_key))] None = Inr (roster_norm demo_chat_signed)"
    unfolding demo_chat_signed_def
    by (rule roster_sign_load [OF demo_crypto_laws ok _ payload])
       (simp_all add: demo_identity_fields, simp_all add: demo_chat_roster_def demo_reg_roster_def demo_roster_def)
  then show ?thesis using demo_start(1) by (simp add: load_pinned_roster_Go demo_identity_fields demo_pub_key)
qed

definition demo_machine :: machine where
  "demo_machine = \<lparr>mc_resolve = (\<lambda>p. p),
     mc_files = (\<lambda>p. if p = ''a.json'' then id_file demo_owner_store else if p = ''r.json'' then Inr (roster_to_dict demo_chat_signed) else Inl FileNotFound),
     mc_folders = (\<lambda>p. [''.'']), mc_is_folder = (\<lambda>d. d = ''.''), mc_denied = (\<lambda>p. False), mc_keychain = keychain demo_owner_store,
     mc_keychain_usable = keychain_usable demo_owner_store, mc_keychain_fails = keychain_write_fails demo_owner_store,
     mc_ledgers = (\<lambda>p. Inr empty_ledger), mc_logs = (\<lambda>p. Inr [])\<rparr>"

definition demo_surroundings :: "wire_line list \<Rightarrow> surroundings" where
  "demo_surroundings rows = \<lparr>su_seed = demo_key, su_priv = demo_key, su_stdin = [], su_exists = (\<lambda>p. True), 
     su_decode = (\<lambda>bs. ''x''), su_entropy = demo_entropy, su_lease = (200, Some demo_granted), su_answer = (\<lambda>d. PeerStream rows None), su_beats = []\<rparr>"

lemma demo_chat_runs:
  "\<exists>rows. ru_chat (commonweal_main demo_crypto ''home'' (demo_surroundings rows) demo_chat_argv demo_machine) \<noteq> []"
proof -
  let ?ro = "roster_norm demo_chat_signed" and ?q = "chat_request ''m'' ''hi'' 512 (Flt DEFAULT_TEMPERATURE)"
  obtain rows where rows: "client_receive demo_crypto (replicate 32 0) (PeerStream rows None) = ([TextEvent (utf8 ''hi'')], None)"
    by (rule demo_answer)
  have doc: "read_at demo_machine ''r.json'' = Inr (roster_to_dict demo_chat_signed)" by (simp add: read_at_def demo_machine_def)
  have "store_at demo_machine ''a.json'' = demo_owner_store" by (simp add: store_at_def read_at_def demo_machine_def)
  then have "chat_start demo_crypto (store_at demo_machine ''a.json'') [''a='' @ demo_pub] (Inr (roster_to_dict demo_chat_signed)) (\<lambda>p. True)
      no_client_tls = Go (demo_owner, ?ro, DEFAULT_TLS)"
    using demo_start(3,5) demo_chat_roster by (simp add: chat_start_def raising_def catching_def)
  moreover have "recipient ?ro demo_granted ''m'' = Inr demo_key"
    by (simp add: recipient_Inr demo_granted_def roster_norm_def demo_chat_signed_def demo_chat_roster_def demo_peer_def unb64_b64
        offered_key_def demo_pub_key)
  moreover have "\<exists>env. client_seal demo_crypto demo_owner ?q demo_entropy
      [(''peer_id'', JStr ''g''), (''peer_enc_pub'', JStr (b64 demo_key)), (''request_id'', JStr ''r'')] demo_key = Inr (env, replicate 32 0)"
    by (simp add: client_seal_def seal_request_def derive_def MASTER_LEN_def demo_entropy_def demo_key_def
        sign_envelope_def signed_bytes_def canonical_def envelope_fields_def)
  ultimately have "ru_chat (run_chat demo_crypto (demo_surroundings rows) (store_at demo_machine ''a.json'') demo_chat demo_machine) \<noteq> []"
    using rows
    by (auto simp: run_chat_def cmd_chat_def demo_surroundings_def demo_chat_def doc chat_prompt_def client_events_def
        lease_response_def chat_request_def demo_granted_def as_object_def str_or_empty_def chat_stream_def Let_def)
  then show ?thesis by (auto simp: commonweal_main_def demo_chat_parsed run_call_def)
qed

theorem chat_trusts_command_line_witness:
  "\<exists>rows pins doc ro i. ru_chat (commonweal_main demo_crypto ''home'' (demo_surroundings rows) demo_chat_argv demo_machine) \<noteq> []
     \<and> admin_keys [] (cx_admin_key demo_chat) = Inr pins \<and> read_at demo_machine ''r.json'' = Inr doc \<and> roster_load demo_crypto doc pins None = Inr ro
     \<and> ru_chat (commonweal_main demo_crypto ''home'' (demo_surroundings rows) demo_chat_argv demo_machine)
       = ch_stdout (chat_stream (\<lambda>bs. ''x'') (client_events demo_crypto i ro (chat_request ''m'' ''hi'' 512 (Flt DEFAULT_TEMPERATURE)) demo_entropy
           (200, Some demo_granted) (\<lambda>d. PeerStream rows None)))"
proof -
  obtain rows where rows: "ru_chat (commonweal_main demo_crypto ''home'' (demo_surroundings rows) demo_chat_argv demo_machine) \<noteq> []"
    using demo_chat_runs by blast
  with chat_trusts_command_line [OF demo_chat_parsed refl, of demo_crypto "demo_surroundings rows" demo_machine]
  show ?thesis by (fastforce simp: demo_chat_def demo_surroundings_def chat_prompt_def)
qed

text \<open>The command lines of the quick start in the README.\<close>

lemma readme_commands:
  "parse_cli ''home'' [''--identity'', ''alice-identity.json'', ''keygen'', ''alice''] = Go (''alice-identity.json'', Keygen ''alice'' False False)"
  "parse_cli ''home'' [''--identity'', ''alice-identity.json'', ''roster'', ''init'', ''my-lab'', ''--out'', ''roster.json'']
     = Go (''alice-identity.json'', RosterInit ''my-lab'' ''roster.json'' ''1970-01-01T00:00:00Z'')"
  "parse_cli ''home'' [''--identity'', ''alice-identity.json'', ''roster'', ''sign'', ''roster.json''] = Go (''alice-identity.json'', RosterSign ''roster.json'')"
  "parse_cli ''home'' [''--identity'', ''alice-identity.json'', ''chat'', ''hello'', ''--model'', ''llama-3.1-8b'',
       ''--roster'', ''roster.json'', ''--admin-key'', ''alice=KEY'', ''--coordinator'', ''http://coord:8080'']
     = Go (''alice-identity.json'', Chat \<lparr>cx_prompt = Some ''hello'', cx_coordinator = ''http://coord:8080'', cx_roster = ''roster.json'',
         cx_admin_key = [''alice=KEY''], cx_model = ''llama-3.1-8b'', cx_max_tokens = 512, cx_temperature = Flt DEFAULT_TEMPERATURE,
         cx_quiet = False, cx_tls = no_client_tls\<rparr>)"
  by code_simp+

end
