(* ===== verification/CallText.thy ===== *)
theory CallText
  imports CommandLine
begin

text \<open>
  Command lines of \<open>commonweal\<close> written for a call and read back: the words for each subcommand, what each group
  of options does to the parser's state, and the proof that parsing them gives the call. On top of it the
  ceremony that founds a federation, from the command lines to the roster everyone can load.
\<close>

section \<open>Writing a command line\<close>

text \<open>
  A command line for a call: values after \<open>=\<close>, the positional argument after \<open>--\<close>, so that no value can be
  taken for an option. How numbers are written is an argument.
\<close>

definition maybe_word :: "string \<Rightarrow> string option \<Rightarrow> string list" where
  "maybe_word n v = (case v of None \<Rightarrow> [] | Some s \<Rightarrow> [n @ ''='' @ s])"

definition flag_word :: "string \<Rightarrow> bool \<Rightarrow> string list" where
  "flag_word n b = (if b then [n] else [])"

definition tls_words :: "client_tls_args \<Rightarrow> string list" where
  "tls_words t = maybe_word ''--ca-bundle'' (a_ca_bundle t) @ maybe_word ''--client-cert'' (a_client_cert t)
     @ maybe_word ''--client-key'' (a_client_key t) @ flag_word ''--insecure'' (a_insecure t)"

definition call_words :: "(pynum \<Rightarrow> string) \<Rightarrow> cli_call \<Rightarrow> string list" where
  "call_words wr_num call =
     (case call of
        Keygen mid force kr \<Rightarrow> ''keygen'' # flag_word ''--force'' force @ flag_word ''--keyring'' kr @ [''--'', mid]
      | KeyringMigrate \<Rightarrow> [''keyring-migrate'']
      | Whoami \<Rightarrow> [''whoami'']
      | RosterInit fid out upd \<Rightarrow> [''roster'', ''init'', ''--out='' @ out, ''--updated='' @ upd, ''--'', fid]
      | RosterSign path \<Rightarrow> [''roster'', ''sign'', ''--'', path]
      | Contribute a \<Rightarrow>
          [''contribute'', ''--roster='' @ ct_roster a] @ map ((@) ''--admin-key='') (ct_admin_key a)
          @ [''--peer-id='' @ ct_peer_id a, ''--resident-gb='' @ wr_num (ct_resident_gb a), ''--coordinator='' @ ct_coordinator a,
             ''--interval='' @ wr_num (ct_interval a)] @ tls_words (ct_tls a)
      | Chat a \<Rightarrow>
          [''chat'', ''--coordinator='' @ cx_coordinator a, ''--roster='' @ cx_roster a] @ map ((@) ''--admin-key='') (cx_admin_key a)
          @ [''--model='' @ cx_model a, ''--max-tokens='' @ show_int (cx_max_tokens a), ''--temperature='' @ wr_num (cx_temperature a)]
          @ flag_word ''--quiet'' (cx_quiet a) @ tls_words (cx_tls a)
          @ (case cx_prompt a of None \<Rightarrow> [] | Some p \<Rightarrow> [''--'', p]))"

text \<open>Ints are written as \<open>str\<close> writes them; the floats of a call are those that their text is read back to.\<close>

definition readable :: "(pynum \<Rightarrow> string) \<Rightarrow> cli_call \<Rightarrow> bool" where
  "readable wr_num call =
     (case call of
        Contribute a \<Rightarrow> float_of_str (wr_num (ct_resident_gb a)) = Some (ct_resident_gb a)
          \<and> float_of_str (wr_num (ct_interval a)) = Some (ct_interval a)
      | Chat a \<Rightarrow> short_int (cx_max_tokens a)
          \<and> float_of_str (wr_num (cx_temperature a)) = Some (cx_temperature a)
      | _ \<Rightarrow> True)"

text \<open>The options of a parser by their long names.\<close>

definition named :: "arg_parser \<Rightarrow> string \<times> string \<Rightarrow> opt \<times> string" where
  "named P = (\<lambda>(n, v). (the (find_opt (ap_opts P) n), v))"

definition maybe_named :: "string \<Rightarrow> string option \<Rightarrow> (string \<times> string) list" where
  "maybe_named n v = (case v of None \<Rightarrow> [] | Some s \<Rightarrow> [(n, s)])"

definition flag_named :: "string \<Rightarrow> bool \<Rightarrow> (string \<times> string) list" where
  "flag_named n b = (if b then [(n, [])] else [])"

definition set_named :: "arg_parser \<Rightarrow> (string \<times> string) list \<Rightarrow> parse_state \<Rightarrow> parse_state command" where
  "set_named P nvs = apply_options (map (\<lambda>(d, v). (d, Some (if takes_value d then v else []))) (map (named P) nvs))"

lemma set_named_append: "set_named P (xs @ ys) st = cbind (set_named P xs st) (set_named P ys)"
  by (simp add: set_named_def apply_options_append)

definition words_of :: "arg_parser \<Rightarrow> (string \<times> string) list \<Rightarrow> string list" where
  "words_of P nvs = map ((\<lambda>(d, v). render_opt d v) \<circ> named P) nvs"

lemma named_in:
  assumes "proper_opts (ap_opts P)" "fst ` set nvs \<subseteq> set (map (last \<circ> op_names) (ap_opts P))"
  shows "fst ` set (map (named P) nvs) \<subseteq> set (ap_opts P)"
proof
  fix d
  assume "d \<in> fst ` set (map (named P) nvs)"
  then obtain n v where nv: "(n, v) \<in> set nvs" "d = the (find_opt (ap_opts P) n)" by (auto simp: named_def)
  from assms(2) imageI [OF nv(1), of fst] have "n \<in> (last \<circ> op_names) ` set (ap_opts P)" by auto
  then obtain d' where "d' \<in> set (ap_opts P)" "n = last (op_names d')" by auto
  with assms(1) nv(2) show "d \<in> set (ap_opts P)" by (simp add: proper_opts_def)
qed

lemma words_tokens:
  assumes "proper_opts (ap_opts P)" "fst ` set nvs \<subseteq> set (map (last \<circ> op_names) (ap_opts P))"
  shows "tokens (ap_opts P) (words_of P nvs @ rest) = map_option ((@) (map rendered_tok (map (named P) nvs))) (tokens (ap_opts P) rest)"
  unfolding words_of_def map_map [symmetric] by (rule tokens_rendered [OF assms(1) named_in [OF assms]])

lemma apply_option_extras: "apply_option d s st = Go st' \<Longrightarrow> sc_extras st' = sc_extras st \<and> sc_pos st' = sc_pos st"
  by (elim apply_option_Go) (simp add: set_arg_def)

lemma set_named_keeps: "set_named P nvs st = Go st' \<Longrightarrow> sc_extras st' = sc_extras st \<and> sc_pos st' = sc_pos st"
proof (induction nvs arbitrary: st)
  case (Cons nv nvs)
  then show ?case by (auto simp: set_named_def case_prod_unfold dest!: apply_option_extras)
qed (simp add: set_named_def)

lemma leaf_words:
  assumes ok: "proper_opts (ap_opts P)" "fst ` set nvs \<subseteq> set (map (last \<circ> op_names) (ap_opts P))"
    and st: "set_named P nvs \<lparr>sc_ns = initial_ns P, sc_seen = [], sc_pos = ap_pos P, sc_extras = []\<rparr> = Go st"
  shows "leaf P (words_of P nvs) = (if needed P st then Exit 2 else Go (sc_ns st, []))"
    and "ap_pos P = OnePos k \<or> ap_pos P = MaybePos k \<Longrightarrow>
       leaf P (words_of P nvs @ [''--'', s]) = (if needed P (positional_arg k s st) then Exit 2 else Go ((sc_ns st)(k \<mapsto> StrArg s), []))"
proof -
  let ?st = "\<lparr>sc_ns = initial_ns P, sc_seen = [], sc_pos = ap_pos P, sc_extras = []\<rparr>"
  have keeps: "sc_extras st = [] \<and> sc_pos st = ap_pos P" using set_named_keeps [OF st] by simp
  have run: "scan (ap_opts P) (\<lambda>name. None) (map rendered_tok (map (named P) nvs) @ toks) ?st
      = scan (ap_opts P) (\<lambda>name. None) toks st" for toks
    using st unfolding scan_rendered set_named_def by simp
  show "leaf P (words_of P nvs) = (if needed P st then Exit 2 else Go (sc_ns st, []))"
    using words_tokens [OF ok, of "[]"] run [of "[]"] keeps by (simp add: leaf_def parse_known_def)
  show "leaf P (words_of P nvs @ [''--'', s]) = (if needed P (positional_arg k s st) then Exit 2 else Go ((sc_ns st)(k \<mapsto> StrArg s), []))"
    if "ap_pos P = OnePos k \<or> ap_pos P = MaybePos k"
  proof -
    have "after_dash (sc_pos st) [ArgTok s] = Some (k, s)" using that keeps by (auto simp: after_dash_def)
    then show ?thesis
      using words_tokens [OF ok, of "[''--'', s]"] run [of "[DashTok, ArgTok s]"] keeps
      by (simp add: leaf_def parse_known_def positional_arg_def set_arg_def)
  qed
qed

text \<open>What the groups of options do to the state of the parser.\<close>

definition maybe_set :: "string \<Rightarrow> string option \<Rightarrow> parse_state \<Rightarrow> parse_state" where
  "maybe_set k v st = (case v of None \<Rightarrow> st | Some s \<Rightarrow> set_arg k (StrArg s) st)"

definition flag_set :: "string \<Rightarrow> bool \<Rightarrow> parse_state \<Rightarrow> parse_state" where
  "flag_set k b st = (if b then set_arg k (BoolArg True) st else st)"

definition keys_set :: "string list \<Rightarrow> parse_state \<Rightarrow> parse_state" where
  "keys_set xs st = fold (\<lambda>x st. set_arg ''admin_key'' (ListArg (list_arg (sc_ns st) ''admin_key'' @ [x])) st) xs st"

lemma set_arg_ns [simp]: "sc_ns (set_arg k v st) j = (if j = k then Some v else sc_ns st j)" "sc_seen (set_arg k v st) = k # sc_seen st"
  by (simp_all add: set_arg_def)

lemma maybe_set_ns [simp]:
  "sc_ns (maybe_set k v st) j = (if j = k then (case v of None \<Rightarrow> sc_ns st k | Some s \<Rightarrow> Some (StrArg s)) else sc_ns st j)"
  "set (sc_seen (maybe_set k v st)) = (case v of None \<Rightarrow> {} | Some s \<Rightarrow> {k}) \<union> set (sc_seen st)"
  by (simp_all add: maybe_set_def split: option.split)

lemma flag_set_ns [simp]:
  "sc_ns (flag_set k b st) j = (if j = k \<and> b then Some (BoolArg True) else sc_ns st j)"
  "set (sc_seen (flag_set k b st)) = (if b then {k} else {}) \<union> set (sc_seen st)"
  by (simp_all add: flag_set_def)

lemma keys_set_ns [simp]:
  "j \<noteq> ''admin_key'' \<Longrightarrow> sc_ns (keys_set xs st) j = sc_ns st j"
  "list_arg (sc_ns (keys_set xs st)) ''admin_key'' = list_arg (sc_ns st) ''admin_key'' @ xs"
  "set (sc_seen (keys_set xs st)) = (if xs = [] then {} else {''admin_key''}) \<union> set (sc_seen st)"
  by (induction xs arbitrary: st) (auto simp: keys_set_def list_arg_def)

lemma set_named_Nil [simp]: "set_named P [] st = Go st"
  by (simp add: set_named_def)

lemma set_named_Cons: "set_named P ((n, v) # nvs) st =
    cbind (apply_option (the (find_opt (ap_opts P) n)) (if takes_value (the (find_opt (ap_opts P) n)) then v else []) st) (set_named P nvs)"
  by (simp add: set_named_def named_def)

lemma set_named_maybe:
  assumes "find_opt (ap_opts P) n = Some (value_opt n PlainStr NoneArg)"
  shows "set_named P (maybe_named n v) st = Go (maybe_set (dest_of (value_opt n PlainStr NoneArg)) v st)"
  using assms by (simp add: maybe_named_def set_named_Cons maybe_set_def apply_option_def takes_value_def value_opt_def convert_arg_def split: option.split)

lemma set_named_flag:
  assumes "find_opt (ap_opts P) n = Some (flag_opt ns)"
  shows "set_named P (flag_named n b) st = Go (flag_set (dest_of (flag_opt ns)) b st)"
  using assms by (simp add: flag_named_def set_named_Cons flag_set_def apply_option_def flag_opt_def)

lemma set_named_keys:
  assumes "find_opt (ap_opts P) ''--admin-key'' = Some admin_key_opt"
  shows "set_named P (map (Pair ''--admin-key'') xs) st = Go (keys_set xs st)"
  using assms
  by (induction xs arbitrary: st)
     (simp_all add: set_named_Cons keys_set_def apply_option_def takes_value_def admin_key_opt_def dest_of_def)

definition tls_named :: "client_tls_args \<Rightarrow> (string \<times> string) list" where
  "tls_named t = maybe_named ''--ca-bundle'' (a_ca_bundle t) @ maybe_named ''--client-cert'' (a_client_cert t)
     @ maybe_named ''--client-key'' (a_client_key t) @ flag_named ''--insecure'' (a_insecure t)"

definition tls_set :: "client_tls_args \<Rightarrow> parse_state \<Rightarrow> parse_state" where
  "tls_set t st = flag_set ''insecure'' (a_insecure t) (maybe_set ''client_key'' (a_client_key t)
     (maybe_set ''client_cert'' (a_client_cert t) (maybe_set ''ca_bundle'' (a_ca_bundle t) st)))"

lemma set_named_tls:
  assumes "\<forall>d \<in> set add_client_tls_args. find_opt (ap_opts P) (last (op_names d)) = Some d"
  shows "set_named P (tls_named t) st = Go (tls_set t st)"
proof -
  have last: "last (op_names (value_opt n ty v)) = n" "last (op_names (flag_opt [n])) = n" for n ty v
    by (simp_all add: value_opt_def flag_opt_def)
  from assms have found: "find_opt (ap_opts P) ''--ca-bundle'' = Some (value_opt ''--ca-bundle'' PlainStr NoneArg)"
      "find_opt (ap_opts P) ''--client-cert'' = Some (value_opt ''--client-cert'' PlainStr NoneArg)"
      "find_opt (ap_opts P) ''--client-key'' = Some (value_opt ''--client-key'' PlainStr NoneArg)"
      "find_opt (ap_opts P) ''--insecure'' = Some (flag_opt [''--insecure''])"
    by (simp_all add: add_client_tls_args_def last)
  show ?thesis
    by (simp add: tls_named_def set_named_append set_named_maybe [OF found(1)] set_named_maybe [OF found(2)] set_named_maybe [OF found(3)]
        set_named_flag [OF found(4)]) (simp add: tls_set_def table_defs)
qed

definition chat_named :: "(pynum \<Rightarrow> string) \<Rightarrow> chat_args \<Rightarrow> (string \<times> string) list" where
  "chat_named wr_num a =
     [(''--coordinator'', cx_coordinator a), (''--roster'', cx_roster a)] @ map (Pair ''--admin-key'') (cx_admin_key a)
     @ [(''--model'', cx_model a), (''--max-tokens'', show_int (cx_max_tokens a)), (''--temperature'', wr_num (cx_temperature a))]
     @ flag_named ''--quiet'' (cx_quiet a) @ tls_named (cx_tls a)"

lemma chat_found:
  "find_opt (ap_opts chat_parser) ''--coordinator'' = Some (value_opt ''--coordinator'' PlainStr (StrArg ''http://127.0.0.1:8080''))"
  "find_opt (ap_opts chat_parser) ''--roster'' = Some (required_opt ''--roster'' PlainStr)"
  "find_opt (ap_opts chat_parser) ''--admin-key'' = Some admin_key_opt"
  "find_opt (ap_opts chat_parser) ''--model'' = Some (required_opt ''--model'' PlainStr)"
  "find_opt (ap_opts chat_parser) ''--max-tokens'' = Some (value_opt ''--max-tokens'' AsInt (IntArg 512))"
  "find_opt (ap_opts chat_parser) ''--temperature'' = Some (value_opt ''--temperature'' AsFloat (NumArg (Flt DEFAULT_TEMPERATURE)))"
  "find_opt (ap_opts chat_parser) ''--quiet'' = Some (flag_opt [''-q'', ''--quiet''])"
  "\<forall>d \<in> set add_client_tls_args. find_opt (ap_opts chat_parser) (last (op_names d)) = Some d"
  by (simp_all add: chat_parser_def table_defs find_opt_def)

lemma proper_chat: "proper_opts (ap_opts chat_parser)"
  by (simp add: proper_opts_def chat_parser_def table_defs find_opt_def)

definition chat_set :: "chat_args \<Rightarrow> parse_state \<Rightarrow> parse_state" where
  "chat_set a st = tls_set (cx_tls a) (flag_set ''quiet'' (cx_quiet a) (set_arg ''temperature'' (NumArg (cx_temperature a))
     (set_arg ''max_tokens'' (IntArg (cx_max_tokens a)) (set_arg ''model'' (StrArg (cx_model a)) (keys_set (cx_admin_key a)
     (set_arg ''roster'' (StrArg (cx_roster a)) (set_arg ''coordinator'' (StrArg (cx_coordinator a)) st)))))))"

lemma set_named_chat:
  assumes "readable wr_num (Chat a)"
  shows "set_named chat_parser (chat_named wr_num a) st = Go (chat_set a st)"
  using assms
  by (simp add: chat_named_def set_named_append set_named_Cons chat_found set_named_keys set_named_flag set_named_tls
      readable_def apply_option_def convert_arg_def takes_value_def chat_set_def) (simp add: table_defs convert_arg_def int_of_str_show)

definition contribute_named :: "(pynum \<Rightarrow> string) \<Rightarrow> contribute_args \<Rightarrow> (string \<times> string) list" where
  "contribute_named wr_num a =
     [(''--roster'', ct_roster a)] @ map (Pair ''--admin-key'') (ct_admin_key a)
     @ [(''--peer-id'', ct_peer_id a), (''--resident-gb'', wr_num (ct_resident_gb a)), (''--coordinator'', ct_coordinator a),
        (''--interval'', wr_num (ct_interval a))] @ tls_named (ct_tls a)"

lemma contribute_found:
  "find_opt (ap_opts contribute_parser) ''--roster'' = Some (required_opt ''--roster'' PlainStr)"
  "find_opt (ap_opts contribute_parser) ''--admin-key'' = Some admin_key_opt"
  "find_opt (ap_opts contribute_parser) ''--peer-id'' = Some (required_opt ''--peer-id'' PlainStr)"
  "find_opt (ap_opts contribute_parser) ''--resident-gb'' = Some (required_opt ''--resident-gb'' AsFloat)"
  "find_opt (ap_opts contribute_parser) ''--coordinator'' = Some (value_opt ''--coordinator'' PlainStr (StrArg ''http://127.0.0.1:8080''))"
  "find_opt (ap_opts contribute_parser) ''--interval'' = Some (value_opt ''--interval'' AsFloat (NumArg (Flt 30)))"
  "\<forall>d \<in> set add_client_tls_args. find_opt (ap_opts contribute_parser) (last (op_names d)) = Some d"
  by (simp_all add: contribute_parser_def table_defs find_opt_def)

definition contribute_set :: "contribute_args \<Rightarrow> parse_state \<Rightarrow> parse_state" where
  "contribute_set a st = tls_set (ct_tls a) (set_arg ''interval'' (NumArg (ct_interval a))
     (set_arg ''coordinator'' (StrArg (ct_coordinator a)) (set_arg ''resident_gb'' (NumArg (ct_resident_gb a))
     (set_arg ''peer_id'' (StrArg (ct_peer_id a)) (keys_set (ct_admin_key a) (set_arg ''roster'' (StrArg (ct_roster a)) st))))))"

lemma set_named_contribute:
  assumes "readable wr_num (Contribute a)"
  shows "set_named contribute_parser (contribute_named wr_num a) st = Go (contribute_set a st)"
  using assms
  by (simp add: contribute_named_def set_named_append set_named_Cons contribute_found set_named_keys set_named_tls
      readable_def apply_option_def convert_arg_def takes_value_def contribute_set_def) (simp add: table_defs convert_arg_def)

lemma proper_tables:
  "proper_opts (ap_opts contribute_parser)" "proper_opts (ap_opts keygen_parser)" "proper_opts (ap_opts roster_init_parser)"
  "proper_opts (ap_opts roster_sign_parser)" "proper_opts (ap_opts (commonweal_parser home))"
  by (simp_all add: proper_opts_def contribute_parser_def keygen_parser_def roster_init_parser_def roster_sign_parser_def
      commonweal_parser_def table_defs find_opt_def)

text \<open>A subparser's namespace with the arguments of a call, whatever the main parser adds.\<close>

definition main_keys :: "string set" where
  "main_keys = {''identity'', ''command'', ''roster_command''}"

definition binds_call :: "namespace \<Rightarrow> cli_call \<Rightarrow> bool" where
  "binds_call ns call \<longleftrightarrow> ns ''identity'' = None \<and> (\<forall>base. dom base \<subseteq> main_keys \<longrightarrow> call_of (base ++ ns) = call)"

lemma binds_callI:
  assumes "ns ''identity'' = None" "call_of ns = call"
  shows "binds_call ns call"
proof -
  have "(base ++ ns) k = ns k" if "dom base \<subseteq> main_keys" "k \<notin> main_keys" for base k
    using that by (auto simp: map_add_def split: option.split)
  then have acc: "str_arg (base ++ ns) k = str_arg ns k" "maybe_arg (base ++ ns) k = maybe_arg ns k" "bool_arg (base ++ ns) k = bool_arg ns k"
      "num_arg (base ++ ns) k = num_arg ns k" "int_arg (base ++ ns) k = int_arg ns k" "list_arg (base ++ ns) k = list_arg ns k"
    if "dom base \<subseteq> main_keys" "k \<notin> main_keys" for base k
    using that by (simp_all add: str_arg_def maybe_arg_def bool_arg_def num_arg_def int_arg_def list_arg_def)
  have "call_of (base ++ ns) = call_of ns" if "dom base \<subseteq> main_keys" for base
    unfolding call_of_def client_tls_of_def Let_def using acc [OF that] by (simp add: main_keys_def cong: if_cong)
  with assms show ?thesis by (simp add: binds_call_def)
qed

lemma words_of_simps [simp]:
  "words_of P [] = []" "words_of P (xs @ ys) = words_of P xs @ words_of P ys"
  "find_opt (ap_opts P) n = Some d \<Longrightarrow> words_of P ((n, v) # nvs) = render_opt d v # words_of P nvs"
  by (simp_all add: words_of_def named_def)

lemma words_maybe: "find_opt (ap_opts P) n = Some (value_opt n ty w) \<Longrightarrow> words_of P (maybe_named n v) = maybe_word n v"
  by (simp add: maybe_named_def maybe_word_def render_opt_def takes_value_def value_opt_def split: option.split)

lemma words_flag: "find_opt (ap_opts P) n = Some (flag_opt ns) \<Longrightarrow> last ns = n \<Longrightarrow> words_of P (flag_named n b) = flag_word n b"
  by (simp add: flag_named_def flag_word_def render_opt_def takes_value_def flag_opt_def)

lemma words_keys:
  "find_opt (ap_opts P) ''--admin-key'' = Some admin_key_opt \<Longrightarrow> words_of P (map (Pair ''--admin-key'') xs) = map ((@) ''--admin-key='') xs"
  by (induction xs) (simp_all add: render_opt_def takes_value_def admin_key_opt_def)

lemma words_tls:
  assumes "\<forall>d \<in> set add_client_tls_args. find_opt (ap_opts P) (last (op_names d)) = Some d"
  shows "words_of P (tls_named t) = tls_words t"
proof -
  have last: "last (op_names (value_opt n ty v)) = n" "last (op_names (flag_opt [n])) = n" for n ty v
    by (simp_all add: value_opt_def flag_opt_def)
  from assms have found: "find_opt (ap_opts P) ''--ca-bundle'' = Some (value_opt ''--ca-bundle'' PlainStr NoneArg)"
      "find_opt (ap_opts P) ''--client-cert'' = Some (value_opt ''--client-cert'' PlainStr NoneArg)"
      "find_opt (ap_opts P) ''--client-key'' = Some (value_opt ''--client-key'' PlainStr NoneArg)"
      "find_opt (ap_opts P) ''--insecure'' = Some (flag_opt [''--insecure''])"
    by (simp_all add: add_client_tls_args_def last)
  show ?thesis
    by (simp add: tls_named_def tls_words_def words_maybe [OF found(1)] words_maybe [OF found(2)] words_maybe [OF found(3)]
        words_flag [OF found(4)])
qed

section \<open>Each command is read back\<close>

lemmas accessor_defs = str_arg_def maybe_arg_def bool_arg_def num_arg_def int_arg_def

lemma needed_simps [simp]:
  "needed P (positional_arg k s st) \<longleftrightarrow> (\<exists>d \<in> set (ap_opts P). op_required d \<and> dest_of d \<notin> set (k # sc_seen st))"
  by (simp add: needed_def)

lemma keygen_read:
  "\<exists>ns. leaf keygen_parser (flag_word ''--force'' force @ flag_word ''--keyring'' kr @ [''--'', mid]) = Go (ns, []) \<and> binds_call ns (Keygen mid force kr)"
proof -
  let ?P = keygen_parser and ?nvs = "flag_named ''--force'' force @ flag_named ''--keyring'' kr"
  let ?st = "flag_set ''keyring'' kr (flag_set ''force'' force \<lparr>sc_ns = initial_ns ?P, sc_seen = [], sc_pos = ap_pos ?P, sc_extras = []\<rparr>)"
  have found: "find_opt (ap_opts ?P) ''--force'' = Some (flag_opt [''--force''])" "find_opt (ap_opts ?P) ''--keyring'' = Some (flag_opt [''--keyring''])"
    by (simp_all add: keygen_parser_def table_defs find_opt_def)
  have words: "words_of ?P ?nvs = flag_word ''--force'' force @ flag_word ''--keyring'' kr"
    by (simp add: words_flag [OF found(1)] words_flag [OF found(2)])
  have pos: "ap_pos ?P = OnePos ''member_id''" by (simp add: keygen_parser_def command_parser_def)
  have names: "fst ` set ?nvs \<subseteq> set (map (last \<circ> op_names) (ap_opts ?P))"
    by (auto simp: flag_named_def keygen_parser_def table_defs)
  have run: "set_named ?P ?nvs \<lparr>sc_ns = initial_ns ?P, sc_seen = [], sc_pos = ap_pos ?P, sc_extras = []\<rparr> = Go ?st"
    by (simp add: set_named_append set_named_flag [OF found(1)] set_named_flag [OF found(2)]) (simp add: table_defs)
  have "leaf ?P (words_of ?P ?nvs @ [''--'', mid]) = Go ((sc_ns ?st)(''member_id'' \<mapsto> StrArg mid), [])"
    by (subst leaf_words(2) [OF proper_tables(2) names run]) (simp_all add: pos, simp add: keygen_parser_def table_defs)
  moreover have "binds_call ((sc_ns ?st)(''member_id'' \<mapsto> StrArg mid)) (Keygen mid force kr)"
    by (rule binds_callI) (simp_all add: call_of_def accessor_defs initial_ns_def keygen_parser_def table_defs Let_def)
  ultimately show ?thesis unfolding words append_assoc by blast
qed

lemma plain_read:
  "\<exists>ns. leaf keyring_migrate_parser [] = Go (ns, []) \<and> binds_call ns KeyringMigrate"
  "\<exists>ns. leaf whoami_parser [] = Go (ns, []) \<and> binds_call ns Whoami"
  by (auto simp: leaf_def parse_known_def needed_def keyring_migrate_parser_def whoami_parser_def command_parser_def help_opt_def
      intro!: binds_callI simp: call_of_def accessor_defs initial_ns_def)

lemma roster_sign_read: "\<exists>ns. leaf roster_sign_parser [''--'', path] = Go (ns, []) \<and> binds_call ns (RosterSign path)"
  by (auto simp: leaf_def parse_known_def needed_def roster_sign_parser_def command_parser_def help_opt_def after_dash_def positional_arg_def set_arg_def
      intro!: binds_callI simp: call_of_def accessor_defs initial_ns_def)

lemma roster_init_read:
  "\<exists>ns. leaf roster_init_parser [''--out='' @ out, ''--updated='' @ upd, ''--'', fid] = Go (ns, []) \<and> binds_call ns (RosterInit fid out upd)"
proof -
  let ?P = roster_init_parser and ?nvs = "[(''--out'', out), (''--updated'', upd)]"
  let ?st = "set_arg ''updated'' (StrArg upd) (set_arg ''out'' (StrArg out) \<lparr>sc_ns = initial_ns ?P, sc_seen = [], sc_pos = ap_pos ?P, sc_extras = []\<rparr>)"
  have found: "find_opt (ap_opts ?P) ''--out'' = Some (value_opt ''--out'' PlainStr (StrArg ''roster.json''))"
      "find_opt (ap_opts ?P) ''--updated'' = Some (value_opt ''--updated'' PlainStr (StrArg ''1970-01-01T00:00:00Z''))"
    by (simp_all add: roster_init_parser_def table_defs find_opt_def)
  have words: "words_of ?P ?nvs = [''--out='' @ out, ''--updated='' @ upd]"
    by (simp add: found) (simp add: render_opt_def takes_value_def value_opt_def)
  have pos: "ap_pos ?P = OnePos ''federation_id''" by (simp add: roster_init_parser_def command_parser_def)
  have names: "fst ` set ?nvs \<subseteq> set (map (last \<circ> op_names) (ap_opts ?P))"
    by (auto simp: roster_init_parser_def table_defs)
  have run: "set_named ?P ?nvs \<lparr>sc_ns = initial_ns ?P, sc_seen = [], sc_pos = ap_pos ?P, sc_extras = []\<rparr> = Go ?st"
    by (simp add: set_named_Cons found) (simp add: apply_option_def convert_arg_def takes_value_def table_defs)
  have "leaf ?P (words_of ?P ?nvs @ [''--'', fid]) = Go ((sc_ns ?st)(''federation_id'' \<mapsto> StrArg fid), [])"
    by (subst leaf_words(2) [OF proper_tables(3) names run]) (simp_all add: pos, simp add: roster_init_parser_def table_defs)
  moreover have "binds_call ((sc_ns ?st)(''federation_id'' \<mapsto> StrArg fid)) (RosterInit fid out upd)"
    by (rule binds_callI) (simp_all add: call_of_def accessor_defs initial_ns_def roster_init_parser_def table_defs)
  ultimately show ?thesis by (auto simp: words)
qed

lemma keys_lookup:
  "sc_ns (keys_set xs st) ''admin_key'' = (if xs = [] then sc_ns st ''admin_key'' else Some (ListArg (list_arg (sc_ns st) ''admin_key'' @ xs)))"
  by (induction xs arbitrary: st) (auto simp: keys_set_def list_arg_def)

lemma tls_lookup:
  "j \<noteq> ''insecure'' \<Longrightarrow> j \<noteq> ''client_key'' \<Longrightarrow> j \<noteq> ''client_cert'' \<Longrightarrow> j \<noteq> ''ca_bundle'' \<Longrightarrow> sc_ns (tls_set t st) j = sc_ns st j"
  by (simp add: tls_set_def)

lemma tls_read:
  assumes "sc_ns st ''insecure'' = Some (BoolArg False)" "sc_ns st ''client_key'' = Some NoneArg" "sc_ns st ''client_cert'' = Some NoneArg"
    "sc_ns st ''ca_bundle'' = Some NoneArg"
  shows "client_tls_of (sc_ns (tls_set t st)) = t"
  using assms by (cases t) (simp add: client_tls_of_def tls_set_def maybe_arg_def bool_arg_def split: option.split)

lemma client_tls_of_upd: "client_tls_of (m(''prompt'' := v)) = client_tls_of m"
  by (simp add: client_tls_of_def maybe_arg_def bool_arg_def)

definition start :: "arg_parser \<Rightarrow> parse_state" where
  "start P = \<lparr>sc_ns = initial_ns P, sc_seen = [], sc_pos = ap_pos P, sc_extras = []\<rparr>"

lemma start_simps [simp]: "sc_ns (start P) = initial_ns P" "sc_seen (start P) = []" "sc_pos (start P) = ap_pos P"
  by (simp_all add: start_def)

lemma chat_bound:
  "binds_call ((sc_ns (chat_set a (start chat_parser)))(''prompt'' \<mapsto> (case cx_prompt a of None \<Rightarrow> NoneArg | Some p \<Rightarrow> StrArg p))) (Chat a)"
proof (rule binds_callI)
  have initial: "initial_ns chat_parser ''func'' = Some (StrArg ''_cmd_chat'')" "initial_ns chat_parser ''identity'' = None"
      "initial_ns chat_parser ''quiet'' = Some (BoolArg False)" "initial_ns chat_parser ''insecure'' = Some (BoolArg False)"
      "initial_ns chat_parser ''ca_bundle'' = Some NoneArg" "initial_ns chat_parser ''client_cert'' = Some NoneArg"
      "initial_ns chat_parser ''client_key'' = Some NoneArg"
    by (simp_all add: initial_ns_def chat_parser_def table_defs)
  let ?ns = "(sc_ns (chat_set a (start chat_parser)))(''prompt'' \<mapsto> (case cx_prompt a of None \<Rightarrow> NoneArg | Some p \<Rightarrow> StrArg p))"
  show "?ns ''identity'' = None" by (simp add: chat_set_def tls_lookup initial)
  have tls: "client_tls_of ?ns = cx_tls a" by (simp add: client_tls_of_upd chat_set_def tls_read initial)
  have keys: "list_arg ?ns ''admin_key'' = cx_admin_key a" by (simp add: list_arg_def chat_set_def tls_lookup keys_lookup chat_initial)
  have prompt: "maybe_arg ?ns ''prompt'' = cx_prompt a" by (simp add: maybe_arg_def split: option.split)
  show "call_of ?ns = Chat a"
    unfolding call_of_def Let_def tls keys prompt
    by (simp add: accessor_defs chat_set_def tls_lookup initial)
qed

lemma chat_read:
  assumes "readable wr_num (Chat a)"
  shows "\<exists>ns. leaf chat_parser (tl (call_words wr_num (Chat a))) = Go (ns, []) \<and> binds_call ns (Chat a)"
proof -
  let ?P = chat_parser and ?nvs = "chat_named wr_num a"
  let ?st = "chat_set a \<lparr>sc_ns = initial_ns ?P, sc_seen = [], sc_pos = ap_pos ?P, sc_extras = []\<rparr>"
  have words: "tl (call_words wr_num (Chat a)) = words_of ?P ?nvs @ (case cx_prompt a of None \<Rightarrow> [] | Some p \<Rightarrow> [''--'', p])"
    by (simp add: call_words_def chat_named_def chat_found words_keys words_flag words_tls)
       (simp add: render_opt_def takes_value_def value_opt_def required_opt_def)
  have names: "fst ` set ?nvs \<subseteq> set (map (last \<circ> op_names) (ap_opts ?P))"
    by (auto simp: chat_named_def tls_named_def maybe_named_def flag_named_def chat_parser_def table_defs split: option.splits)
  note run = leaf_words [OF proper_chat names set_named_chat [OF assms]]
  have seen: "\<forall>d \<in> set (ap_opts ?P). op_required d \<longrightarrow> dest_of d \<in> set (sc_seen ?st)"
    by (simp add: chat_set_def tls_set_def) (simp add: chat_parser_def table_defs)
  have pos: "ap_pos ?P = MaybePos ''prompt''" "sc_pos ?st = ap_pos ?P"
    using set_named_keeps [OF set_named_chat [OF assms]] chat_table(7) by (simp_all add: set_named_chat [OF assms])
  show ?thesis
  proof (cases "cx_prompt a")
    case None
    have "initial_ns ?P ''prompt'' = Some NoneArg" by (simp add: initial_ns_def chat_parser_def table_defs)
    then have "(sc_ns ?st)(''prompt'' \<mapsto> NoneArg) = sc_ns ?st" by (auto simp: chat_set_def tls_lookup)
    moreover have "leaf ?P (words_of ?P ?nvs) = Go (sc_ns ?st, [])"
      using run(1) seen pos by (auto simp: needed_def)
    ultimately show ?thesis using chat_bound [of a] by (auto simp: words None start_def)
  next
    case (Some p)
    have "leaf ?P (words_of ?P ?nvs @ [''--'', p]) = Go ((sc_ns ?st)(''prompt'' \<mapsto> StrArg p), [])"
      using run(2) [of "''prompt''" p] seen pos by auto
    then show ?thesis using chat_bound [of a] by (auto simp: words Some start_def)
  qed
qed

lemma contribute_read:
  assumes "readable wr_num (Contribute a)"
  shows "\<exists>ns. leaf contribute_parser (tl (call_words wr_num (Contribute a))) = Go (ns, []) \<and> binds_call ns (Contribute a)"
proof -
  let ?P = contribute_parser and ?nvs = "contribute_named wr_num a"
  let ?st = "contribute_set a \<lparr>sc_ns = initial_ns ?P, sc_seen = [], sc_pos = ap_pos ?P, sc_extras = []\<rparr>"
  have words: "tl (call_words wr_num (Contribute a)) = words_of ?P ?nvs"
    by (simp add: call_words_def contribute_named_def contribute_found words_keys words_tls)
       (simp add: render_opt_def takes_value_def value_opt_def required_opt_def)
  have names: "fst ` set ?nvs \<subseteq> set (map (last \<circ> op_names) (ap_opts ?P))"
    by (auto simp: contribute_named_def tls_named_def maybe_named_def flag_named_def contribute_parser_def table_defs split: option.splits)
  have "\<forall>d \<in> set (ap_opts ?P). op_required d \<longrightarrow> dest_of d \<in> set (sc_seen ?st)"
    by (simp add: contribute_set_def tls_set_def) (simp add: contribute_parser_def table_defs)
  moreover have "sc_pos ?st = NoPos"
    using set_named_keeps [OF set_named_contribute [OF assms]]
    by (simp add: set_named_contribute [OF assms] contribute_parser_def command_parser_def)
  ultimately have "leaf ?P (words_of ?P ?nvs) = Go (sc_ns ?st, [])"
    using leaf_words(1) [OF proper_tables(1) names set_named_contribute [OF assms]] by (auto simp: needed_def)
  moreover have "binds_call (sc_ns (contribute_set a (start contribute_parser))) (Contribute a)"
  proof (rule binds_callI)
    have initial: "initial_ns ?P ''func'' = Some (StrArg ''_cmd_contribute'')" "initial_ns ?P ''identity'' = None"
        "initial_ns ?P ''insecure'' = Some (BoolArg False)" "initial_ns ?P ''ca_bundle'' = Some NoneArg"
        "initial_ns ?P ''client_cert'' = Some NoneArg" "initial_ns ?P ''client_key'' = Some NoneArg"
        "initial_ns ?P ''admin_key'' = Some (ListArg [])"
      by (simp_all add: initial_ns_def contribute_parser_def table_defs)
    let ?ns = "sc_ns (contribute_set a (start ?P))"
    show "?ns ''identity'' = None" by (simp add: contribute_set_def tls_lookup initial)
    have tls: "client_tls_of ?ns = ct_tls a" by (simp add: contribute_set_def tls_read initial)
    have keys: "list_arg ?ns ''admin_key'' = ct_admin_key a" by (simp add: list_arg_def contribute_set_def tls_lookup keys_lookup initial)
    show "call_of ?ns = Contribute a"
      unfolding call_of_def Let_def tls keys by (simp add: accessor_defs contribute_set_def tls_lookup initial)
  qed
  ultimately show ?thesis by (auto simp: words start_def)
qed

section \<open>The main parser passes a command on\<close>

lemma parse_delegates:
  assumes "tokens (ap_opts P) words = Some toks" "tokens (ap_opts P) (name # words) = Some (ArgTok name # toks)"
    and "ap_pos P = SubPos k" "sub name = Some p" "p words = Go (ns, left)" "\<forall>d \<in> set (ap_opts P). \<not> op_required d"
    and "proper_opts (ap_opts P)" "fst ` set nvs \<subseteq> set (map (last \<circ> op_names) (ap_opts P))"
    and "set_named P nvs \<lparr>sc_ns = initial_ns P, sc_seen = [], sc_pos = ap_pos P, sc_extras = []\<rparr> = Go st"
  shows "parse_known P sub (words_of P nvs @ name # words) = Go ((sc_ns st)(k \<mapsto> StrArg name) ++ ns, left)"
proof -
  have keeps: "sc_extras st = [] \<and> sc_pos st = SubPos k" using set_named_keeps [OF assms(9)] assms(3) by simp
  have "scan (ap_opts P) sub (map rendered_tok (map (named P) nvs) @ ArgTok name # toks)
      \<lparr>sc_ns = initial_ns P, sc_seen = [], sc_pos = ap_pos P, sc_extras = []\<rparr> = scan (ap_opts P) sub (ArgTok name # toks) st"
    using assms(9) unfolding scan_rendered set_named_def by simp
  also have "\<dots> = Go (extra left ((positional_arg k name st)\<lparr>sc_ns := sc_ns (positional_arg k name st) ++ ns\<rparr>))"
    using keeps assms(4,5) tokens_text [OF assms(1)] by (simp add: call_subparser_def Let_def)
  finally show ?thesis
    using words_tokens [OF assms(7,8), of "name # words"] assms(2,6) keeps
    by (simp add: parse_known_def positional_arg_def set_arg_def needed_def extra_def)
qed

text \<open>The parsers with subcommands find no option of theirs ambiguous, except when there is no letter.\<close>

definition clear :: "opt list \<Rightarrow> string \<Rightarrow> bool" where
  "clear opts w \<longleftrightarrow> classify opts w \<noteq> None"

lemma main_unambiguous:
  "c \<noteq> CHR ''='' \<Longrightarrow> clear (ap_opts (commonweal_parser home)) (CHR ''-'' # CHR ''-'' # c # w)"
  "c \<noteq> CHR ''='' \<Longrightarrow> clear (ap_opts roster_parser) (CHR ''-'' # CHR ''-'' # c # w)"
  by (auto simp: clear_def classify_def find_opt_def option_tuples_def partition_eq_def commonweal_parser_def roster_parser_def table_defs
      split: option.split list.split)

fun passable :: "opt list \<Rightarrow> string list \<Rightarrow> bool" where
  "passable opts [] = True"
| "passable opts (w # ws) = (w = ''--'' \<or> clear opts w \<and> passable opts ws)"

lemma passable_tokens: "passable opts ws \<Longrightarrow> \<exists>toks. tokens opts ws = Some toks"
  by (induction ws) (auto simp: clear_def)

lemma passable_append: "\<forall>w \<in> set xs. clear opts w \<Longrightarrow> passable opts ws \<Longrightarrow> passable opts (xs @ ws)"
  by (induction xs) auto

lemma passable_Cons: "clear opts w \<Longrightarrow> passable opts ws \<Longrightarrow> passable opts (w # ws)"
  by simp

lemma passable_tls:
  assumes "\<And>c w. c \<noteq> CHR ''='' \<Longrightarrow> clear opts (CHR ''-'' # CHR ''-'' # c # w)"
  shows "\<forall>w \<in> set (tls_words t). clear opts w" "\<forall>w \<in> set (flag_word (CHR ''-'' # CHR ''-'' # CHR ''q'' # n) b). clear opts w"
    "\<forall>w \<in> set (flag_word (CHR ''-'' # CHR ''-'' # CHR ''f'' # n) b). clear opts w"
    "\<forall>w \<in> set (flag_word (CHR ''-'' # CHR ''-'' # CHR ''k'' # n) b). clear opts w"
    "\<forall>w \<in> set (map ((@) ''--admin-key='') pairs). clear opts w"
  using assms by (auto simp: tls_words_def maybe_word_def flag_word_def split: option.splits if_splits)

lemma passable_words:
  assumes "\<And>c w. c \<noteq> CHR ''='' \<Longrightarrow> clear opts (CHR ''-'' # CHR ''-'' # c # w)"
    and "\<And>c w. c \<noteq> CHR ''-'' \<Longrightarrow> clear opts (c # w)"
  shows "passable opts (tl (call_words wr_num call))"
proof (cases call)
  case (Keygen mid force kr)
  show ?thesis
    unfolding Keygen call_words_def cli_call.case list.sel by (intro passable_append passable_tls assms) simp_all
next
  case (RosterInit fid out upd)
  with assms show ?thesis by (simp add: call_words_def)
next
  case (RosterSign path)
  with assms show ?thesis by (simp add: call_words_def)
next
  case (Contribute a)
  have "passable opts (tls_words (ct_tls a))"
    using passable_append [of "tls_words (ct_tls a)" opts "[]"] passable_tls(1) [of opts "ct_tls a"] assms(1) by simp
  then show ?thesis
    unfolding Contribute call_words_def cli_call.case append_Cons append_Nil list.sel
    by (intro passable_Cons passable_append passable_tls assms) (simp_all add: assms)
next
  case (Chat a)
  have "passable opts (case cx_prompt a of None \<Rightarrow> [] | Some p \<Rightarrow> [''--'', p])" by (cases "cx_prompt a") simp_all
  then show ?thesis
    unfolding Chat call_words_def cli_call.case append_Cons append_Nil list.sel
    by (intro passable_Cons passable_append passable_tls assms) (simp_all add: assms)
qed (simp_all add: call_words_def)

lemma roster_read:
  assumes "roster_commands name = Some p" "p words = Go (ns, [])" "binds_call ns call" "passable (ap_opts roster_parser) words" "hd name \<noteq> CHR ''-''" "name \<noteq> []"
  shows "\<exists>ns'. parse_known roster_parser (roster_commands) (name # words) = Go (ns', []) \<and> binds_call ns' call"
proof -
  from passable_tokens [OF assms(4)] obtain toks where toks: "tokens (ap_opts roster_parser) words = Some toks" ..
  have name: "tokens (ap_opts roster_parser) (name # words) = Some (ArgTok name # toks)" using toks assms(5,6) by (auto simp: classify_def)
  let ?base = "(initial_ns roster_parser)(''roster_command'' \<mapsto> StrArg name)"
  have "parse_known roster_parser (roster_commands) (words_of roster_parser [] @ name # words) = Go (?base ++ ns, [])"
    using parse_delegates [of roster_parser words toks name "''roster_command''" "roster_commands" p ns "[]" "[]" "start roster_parser",
        OF toks name _ assms(1,2)]
    by (simp add: roster_parser_def proper_opts_def table_defs find_opt_def start_def)
  moreover have "dom ?base = {''roster_command''}" by (auto simp: initial_ns_def roster_parser_def help_opt_def split: if_splits)
  then have "dom (base ++ ?base) \<subseteq> main_keys" if "dom base \<subseteq> main_keys" for base using that by (auto simp: main_keys_def)
  then have "call_of (base ++ (?base ++ ns)) = call" if "dom base \<subseteq> main_keys" for base
    using that assms(3) unfolding binds_call_def by (metis map_add_assoc)
  moreover have "(?base ++ ns) ''identity'' = None"
    using assms(3) by (simp add: binds_call_def map_add_def initial_ns_def roster_parser_def help_opt_def)
  ultimately show ?thesis unfolding binds_call_def by (metis words_of_simps(1) append_Nil)
qed

lemma call_read:
  assumes "readable wr_num call"
  shows "\<exists>name words p ns. call_words wr_num call = name # words \<and> commonweal_commands name = Some p \<and> p words = Go (ns, [])
     \<and> binds_call ns call \<and> name \<noteq> [] \<and> hd name \<noteq> CHR ''-''"
proof (cases call)
  case (Keygen mid force kr)
  with keygen_read [of force kr mid] show ?thesis by (simp add: call_words_def commonweal_commands_def)
next
  case KeyringMigrate
  with plain_read(1) show ?thesis by (simp add: call_words_def commonweal_commands_def)
next
  case Whoami
  with plain_read(2) show ?thesis by (simp add: call_words_def commonweal_commands_def)
next
  case (RosterInit fid out upd)
  from roster_init_read [of out upd fid] obtain ns where "leaf roster_init_parser [''--out='' @ out, ''--updated='' @ upd, ''--'', fid] = Go (ns, [])"
      "binds_call ns call" unfolding RosterInit by blast
  from roster_read [of "''init''" "leaf roster_init_parser" "[''--out='' @ out, ''--updated='' @ upd, ''--'', fid]", OF _ this] main_unambiguous(2)
  show ?thesis by (simp add: RosterInit call_words_def commonweal_commands_def roster_commands_def)
next
  case (RosterSign path)
  from roster_sign_read [of path] obtain ns where "leaf roster_sign_parser [''--'', path] = Go (ns, [])"
      "binds_call ns call" unfolding RosterSign by blast
  from roster_read [of "''sign''" "leaf roster_sign_parser" "[''--'', path]", OF _ this] show ?thesis
    by (simp add: RosterSign call_words_def commonweal_commands_def roster_commands_def)
next
  case (Contribute a)
  with contribute_read [of wr_num a] assms show ?thesis by (simp add: call_words_def commonweal_commands_def)
next
  case (Chat a)
  with chat_read [of wr_num a] assms show ?thesis by (simp add: call_words_def commonweal_commands_def)
qed

lemma main_read:
  assumes "readable wr_num call"
    and "nvs = [] \<and> st = start (commonweal_parser home) \<and> path = home
      \<or> nvs = [(''--identity'', path)] \<and> st = set_arg ''identity'' (StrArg path) (start (commonweal_parser home))"
  shows "parse_cli home (words_of (commonweal_parser home) nvs @ call_words wr_num call) = Go (path, call)"
proof -
  let ?P = "commonweal_parser home"
  from call_read [OF assms(1)] obtain name words p ns where call: "call_words wr_num call = name # words" "commonweal_commands name = Some p"
      "p words = Go (ns, [])" "binds_call ns call" "name \<noteq> []" "hd name \<noteq> CHR ''-''" by blast
  have "clear (ap_opts ?P) (c # w)" if "c \<noteq> CHR ''-''" for c w using that by (simp add: clear_def classify_def)
  then have "passable (ap_opts ?P) words" using passable_words [of "ap_opts ?P", OF main_unambiguous(1)] call(1) by (metis list.sel(3))
  from passable_tokens [OF this] obtain toks where toks: "tokens (ap_opts ?P) words = Some toks" ..
  have name: "tokens (ap_opts ?P) (name # words) = Some (ArgTok name # toks)" using toks call(5,6) by (auto simp: classify_def)
  have found: "find_opt (ap_opts ?P) ''--identity'' = Some (value_opt ''--identity'' PlainStr (StrArg home))"
    by (simp add: commonweal_parser_def table_defs find_opt_def)
  have run: "set_named ?P nvs (start ?P) = Go st"
    using assms(2) by (auto simp: set_named_Cons found) (simp_all add: apply_option_def convert_arg_def takes_value_def table_defs)
  let ?base = "(sc_ns st)(''command'' \<mapsto> StrArg name)"
  have "parse_known ?P (commonweal_commands) (words_of ?P nvs @ name # words) = Go (?base ++ ns, [])"
    using assms(2)
    by (intro parse_delegates [where P = ?P and sub = "commonweal_commands" and words = words, OF toks name _ call(2,3) _
          proper_tables(5) _ run [unfolded start_def]])
       (auto simp: commonweal_parser_def table_defs)
  moreover have "dom ?base \<subseteq> main_keys" using assms(2)
    by (auto simp: initial_ns_def commonweal_parser_def table_defs main_keys_def split: if_splits)
  then have "call_of (?base ++ ns) = call" using call(4) unfolding binds_call_def by blast
  moreover have "str_arg (?base ++ ns) ''identity'' = path"
    using assms(2) call(4) by (auto simp: binds_call_def str_arg_def map_add_def initial_ns_def commonweal_parser_def table_defs)
  ultimately show ?thesis by (simp add: parse_cli_def commonweal_args_def parse_args_def call(1))
qed

lemma identity_words: "words_of (commonweal_parser home) [(''--identity'', path)] = [''--identity='' @ path]"
proof -
  have "find_opt (ap_opts (commonweal_parser home)) ''--identity'' = Some (value_opt ''--identity'' PlainStr (StrArg home))"
    by (simp add: commonweal_parser_def table_defs find_opt_def)
  then show ?thesis by (simp add: render_opt_def takes_value_def value_opt_def)
qed

lemma parse_words:
  assumes "readable wr_num call"
  shows "parse_cli home (call_words wr_num call) = Go (home, call)"
    "parse_cli home ((''--identity='' @ path) # call_words wr_num call) = Go (path, call)"
  using main_read [OF assms, of "[]" "start (commonweal_parser home)" home home]
    main_read [OF assms, of "[(''--identity'', path)]" _ home path] identity_words by simp_all

section \<open>Founding a federation\<close>



text \<open>A document written at a path that leads elsewhere leaves the identity alone.\<close>

lemma read_put_file [simp]:
  "read_at (put_file p doc m) q = (if mc_resolve m q = mc_resolve m p then Inr doc else read_at m q)"
  by (simp add: read_at_def put_file_def)

lemma put_file_frame [simp]:
  "mc_resolve (put_file p doc m) = mc_resolve m" "write_error (put_file p doc m) q = write_error m q"
  "mc_keychain (put_file p doc m) = mc_keychain m" "mc_keychain_usable (put_file p doc m) = mc_keychain_usable m"
  "mc_keychain_fails (put_file p doc m) = mc_keychain_fails m"
  by (simp_all add: put_file_def write_error_def Let_def)

lemma run_written:
  "c = Go doc \<Longrightarrow> write_error m path = None \<Longrightarrow> ru_end (written path c m) = Exit 0 \<and> ru_machine (written path c m) = put_file path doc m"
  by (simp add: written_def ended_def finished_def cli_main_def)

section \<open>The daemons' defaults\<close>

text \<open>Only the required options, and any number of pinned keys.\<close>

lemma peer_found:
  "find_opt (ap_opts peer_parser) ''--roster'' = Some (required_opt ''--roster'' PlainStr)"
  "find_opt (ap_opts peer_parser) ''--identity'' = Some (required_opt ''--identity'' PlainStr)"
  "find_opt (ap_opts peer_parser) ''--peer-id'' = Some (required_opt ''--peer-id'' PlainStr)"
  "find_opt (ap_opts peer_parser) ''--admin-key'' = Some admin_key_opt"
  by (simp_all add: peer_parser_def table_defs find_opt_def)

lemma coordinator_found:
  "find_opt (ap_opts coordinator_parser) ''--roster'' = Some (required_opt ''--roster'' PlainStr)"
  "find_opt (ap_opts coordinator_parser) ''--admin-key'' = Some admin_key_opt"
  by (simp_all add: coordinator_parser_def table_defs find_opt_def)

lemma proper_daemons: "proper_opts (ap_opts peer_parser)" "proper_opts (ap_opts coordinator_parser)"
  by (simp_all add: proper_opts_def peer_parser_def coordinator_parser_def table_defs find_opt_def)

lemma parse_args_leaf: "leaf P argv = Go (ns, []) \<Longrightarrow> parse_args P (\<lambda>name. None) argv = Go ns"
  by (simp add: leaf_def parse_args_def)

lemma peer_defaults_read:
  "\<exists>ns. parse_args peer_parser (\<lambda>name. None) ([''--roster='' @ r, ''--identity='' @ i, ''--peer-id='' @ pid] @ map ((@) ''--admin-key='') pairs) = Go ns
     \<and> peer_args_of ns = Some (peer_arg_defaults pairs pid) \<and> str_arg ns ''roster'' = r \<and> str_arg ns ''identity'' = i
     \<and> str_arg ns ''host'' = ''127.0.0.1'' \<and> int_arg ns ''port'' = 9101"
proof -
  let ?P = peer_parser and ?nvs = "[(''--roster'', r), (''--identity'', i), (''--peer-id'', pid)] @ map (Pair ''--admin-key'') pairs"
  let ?st = "keys_set pairs (set_arg ''peer_id'' (StrArg pid) (set_arg ''identity'' (StrArg i) (set_arg ''roster'' (StrArg r) (start ?P))))"
  have words: "words_of ?P ?nvs = [''--roster='' @ r, ''--identity='' @ i, ''--peer-id='' @ pid] @ map ((@) ''--admin-key='') pairs"
    by (simp add: peer_found words_keys) (simp add: render_opt_def takes_value_def required_opt_def)
  have names: "fst ` set ?nvs \<subseteq> set (map (last \<circ> op_names) (ap_opts ?P))" by (auto simp: peer_parser_def table_defs)
  have run: "set_named ?P ?nvs (start ?P) = Go ?st"
    by (simp add: set_named_append set_named_Cons peer_found set_named_keys apply_option_def convert_arg_def takes_value_def)
       (simp add: table_defs convert_arg_def)
  have "sc_pos ?st = NoPos" using set_named_keeps [OF run] by (simp add: peer_parser_def)
  moreover have "\<forall>d \<in> set (ap_opts ?P). op_required d \<longrightarrow> dest_of d \<in> set (sc_seen ?st)" by simp (simp add: peer_parser_def table_defs)
  ultimately have "leaf ?P (words_of ?P ?nvs) = Go (sc_ns ?st, [])"
    using leaf_words(1) [OF proper_daemons(1) names run [unfolded start_def]] by (auto simp: needed_def start_def)
  moreover have "initial_ns ?P ''admin_key'' = Some (ListArg [])" by (simp add: initial_ns_def peer_parser_def table_defs)
  then have "list_arg (sc_ns ?st) ''admin_key'' = pairs" by (simp add: list_arg_def keys_lookup)
  moreover have
      "initial_ns ?P ''coordinator'' = Some (NoneArg)" "initial_ns ?P ''resident_gb'' = Some (NumArg (Flt 0))"
      "initial_ns ?P ''hw_class'' = Some (StrArg ''unknown'')"
      "initial_ns ?P ''readiness_window'' = Some (NumArg (Flt 60))"
      "initial_ns ?P ''probe_interval'' = Some (NumArg (Flt 15))"
      "initial_ns ?P ''no_inference_probe'' = Some (BoolArg False)"
      "initial_ns ?P ''tls_cert'' = Some (NoneArg)"
      "initial_ns ?P ''tls_key'' = Some (NoneArg)" "initial_ns ?P ''tls_client_ca'' = Some (NoneArg)"
      "initial_ns ?P ''ca_bundle'' = Some (NoneArg)"
      "initial_ns ?P ''client_cert'' = Some (NoneArg)"
      "initial_ns ?P ''client_key'' = Some (NoneArg)"
      "initial_ns ?P ''insecure'' = Some (BoolArg False)" "initial_ns ?P ''host'' = Some (StrArg ''127.0.0.1'')"
      "initial_ns ?P ''port'' = Some (IntArg 9101)"
      "initial_ns ?P ''engine'' = Some (StrArg (pa_engine (peer_arg_defaults [] [])))"
    by (simp_all add: initial_ns_def peer_parser_def table_defs peer_arg_defaults_def)
  ultimately show ?thesis
    unfolding words
    by (intro exI [of _ "sc_ns ?st"])
       (simp add: parse_args_leaf peer_args_of_def finite_arg_def accessor_defs server_tls_of_def client_tls_of_def peer_arg_defaults_def
         no_server_tls_def no_client_tls_def)
qed

lemma coordinator_defaults_read:
  "\<exists>ns. parse_args coordinator_parser (\<lambda>name. None) ((''--roster='' @ r) # map ((@) ''--admin-key='') pairs) = Go ns
     \<and> coordinator_args_of ns = coordinator_arg_defaults pairs \<and> str_arg ns ''roster'' = r
     \<and> str_arg ns ''host'' = ''127.0.0.1'' \<and> int_arg ns ''port'' = 8080"
proof -
  let ?P = coordinator_parser and ?nvs = "[(''--roster'', r)] @ map (Pair ''--admin-key'') pairs"
  let ?st = "keys_set pairs (set_arg ''roster'' (StrArg r) (start ?P))"
  have words: "words_of ?P ?nvs = (''--roster='' @ r) # map ((@) ''--admin-key='') pairs"
    by (simp add: coordinator_found words_keys) (simp add: render_opt_def takes_value_def required_opt_def)
  have names: "fst ` set ?nvs \<subseteq> set (map (last \<circ> op_names) (ap_opts ?P))" by (auto simp: coordinator_parser_def table_defs)
  have run: "set_named ?P ?nvs (start ?P) = Go ?st"
    by (simp add: set_named_append set_named_Cons coordinator_found set_named_keys apply_option_def convert_arg_def takes_value_def)
       (simp add: table_defs convert_arg_def)
  have "sc_pos ?st = NoPos" using set_named_keeps [OF run] by (simp add: coordinator_parser_def)
  moreover have "\<forall>d \<in> set (ap_opts ?P). op_required d \<longrightarrow> dest_of d \<in> set (sc_seen ?st)" by simp (simp add: coordinator_parser_def table_defs)
  ultimately have "leaf ?P (words_of ?P ?nvs) = Go (sc_ns ?st, [])"
    using leaf_words(1) [OF proper_daemons(2) names run [unfolded start_def]] by (auto simp: needed_def start_def)
  moreover have "initial_ns ?P ''admin_key'' = Some (ListArg [])" by (simp add: initial_ns_def coordinator_parser_def table_defs)
  then have "list_arg (sc_ns ?st) ''admin_key'' = pairs" by (simp add: list_arg_def keys_lookup)
  moreover have
      "initial_ns ?P ''roster_version'' = Some (NoneArg)" "initial_ns ?P ''max_queue'' = Some (IntArg 32)"
      "initial_ns ?P ''tls_cert'' = Some (NoneArg)"
      "initial_ns ?P ''tls_key'' = Some (NoneArg)" "initial_ns ?P ''tls_client_ca'' = Some (NoneArg)"
      "initial_ns ?P ''ca_bundle'' = Some (NoneArg)" "initial_ns ?P ''client_cert'' = Some (NoneArg)"
      "initial_ns ?P ''client_key'' = Some (NoneArg)"
      "initial_ns ?P ''insecure'' = Some (BoolArg False)"
      "initial_ns ?P ''host'' = Some (StrArg ''127.0.0.1'')" "initial_ns ?P ''port'' = Some (IntArg 8080)"
    by (simp_all add: initial_ns_def coordinator_parser_def table_defs)
  ultimately show ?thesis
    unfolding words
    by (intro exI [of _ "sc_ns ?st"])
       (simp add: parse_args_leaf coordinator_args_of_def maybe_int_def accessor_defs server_tls_of_def client_tls_of_def
         coordinator_arg_defaults_def no_server_tls_def no_client_tls_def)
qed

section \<open>Properties\<close>

text \<open>
  C24: command lines say what they mean: the words written for a call of any subcommand, with every option given
  and whatever characters its values have, are parsed back to exactly that call, with the identity path given
  or the default one, provided its numbers are written so that Python reads them back.
\<close>
theorem command_line_roundtrip:
  assumes "readable wr_num call"
  shows "parse_cli home (call_words wr_num call) = Go (home, call)
    \<and> parse_cli home ((''--identity='' @ path) # call_words wr_num call) = Go (path, call)"
  using parse_words [OF assms] by blast


text \<open>
  Where the two paths do lead to one file, \<open>roster init\<close> replaces the new identity by the draft, and ends with
  status 0: the private keys are gone, and \<open>roster sign\<close> ends with a \<open>KeyError\<close>.
\<close>

lemma roster_init_overwrites:
  assumes "load_identity (store_at m idp) = Inr i" "mc_resolve m idp = mc_resolve m path" "write_error m path = None"
    and "r = run_call K su idp (RosterInit fid path upd) m"
  shows "ru_end r = Exit 0 \<and> ru_end (run_call K su idp (RosterSign path) (ru_machine r)) = Raised (FromIdentity (FieldMissing ''member_id''))"
proof -
  obtain draft where draft: "cmd_roster_init fid upd (store_at m idp) = Go (JObj draft)" "map_of draft ''member_id'' = None"
    using assms(1) by (simp add: cmd_roster_init_def raising_def)
  have "ru_end r = Exit 0" "ru_machine r = put_file path (JObj draft) m"
    using run_written [OF draft(1) assms(3)] by (simp_all add: assms(4) run_call_def)
  with draft(2) assms(2) show ?thesis
    by (simp add: run_call_def written_def store_at_def load_identity_def cmd_roster_sign_def raising_def ended_def finished_def cli_main_def)
qed

section \<open>Witnesses\<close>

lemma demo_temperature: "float_of_str ''0.7'' = Some (Flt DEFAULT_TEMPERATURE)"
  by code_simp

theorem command_line_roundtrip_witness:
  "parse_cli ''home'' ((''--identity='' @ ''a.json'') # call_words (\<lambda>x. ''0.7'') (Chat demo_chat))
     = Go (''a.json'', Chat demo_chat)"
  by (rule conjunct2 [OF command_line_roundtrip]) (simp add: readable_def demo_temperature demo_chat_def short_int_def show_nat.simps MAX_STR_DIGITS_def)


end
