(* ===== verification/RelayText.thy ===== *)
theory RelayText
  imports Coordinator WireText
begin

text \<open>
  The relay on the level of text. \<open>Coordinator\<close> models \<open>relay_to_peer\<close> on rows; here are the characters that the
  coordinator sends on, and the theorem that the rows are a faithful abstraction of them.
\<close>

text \<open>
  The body the client is sent: the lines of the peer's body, stripped, without the blank ones, each ended by a line
  feed. The generator stops at a line that makes \<open>json.loads\<close> raise something other than \<open>JSONDecodeError\<close>.
\<close>

definition forwarded_lines :: "pylib \<Rightarrow> string list \<Rightarrow> string list" where
  "forwarded_lines L ls =
     filter (\<lambda>l. l \<noteq> []) (map py_strip (takeWhile (\<lambda>l. wire_line_of L l \<noteq> Overlong) ls))"

definition forwarded :: "pylib \<Rightarrow> (string \<Rightarrow> string list) \<Rightarrow> string \<Rightarrow> string" where
  "forwarded L lines_of body = print_lines (forwarded_lines L (lines_of body))"

lemma forwarded_rows:
  "map (wire_line_of L) (forwarded_lines L ls) =
     filter (\<lambda>x. x \<noteq> Blank) (takeWhile (\<lambda>x. x \<noteq> Overlong) (map (wire_line_of L) ls))"
  by (induction ls) (auto simp: forwarded_lines_def wire_line_of_Blank)

lemma forwarded_unbroken:
  assumes "line_laws lines_of" "l \<in> set (forwarded_lines L (lines_of body))" "c \<in> set l"
  shows "\<not> line_break c"
proof -
  from assms(2) obtain raw where raw: "raw \<in> set (lines_of body)" "l = py_strip raw"
    by (auto simp: forwarded_lines_def dest: set_takeWhileD)
  from assms(3) have "c \<in> set raw" unfolding raw(2) by (rule py_strip_subset)
  with raw(1) assms(1) show ?thesis by (auto simp: line_laws_def)
qed

section \<open>Property\<close>

text \<open>
  C39: the relay's model on rows is what the text does: whatever characters a peer streams, the client that reads
  the forwarded text gets exactly the rows that \<open>relay_to_peer\<close> yields over the rows of the peer's text; stripping,
  dropping blank lines and ending each line anew neither splits, joins nor changes a frame.
\<close>
theorem relayed_text_refines_rows:
  assumes "line_laws lines_of"
  shows "body_rows L lines_of (forwarded L lines_of body) = yielded (fst (relay_to_peer (PeerStream (body_rows L lines_of body) broken)))"
proof -
  have "lines_of (forwarded L lines_of body) = forwarded_lines L (lines_of body)"
    using assms forwarded_unbroken [OF assms] unfolding forwarded_def line_laws_def by blast
  then show ?thesis by (simp add: body_rows_def forwarded_rows yielded_rows relay_to_peer_def)
qed

theorem relayed_text_refines_rows_witness:
  "body_rows demo_lib text_lines (forwarded demo_lib text_lines (''{} '' @ [CHR 0x0D, CHR 0x0A, CHR '' '', CHR 0x0A] @ ''oops''))
     = [Json (JObj []), Garbage ''oops'']"
proof -
  have "body_rows demo_lib text_lines (''{} '' @ [CHR 0x0D, CHR 0x0A, CHR '' '', CHR 0x0A] @ ''oops'') = [Json (JObj []), Blank, Garbage ''oops'']"
    by code_simp
  moreover have "yielded (relay_lines [Json (JObj []), Blank, Garbage ''oops'']) = [Json (JObj []), Garbage ''oops'']"
    unfolding yielded_rows by simp
  ultimately show ?thesis
    using relayed_text_refines_rows [OF line_laws_text_lines, of demo_lib "''{} '' @ [CHR 0x0D, CHR 0x0A, CHR '' '', CHR 0x0A] @ ''oops''" None]
    by (simp add: relay_to_peer_def del: append.simps relay_lines.simps)
qed

end
