(* ===== verification/Spec2Isabelle.thy ===== *)
theory Spec2Isabelle
  imports Federation Startup LeaseLife DispatchLoop Wording WireTypes CallText RelayText
begin

text \<open>
  Commonweal is federated inference: members lend machines (peers) that serve a model, an untrusted
  coordinator routes sealed requests to them, and an admin-signed roster says who and what belongs to
  the federation. This development models the Python package under \<open>src/src/commonweal\<close>.

  \<^bold>\<open>Parts and theories.\<close>
  \<^item> \<open>Prelude\<close>: lemmas on insertion-ordered dicts (association lists), error results and folds, and the
    interfaces \<open>step_invariant\<close>, \<open>slot_pool\<close> and \<open>priority_queue\<close>.
  \<^item> \<open>PyValue\<close>: Python's dynamically typed JSON values, numbers (int, float, infinities, NaN), truthiness.
  \<^item> \<open>Canonical\<close> (\<open>proto/canonical.py\<close>), \<open>Envelope\<close> (\<open>proto/version.py\<close>, \<open>proto/envelope.py\<close>): the bytes that
    get signed, strict base64, and the wire types with their codecs.
  \<^item> \<open>Numbers\<close>, \<open>JsonText\<close>, \<open>Sha256\<close>: what the package uses of Python's standard library, written out: \<open>int\<close> and
    \<open>float\<close> of a string with the limit of 4300 digits and correct rounding, \<open>json.loads\<close> of text and of bytes,
    \<open>json.dumps\<close> with its defaults, SHA-256.
  \<^item> \<open>Crypto\<close> (\<open>crypto.py\<close>): sealing and signatures over primitives that are parameters of the model.
  \<^item> \<open>Sanitise\<close> (\<open>sanitise.py\<close>), \<open>Replay\<close> (\<open>replay.py\<close>): cleaning of remote text; freshness and nonces.
  \<^item> \<open>Roster\<close> (\<open>roster.py\<close>): the signed roster, its parser, serialiser and loader.
  \<^item> \<open>Ledger\<close> (\<open>ledger.py\<close>), \<open>Registry\<close> (\<open>coordinator/registry.py\<close>), \<open>Scheduler\<close>
    (\<open>coordinator/scheduler.py\<close>): metering, liveness and credit, leases and the wait queue.
  \<^item> \<open>LeaseLife\<close>: the life of a request id as an automaton, which the scheduler refines. \<open>DispatchLoop\<close>: the loop
    of \<open>_dispatch\<close> as a \<open>while\<close> loop, which ends.
  \<^item> \<open>Auth\<close> (\<open>coordinator/auth.py\<close>), \<open>Measure\<close> (\<open>measure.py\<close>): signed requests; the concurrency log.
  \<^item> \<open>Coordinator\<close> (\<open>coordinator/relay.py\<close>, \<open>coordinator/app.py\<close>): the relay, every request handler, and the
    reachable states of the whole coordinator.
  \<^item> \<open>Engines\<close> (\<open>engines/*.py\<close>): parameters of a generation, the adapter for OpenAI-compatible backends with its
    parser of server-sent events, the mock engine, \<open>build_engine\<close>.
  \<^item> \<open>WireText\<close>, \<open>RelayText\<close>: the text of a streamed response: how frames are printed and lines read, and the relay
    on characters, which the relay on rows abstracts.
  \<^item> \<open>PeerNode\<close> (\<open>peer/app.py\<close>): readiness and its single-flight probe, \<open>/health\<close>, \<open>/infer\<close> and the stream of a job.
  \<^item> \<open>Transport\<close> (\<open>tlsconfig.py\<close>), \<open>Heartbeat\<close> (\<open>peer/heartbeat.py\<close>): TLS settings; what a peer says of itself.
  \<^item> \<open>Identity\<close> (\<open>client/keys.py\<close>), \<open>Client\<close> (\<open>client/client.py\<close>): keys and where they are kept; the two rounds of a
    request as the client sees them. \<open>Wording\<close>: what the client says of a refusal and of who served an answer.
  \<^item> \<open>Commands\<close> (\<open>client/cli.py\<close>), \<open>Startup\<close> (\<open>peer/__main__.py\<close>, \<open>coordinator/__main__.py\<close>): the subcommands and
    the checks before a daemon serves, and the heartbeat task of a peer that does.
  \<^item> \<open>ArgParse\<close>: the argument parser of the standard library as far as the programs use it. \<open>CommandLine\<close>: the option
    tables of the three programs (\<open>cli.py\<close>, both \<open>__main__.py\<close>, \<open>tlsconfig.py\<close>) and \<open>main\<close> of \<open>commonweal\<close> from the
    argument vector to the exit status and what the machine holds afterwards. \<open>CallText\<close>: command lines written
    out and read back, and a federation founded by three of them.
  \<^item> \<open>WireTypes\<close>: the field lists of \<open>proto/envelope.py\<close> as a type system for the frames of a response.
  \<^item> \<open>Federation\<close>: client, coordinator and peer composed; a lease can be used and a request is answered,
    the prompt and the frames travelling as JSON text.

  \<^bold>\<open>State and operations.\<close> Classes are records, methods are functions that take the object's state and
  return the new one beside their result; exceptions are constructors of an error type in a sum. A dict is
  an association list in insertion order. Clock readings, random values and tokens are arguments: an
  operation takes one reading, a heartbeat two. Coroutines are cut where they await, so a waiting
  \<open>acquire\<close> and a relayed stream are several operations that interleave with all others in \<open>coord_step\<close>.

  \<^bold>\<open>Conventions.\<close> A \<open>str\<close> is a string of code points up to U+00FF. Floats are exact rationals and the sign
  of zero is not modelled; infinities and NaN are values of \<open>pynum\<close> where the code can meet them, and an
  infinite residency claim by a peer without declared capacity ends in \<open>InfiniteClaim\<close>. A wire line is a
  row, what \<open>json.loads\<close> makes of its text: blank, a document, \<open>Garbage\<close>, or \<open>Overlong\<close> when a number of more than
  4300 digits raises something else than \<open>JSONDecodeError\<close>; \<open>WireText\<close> and \<open>RelayText\<close> tie rows to characters. A file
  is represented by the document in it. \<open>heapq\<close> is a list sorted by the waiter's key.
  Integers are Python's; the 64-bit bound of SQLite is written out where rows are stored and where they are summed:
  a SUM whose running total leaves 64 bits raises. Recorded timestamps and row ids are not modelled.

  \<^bold>\<open>What the lemmas show.\<close> Each theory has its well-formedness invariant (\<open>roster_ok\<close>, \<open>cache_ok\<close>,
  \<open>ledger_ok\<close>, \<open>registry_ok\<close>, \<open>sched_ok\<close>, \<open>coord_ok\<close>), the lemmas that every operation keeps it, and the
  properties of its operations; the properties are numbered C1, C2, ... in their text blocks. Interfaces
  are locales (\<open>wire_codec\<close>, \<open>seen_set\<close>, \<open>slot_pool\<close>, \<open>priority_queue\<close>, \<open>step_invariant\<close>), each interpreted on
  the model's own operations.

  The composed properties rest on these: \<open>client_reads_peer\<close> (what the client makes of a peer's frames),
  \<open>relay_delivers\<close> (what the coordinator passes on), \<open>peer_infer_accepts\<close> and \<open>infer_begin_accepts\<close> (honest
  requests pass the checks), \<open>client_receive_prefix\<close> (a hostile relay), \<open>owner_beat_body\<close> (a heartbeat's effect),
  \<open>chunk_typed\<close> and \<open>receipt_typed\<close> (the parsers are the type checker), \<open>leaf_words\<close> and \<open>parse_delegates\<close> (how a
  command line is read), \<open>ceremony\<close> (a signed draft is accepted).

  \<^bold>\<open>Assumptions.\<close> \<open>crypto_laws\<close> states what is used of PyNaCl and \<open>cryptography\<close>; properties that need
  unforgeability name it as a hypothesis (\<open>authentic_lines\<close>: whoever lacks the response key produces no new
  ciphertext that opens). \<open>pylib\<close> holds what is left of the standard library:
  what \<open>json.loads\<close> makes of text with characters beyond U+00FF or in another encoding than UTF-8, and the text of an
  exception. \<open>float_repr\<close> is \<open>repr\<close> of a float; where a document is read back, \<open>printable\<close> says that its floats print as
  numbers that round to them and that its ints have at most 4300 digits. httpx's cutting of a body into lines has the
  laws \<open>line_laws\<close>, its decoding of the client's answer texts is an argument. All recursion is total; no fuel is used: a
  stream, a heartbeat loop or a run of operations is the list of its steps, of any length.

  \<^bold>\<open>Not modelled.\<close> HTTP servers and clients, the TLS handshake, file modes and atomicity, SQLite itself, the OS
  keychain beyond a map that may refuse, the wording of most error and log messages, of usage and help, and the
  event loop beyond the cuts at awaits, the recursion limit that deeply nested JSON can reach. The argument
  parser is that of Python 3.12: of what it can do, the kinds of option and positional that the programs declare.
  A peer's command line whose readiness window or probe
  interval is not finite has no result (\<open>peer_args_of\<close>). For \<open>commonweal\<close>, writing a file succeeds, and the identity
  files and the other documents are kept in two name spaces.
\<close>

end
